(* ===== verification/Py_Base.thy ===== *)
theory Py_Base
  imports Main "HOL-Library.Sublist"
begin

text \<open>
  The prelude: the part of Python's semantics that \<open>cpplint.py\<close> rests on, apart from its regular
  expressions (\<open>Py_Regex\<close>).  Exceptions are values of \<open>py_error\<close> in the left summand of a
  result; stateful code is a function of type \<open>('s, 'a) py\<close>, which threads a state and may raise;
  a text is a \<open>string\<close> whose characters are the code points 0 to 255, the range on which the
  string methods below are defined as Python 2.7 documents them for \<open>unicode\<close> objects.
  \<open>Diverges\<close> is not an exception: it stands for a computation that never returns.
  Indices are \<open>int\<close>, because the code uses -1 as a sentinel and negative indices count from
  the end.  The named collections \<open>keeps_intros\<close> and \<open>py_simps\<close> carry the component proofs.
\<close>

named_theorems py_simps \<open>unfolding equations of the Python monad\<close>
named_theorems safe_intros \<open>an operation returns normally and keeps an invariant of the threaded state\<close>
named_theorems runs_intros \<open>an operation raises at most given exceptions and otherwise keeps an invariant\<close>
named_theorems keeps_intros \<open>an operation keeps an invariant of the threaded state\<close>

section \<open>Exceptions and the state monad\<close>

datatype py_error =
    IndexError
  | KeyError
  | ValueError string
  | AssertionError
  | AttributeError
  | ReError
  | SystemExit int string
  | Diverges

type_synonym 'a result = "py_error + 'a"
type_synonym ('s, 'a) py = "'s \<Rightarrow> ('a \<times> 's) result"

definition ret :: "'a \<Rightarrow> ('s, 'a) py" where
  "ret a = (\<lambda>s. Inr (a, s))"

definition raise :: "py_error \<Rightarrow> ('s, 'a) py" where
  "raise e = (\<lambda>s. Inl e)"

definition andthen :: "('s, 'a) py \<Rightarrow> ('a \<Rightarrow> ('s, 'b) py) \<Rightarrow> ('s, 'b) py" where
  "andthen m f = (\<lambda>s. case m s of Inl e \<Rightarrow> Inl e | Inr (a, s') \<Rightarrow> f a s')"

definition seq :: "('s, unit) py \<Rightarrow> ('s, 'b) py \<Rightarrow> ('s, 'b) py" where
  "seq m n = andthen m (\<lambda>_. n)"

definition lift :: "'a result \<Rightarrow> ('s, 'a) py" where
  "lift r = (\<lambda>s. case r of Inl e \<Rightarrow> Inl e | Inr a \<Rightarrow> Inr (a, s))"

text \<open>\<open>x = e; f(x)\<close> for an expression \<open>e\<close> that may raise but does not touch the state.\<close>

definition let_r :: "'a result \<Rightarrow> ('a \<Rightarrow> ('s, 'b) py) \<Rightarrow> ('s, 'b) py" where
  "let_r r f = andthen (lift r) f"

definition gets :: "('s \<Rightarrow> 'a) \<Rightarrow> ('s, 'a) py" where
  "gets f = (\<lambda>s. Inr (f s, s))"

definition modify :: "('s \<Rightarrow> 's) \<Rightarrow> ('s, unit) py" where
  "modify f = (\<lambda>s. Inr ((), f s))"

definition pass :: "('s, unit) py" where
  "pass = ret ()"

definition do_when :: "bool \<Rightarrow> ('s, unit) py \<Rightarrow> ('s, unit) py" where
  "do_when b m = (if b then m else pass)"

text \<open>A sequence of statements, and a \<open>for\<close> loop without \<open>break\<close>.\<close>

fun block :: "('s, unit) py list \<Rightarrow> ('s, unit) py" where
  "block [] = pass"
| "block (m # ms) = seq m (block ms)"

fun for_each :: "'a list \<Rightarrow> ('a \<Rightarrow> ('s, unit) py) \<Rightarrow> ('s, unit) py" where
  "for_each [] f = pass"
| "for_each (x # xs) f = seq (f x) (for_each xs f)"

lemmas py_defs [py_simps] =
  ret_def raise_def andthen_def seq_def lift_def gets_def modify_def pass_def do_when_def

lemma let_r_simps [simp]: "let_r (Inr a) f = f a" "let_r (Inl e) f = raise e"
  by (simp_all add: let_r_def lift_def andthen_def raise_def)

lemma andthen_ret [simp]: "andthen (ret a) f = f a"
  by (simp add: andthen_def ret_def)

lemma seq_pass [simp]: "seq pass m = m"
  by (simp add: seq_def pass_def)

lemma andthen_assoc: "andthen (andthen m f) g = andthen m (\<lambda>a. andthen (f a) g)"
  by (rule ext) (simp add: andthen_def split: sum.split prod.split)

lemma when_True [simp]: "do_when True m = m" and when_False [simp]: "do_when False m = pass"
  by (simp_all add: do_when_def)

subsection \<open>Bind on results\<close>

definition bind_r :: "'a result \<Rightarrow> ('a \<Rightarrow> 'b result) \<Rightarrow> 'b result" where
  "bind_r r f = (case r of Inl e \<Rightarrow> Inl e | Inr a \<Rightarrow> f a)"

lemma bind_r_simps [simp]: "bind_r (Inr a) f = f a" "bind_r (Inl e) f = Inl e"
  by (simp_all add: bind_r_def)

lemma bind_r_eq_Inr: "bind_r r f = Inr b \<longleftrightarrow> (\<exists>a. r = Inr a \<and> f a = Inr b)"
  by (cases r) simp_all

lemma total_if:
  "(c \<Longrightarrow> \<exists>b. x = Inr b) \<Longrightarrow> (\<not> c \<Longrightarrow> \<exists>b. y = Inr b) \<Longrightarrow> \<exists>b. (if c then x else y) = Inr b"
  by simp

lemma total_Inr: "\<exists>b. Inr a = Inr b"
  by simp

lemma bind_r_cong [fundef_cong]:
  "r = r' \<Longrightarrow> (\<And>a. r' = Inr a \<Longrightarrow> f a = g a) \<Longrightarrow> bind_r r f = bind_r r' g"
  by (cases r') simp_all

lemma let_r_cong [fundef_cong]:
  "r = r' \<Longrightarrow> (\<And>a. r' = Inr a \<Longrightarrow> f a = g a) \<Longrightarrow> let_r r f = let_r r' g"
  by (cases r') simp_all

lemma andthen_cong [fundef_cong]:
  "m = m' \<Longrightarrow> (\<And>a. f a = g a) \<Longrightarrow> andthen m f = andthen m' g"
  by (rule arg_cong2 [where f = andthen]) auto

subsection \<open>Invariants of the threaded state\<close>

text \<open>\<open>keeps I m\<close>: whenever \<open>m\<close> returns normally from a state satisfying \<open>I\<close>, the state it
  leaves satisfies \<open>I\<close>.\<close>

definition keeps :: "('s \<Rightarrow> bool) \<Rightarrow> ('s, 'a) py \<Rightarrow> bool" where
  "keeps I m \<longleftrightarrow> (\<forall>s a s'. I s \<longrightarrow> m s = Inr (a, s') \<longrightarrow> I s')"

lemma keepsI: "(\<And>s a s'. I s \<Longrightarrow> m s = Inr (a, s') \<Longrightarrow> I s') \<Longrightarrow> keeps I m"
  by (auto simp: keeps_def)

lemma keepsD: "keeps I m \<Longrightarrow> I s \<Longrightarrow> m s = Inr (a, s') \<Longrightarrow> I s'"
  by (auto simp: keeps_def)

lemma keeps_ret [keeps_intros]: "keeps I (ret a)"
  by (simp add: keeps_def ret_def)

lemma keeps_raise [keeps_intros]: "keeps I (raise e)"
  by (simp add: keeps_def raise_def)

lemma keeps_pass [keeps_intros]: "keeps I pass"
  by (simp add: pass_def keeps_ret)

lemma keeps_lift [keeps_intros]: "keeps I (lift r)"
  by (auto simp: keeps_def lift_def split: sum.splits)

lemma keeps_let_r [keeps_intros]: "(\<And>a. r = Inr a \<Longrightarrow> keeps I (f a)) \<Longrightarrow> keeps I (let_r r f)"
  by (cases r) (simp_all add: keeps_raise)

lemma keeps_gets [keeps_intros]: "keeps I (gets f)"
  by (simp add: keeps_def gets_def)

lemma keeps_modify: "(\<And>s. I s \<Longrightarrow> I (f s)) \<Longrightarrow> keeps I (modify f)"
  by (simp add: keeps_def modify_def)

lemma keeps_andthen [keeps_intros]:
  assumes "keeps I m" and "\<And>a. keeps I (f a)"
  shows "keeps I (andthen m f)"
proof (rule keepsI)
  fix s b s'
  assume I: "I s" and run: "andthen m f s = Inr (b, s')"
  from run obtain a t where m: "m s = Inr (a, t)" and f: "f a t = Inr (b, s')"
    by (auto simp: andthen_def split: sum.splits prod.splits)
  from assms(1) I m have "I t" by (rule keepsD)
  with assms(2) show "I s'" using f by (rule keepsD)
qed

lemma keeps_seq [keeps_intros]: "keeps I m \<Longrightarrow> keeps I n \<Longrightarrow> keeps I (seq m n)"
  by (simp add: seq_def keeps_andthen)

lemma keeps_when [keeps_intros]: "(b \<Longrightarrow> keeps I m) \<Longrightarrow> keeps I (do_when b m)"
  by (simp add: do_when_def keeps_pass)

lemma keeps_if [keeps_intros]:
  "(b \<Longrightarrow> keeps I m) \<Longrightarrow> (\<not> b \<Longrightarrow> keeps I n) \<Longrightarrow> keeps I (if b then m else n)"
  by simp

lemma keeps_option [keeps_intros]:
  "(x = None \<Longrightarrow> keeps I m) \<Longrightarrow> (\<And>y. x = Some y \<Longrightarrow> keeps I (f y)) \<Longrightarrow>
    keeps I (case x of None \<Rightarrow> m | Some y \<Rightarrow> f y)"
  by (cases x) simp_all

lemma keeps_prod [keeps_intros]:
  "(\<And>a b. p = (a, b) \<Longrightarrow> keeps I (f a b)) \<Longrightarrow> keeps I (case p of (a, b) \<Rightarrow> f a b)"
  by (cases p) simp

lemma keeps_let [keeps_intros]: "keeps I (f x) \<Longrightarrow> keeps I (let y = x in f y)"
  by simp

lemma keeps_for_each [keeps_intros]:
  "(\<And>x. x \<in> set xs \<Longrightarrow> keeps I (f x)) \<Longrightarrow> keeps I (for_each xs f)"
  by (induction xs) (auto intro: keeps_intros)

lemma keeps_block [keeps_intros]: "(\<And>m. m \<in> set ms \<Longrightarrow> keeps I m) \<Longrightarrow> keeps I (block ms)"
  by (induction ms) (auto intro: keeps_intros)

subsection \<open>Statements that cannot raise\<close>

text \<open>\<open>safe I Q m\<close>: from a state satisfying \<open>I\<close>, \<open>m\<close> returns normally, its value satisfies \<open>Q\<close>, and the
  state it leaves satisfies \<open>I\<close> again.\<close>

definition safe :: "('s \<Rightarrow> bool) \<Rightarrow> ('a \<Rightarrow> bool) \<Rightarrow> ('s, 'a) py \<Rightarrow> bool" where
  "safe I Q m \<longleftrightarrow> (\<forall>s. I s \<longrightarrow> (\<exists>a s'. m s = Inr (a, s') \<and> Q a \<and> I s'))"

abbreviation safe_unit :: "('s \<Rightarrow> bool) \<Rightarrow> ('s, unit) py \<Rightarrow> bool" where
  "safe_unit I m \<equiv> safe I (\<lambda>_. True) m"

lemma safeD: "safe I Q m \<Longrightarrow> I s \<Longrightarrow> \<exists>a s'. m s = Inr (a, s') \<and> Q a \<and> I s'"
  by (simp add: safe_def)

lemma safe_ret [safe_intros]: "Q a \<Longrightarrow> safe I Q (ret a)"
  by (simp add: safe_def ret_def)

lemma safe_pass [safe_intros]: "safe_unit I pass"
  by (simp add: pass_def safe_ret)

lemma safe_gets [safe_intros]: "(\<And>s. I s \<Longrightarrow> Q (f s)) \<Longrightarrow> safe I Q (gets f)"
  by (simp add: safe_def gets_def)

lemma safe_modify: "(\<And>s. I s \<Longrightarrow> I (f s)) \<Longrightarrow> safe_unit I (modify f)"
  by (simp add: safe_def modify_def)

lemma safe_weaken: "safe I P m \<Longrightarrow> (\<And>a. P a \<Longrightarrow> Q a) \<Longrightarrow> safe I Q m"
  unfolding safe_def by blast

lemma safe_andthen:
  assumes "safe I P m" and "\<And>a. P a \<Longrightarrow> safe I Q (f a)"
  shows "safe I Q (andthen m f)"
  unfolding safe_def
proof (intro allI impI)
  fix s assume "I s"
  with assms(1) obtain a t where m: "m s = Inr (a, t)" "P a" "I t" by (blast dest: safeD)
  from safeD [OF assms(2) [OF m(2)] m(3)] show "\<exists>b s'. andthen m f s = Inr (b, s') \<and> Q b \<and> I s'"
    using m(1) by (simp add: andthen_def)
qed

lemma safe_seq [safe_intros]: "safe_unit I m \<Longrightarrow> safe I Q n \<Longrightarrow> safe I Q (seq m n)"
  unfolding seq_def by (rule safe_andthen)

lemma safe_let_r: "r = Inr a \<Longrightarrow> safe I Q (f a) \<Longrightarrow> safe I Q (let_r r f)"
  by simp

text \<open>A pure computation that returns, with what is known of its value.\<close>

lemma safe_total: "\<exists>a. r = Inr a \<and> P a \<Longrightarrow> (\<And>a. P a \<Longrightarrow> safe I Q (f a)) \<Longrightarrow> safe I Q (let_r r f)"
  by auto

lemma safe_total_any: "\<exists>a. r = Inr a \<Longrightarrow> (\<And>a. safe I Q (f a)) \<Longrightarrow> safe I Q (let_r r f)"
  by auto

lemma safe_when [safe_intros]: "(b \<Longrightarrow> safe_unit I m) \<Longrightarrow> safe_unit I (do_when b m)"
  by (simp add: do_when_def safe_pass)

lemma safe_if [safe_intros]: "(b \<Longrightarrow> safe I Q m) \<Longrightarrow> (\<not> b \<Longrightarrow> safe I Q n) \<Longrightarrow> safe I Q (if b then m else n)"
  by simp

lemma safe_option [safe_intros]:
  "(x = None \<Longrightarrow> safe I Q m) \<Longrightarrow> (\<And>y. x = Some y \<Longrightarrow> safe I Q (f y)) \<Longrightarrow>
    safe I Q (case x of None \<Rightarrow> m | Some y \<Rightarrow> f y)"
  by (cases x) simp_all

lemma safe_prod [safe_intros]:
  "(\<And>a b. p = (a, b) \<Longrightarrow> safe I Q (f a b)) \<Longrightarrow> safe I Q (case p of (a, b) \<Rightarrow> f a b)"
  by (cases p) simp

lemma safe_list [safe_intros]:
  "(xs = [] \<Longrightarrow> safe I Q m) \<Longrightarrow> (\<And>y ys. xs = y # ys \<Longrightarrow> safe I Q (f y ys)) \<Longrightarrow>
    safe I Q (case xs of [] \<Rightarrow> m | y # ys \<Rightarrow> f y ys)"
  by (cases xs) simp_all

lemma safe_for_each [safe_intros]:
  "(\<And>x. x \<in> set xs \<Longrightarrow> safe_unit I (f x)) \<Longrightarrow> safe_unit I (for_each xs f)"
  by (induction xs) (auto intro: safe_intros)

lemma safe_block [safe_intros]:
  "safe_unit I (block [])"
  "safe_unit I m \<Longrightarrow> safe_unit I (block ms) \<Longrightarrow> safe_unit I (block (m # ms))"
  by (auto intro: safe_intros)

lemma safe_let [safe_intros]: "(\<And>x. x = a \<Longrightarrow> safe I Q (f x)) \<Longrightarrow> safe I Q (let x = a in f x)"
  by (simp add: Let_def)

subsection \<open>Statements that raise only given exceptions\<close>

text \<open>\<open>runs E I Q m\<close>: from a state satisfying \<open>I\<close>, \<open>m\<close> raises an exception of \<open>E\<close> or returns as \<open>safe\<close> has it.\<close>

definition runs :: "py_error set \<Rightarrow> ('s \<Rightarrow> bool) \<Rightarrow> ('a \<Rightarrow> bool) \<Rightarrow> ('s, 'a) py \<Rightarrow> bool" where
  "runs E I Q m \<longleftrightarrow> (\<forall>s. I s \<longrightarrow> (\<exists>e \<in> E. m s = Inl e) \<or> (\<exists>a s'. m s = Inr (a, s') \<and> Q a \<and> I s'))"

lemma runsD: "runs E I Q m \<Longrightarrow> I s \<Longrightarrow> (\<exists>e \<in> E. m s = Inl e) \<or> (\<exists>a s'. m s = Inr (a, s') \<and> Q a \<and> I s')"
  by (simp add: runs_def)

lemma safe_runs: "safe I Q m \<Longrightarrow> runs E I Q m"
  by (auto simp: safe_def runs_def)

lemma runs_none: "runs {} I Q m = safe I Q m"
  by (simp add: safe_def runs_def)

lemma runs_mono: "runs E I Q m \<Longrightarrow> E \<subseteq> F \<Longrightarrow> runs F I Q m"
  unfolding runs_def by blast

lemma runs_weaken: "runs E I P m \<Longrightarrow> (\<And>a. P a \<Longrightarrow> Q a) \<Longrightarrow> runs E I Q m"
  unfolding runs_def by blast

lemma runs_andthen:
  assumes "runs E I P m" and "\<And>a. P a \<Longrightarrow> runs E I Q (f a)"
  shows "runs E I Q (andthen m f)"
  unfolding runs_def
proof (intro allI impI)
  fix s assume "I s"
  from runsD [OF assms(1) this] show "(\<exists>e \<in> E. andthen m f s = Inl e) \<or> (\<exists>b s'. andthen m f s = Inr (b, s') \<and> Q b \<and> I s')"
  proof (elim disjE)
    assume "\<exists>a t. m s = Inr (a, t) \<and> P a \<and> I t"
    then obtain a t where m: "m s = Inr (a, t)" "P a" "I t" by blast
    from runsD [OF assms(2) [OF m(2)] m(3)] show ?thesis using m(1) by (simp add: andthen_def)
  qed (auto simp: andthen_def)
qed

lemma runs_seq [runs_intros]: "runs E I (\<lambda>_. True) m \<Longrightarrow> runs E I Q n \<Longrightarrow> runs E I Q (seq m n)"
  unfolding seq_def by (rule runs_andthen)

lemma runs_raise [runs_intros]: "e \<in> E \<Longrightarrow> runs E I Q (raise e)"
  by (auto simp: runs_def raise_def)

lemma runs_let_r: "(\<And>e. r = Inl e \<Longrightarrow> e \<in> E) \<Longrightarrow> (\<And>a. r = Inr a \<Longrightarrow> runs E I Q (f a)) \<Longrightarrow> runs E I Q (let_r r f)"
  by (cases r) (simp_all add: runs_raise)

lemma runs_if [runs_intros]: "(b \<Longrightarrow> runs E I Q m) \<Longrightarrow> (\<not> b \<Longrightarrow> runs E I Q n) \<Longrightarrow> runs E I Q (if b then m else n)"
  by simp

lemma runs_option [runs_intros]:
  "(x = None \<Longrightarrow> runs E I Q m) \<Longrightarrow> (\<And>y. x = Some y \<Longrightarrow> runs E I Q (f y)) \<Longrightarrow>
    runs E I Q (case x of None \<Rightarrow> m | Some y \<Rightarrow> f y)"
  by (cases x) simp_all

lemma runs_prod [runs_intros]:
  "(\<And>a b. p = (a, b) \<Longrightarrow> runs E I Q (f a b)) \<Longrightarrow> runs E I Q (case p of (a, b) \<Rightarrow> f a b)"
  by (cases p) simp

lemma runs_let [runs_intros]: "(\<And>x. x = a \<Longrightarrow> runs E I Q (f x)) \<Longrightarrow> runs E I Q (let x = a in f x)"
  by (simp add: Let_def)

lemma runs_for_each [runs_intros]:
  "(\<And>x. x \<in> set xs \<Longrightarrow> runs E I (\<lambda>_. True) (f x)) \<Longrightarrow> runs E I (\<lambda>_. True) (for_each xs f)"
  by (induction xs) (auto intro: runs_intros safe_runs safe_pass)

lemma runs_block [runs_intros]:
  "runs E I (\<lambda>_. True) (block [])"
  "runs E I (\<lambda>_. True) m \<Longrightarrow> runs E I (\<lambda>_. True) (block ms) \<Longrightarrow> runs E I (\<lambda>_. True) (block (m # ms))"
  by (auto intro: runs_intros safe_runs safe_pass)

section \<open>Lists\<close>

lemma find_append: "find P (xs @ ys) = (case find P xs of None \<Rightarrow> find P ys | Some x \<Rightarrow> Some x)"
  by (induction xs) auto

lemma find_mem: "find P xs = Some x \<Longrightarrow> x \<in> set xs \<and> P x"
  by (induction xs) (auto split: if_splits)

section \<open>Indexing and slicing\<close>

text \<open>\<open>xs[i]\<close>: a negative index counts from the end, an index out of range raises.\<close>

definition from_start :: "'a list \<Rightarrow> int \<Rightarrow> int" where
  "from_start xs i = (if i < 0 then i + int (length xs) else i)"

definition py_index :: "'a list \<Rightarrow> int \<Rightarrow> 'a result" where
  "py_index xs i =
     (if from_start xs i < 0 \<or> int (length xs) \<le> from_start xs i then Inl IndexError
      else Inr (xs ! nat (from_start xs i)))"

text \<open>\<open>xs[a:b]\<close>: bounds out of range are clipped.\<close>

definition clip :: "'a list \<Rightarrow> int \<Rightarrow> nat" where
  "clip xs i =
     (let n = int (length xs) in nat (if i < 0 then max 0 (n + i) else min i n))"

definition py_slice :: "'a list \<Rightarrow> int \<Rightarrow> int \<Rightarrow> 'a list" where
  "py_slice xs a b = drop (clip xs a) (take (clip xs b) xs)"

definition slice_from :: "'a list \<Rightarrow> int \<Rightarrow> 'a list" where
  "slice_from xs a = drop (clip xs a) xs"

definition slice_to :: "'a list \<Rightarrow> int \<Rightarrow> 'a list" where
  "slice_to xs b = take (clip xs b) xs"

lemma py_index_in_range [simp]:
  "0 \<le> i \<Longrightarrow> i < int (length xs) \<Longrightarrow> py_index xs i = Inr (xs ! nat i)"
  by (simp add: py_index_def from_start_def)

lemma py_index_nat: "i < length xs \<Longrightarrow> py_index xs (int i) = Inr (xs ! i)"
  by simp

lemma py_index_Inr_mem: "py_index xs i = Inr x \<Longrightarrow> x \<in> set xs"
  by (auto simp: py_index_def split: if_splits intro!: nth_mem)

lemma py_index_Inl: "py_index xs i = Inl e \<Longrightarrow> e = IndexError"
  by (auto simp: py_index_def split: if_splits)

lemma clip_le: "clip xs i \<le> length xs"
  by (auto simp: clip_def Let_def)

lemma clip_nat: "clip xs (int n) = min n (length xs)"
  by (auto simp: clip_def Let_def)

lemma slice_from_nat [simp]: "slice_from xs (int n) = drop n xs"
  by (simp add: slice_from_def clip_nat min_def)

lemma slice_to_nat [simp]: "slice_to xs (int n) = take n xs"
  by (simp add: slice_to_def clip_nat min_def)

lemma length_slice_from: "length (slice_from xs i) \<le> length xs"
  by (simp add: slice_from_def)

lemma length_slice_to: "length (slice_to xs i) \<le> length xs"
  by (simp add: slice_to_def clip_le)

lemma py_slice_ends: "py_slice (c # xs @ [d]) 1 (-1) = xs"
  by (simp add: py_slice_def clip_def nat_add_distrib)

section \<open>Characters\<close>

abbreviation nl :: char where "nl \<equiv> CHR 0x0A"
abbreviation cr :: char where "cr \<equiv> CHR 0x0D"
abbreviation tab :: char where "tab \<equiv> CHR 0x09"
abbreviation bslash :: char where "bslash \<equiv> CHR 0x5C"
abbreviation dquote :: char where "dquote \<equiv> CHR 0x22"
abbreviation squote :: char where "squote \<equiv> CHR 0x27"

text \<open>
  A literal of the source with its backslashes: HOL's string syntax has no way to write one, so
  \<open>rx\<close> reads a backquote, a character that no literal of \<open>cpplint.py\<close> contains, as a backslash.
\<close>

definition rx :: "string \<Rightarrow> string" where
  "rx s = map (\<lambda>c. if c = CHR 0x60 then bslash else c) s"

text \<open>Order of characters by code point, bit by bit from the most significant one.\<close>

fun bits_le :: "bool list \<Rightarrow> bool list \<Rightarrow> bool" where
  "bits_le (x # xs) (y # ys) = (if x = y then bits_le xs ys else y)"
| "bits_le _ _ = True"

fun char_le :: "char \<Rightarrow> char \<Rightarrow> bool" where
  "char_le (Char a0 a1 a2 a3 a4 a5 a6 a7) (Char b0 b1 b2 b3 b4 b5 b6 b7) =
     bits_le [a7, a6, a5, a4, a3, a2, a1, a0] [b7, b6, b5, b4, b3, b2, b1, b0]"

definition in_range :: "char \<Rightarrow> char \<times> char \<Rightarrow> bool" where
  "in_range c r \<longleftrightarrow> char_le (fst r) c \<and> char_le c (snd r)"

lemma bits_le_refl: "bits_le xs xs"
  by (induction xs) auto

lemma bits_le_antisym: "length xs = length ys \<Longrightarrow> bits_le xs ys \<Longrightarrow> bits_le ys xs \<Longrightarrow> xs = ys"
  by (induction xs ys rule: bits_le.induct) (auto split: if_splits)

lemma char_le_refl [simp]: "char_le c c"
  by (cases c) (simp add: bits_le_refl)

lemma char_le_antisym: "char_le c d \<Longrightarrow> char_le d c \<Longrightarrow> c = d"
proof (cases c; cases d)
  fix a0 a1 a2 a3 a4 a5 a6 a7 b0 b1 b2 b3 b4 b5 b6 b7
  assume "char_le c d" "char_le d c" and c: "c = Char a0 a1 a2 a3 a4 a5 a6 a7"
    and d: "d = Char b0 b1 b2 b3 b4 b5 b6 b7"
  then have "[a7, a6, a5, a4, a3, a2, a1, a0] = [b7, b6, b5, b4, b3, b2, b1, b0]"
    by (intro bits_le_antisym) (simp_all del: bits_le.simps)
  with c d show "c = d" by simp
qed

lemma in_range_single [simp]: "in_range d (c, c) \<longleftrightarrow> d = c"
  by (auto simp: in_range_def dest: char_le_antisym)

text \<open>\<open>unicode.isspace\<close> and \<open>str.whitespace\<close> on the code points 0 to 255.\<close>

definition uspace :: "char \<Rightarrow> bool" where
  "uspace c \<longleftrightarrow> c = CHR '' '' \<or> in_range c (CHR 0x09, CHR 0x0D)
     \<or> in_range c (CHR 0x1C, CHR 0x1F) \<or> c = CHR 0x85 \<or> c = CHR 0xA0"

definition ascii_space :: "char \<Rightarrow> bool" where
  "ascii_space c \<longleftrightarrow> c = CHR '' '' \<or> in_range c (CHR 0x09, CHR 0x0D)"

definition is_digit :: "char \<Rightarrow> bool" where
  "is_digit c \<longleftrightarrow> in_range c (CHR ''0'', CHR ''9'')"

definition is_word :: "char \<Rightarrow> bool" where
  "is_word c \<longleftrightarrow> in_range c (CHR ''a'', CHR ''z'') \<or> in_range c (CHR ''A'', CHR ''Z'')
     \<or> is_digit c \<or> c = CHR ''_''"

lemma uspace_ascii_space: "ascii_space c \<Longrightarrow> uspace c"
  by (auto simp: uspace_def ascii_space_def)

text \<open>\<open>unicode.upper\<close> and \<open>unicode.lower\<close>: adding or clearing the case bit.\<close>

fun set_case_bit :: "bool \<Rightarrow> char \<Rightarrow> char" where
  "set_case_bit b (Char a0 a1 a2 a3 a4 a5 a6 a7) = Char a0 a1 a2 a3 a4 b a6 a7"

definition lower_char :: "char \<Rightarrow> char" where
  "lower_char c =
     (if in_range c (CHR ''A'', CHR ''Z'') \<or>
         (in_range c (CHR 0xC0, CHR 0xDE) \<and> c \<noteq> CHR 0xD7)
      then set_case_bit True c else c)"

definition lower :: "string \<Rightarrow> string" where
  "lower s = map lower_char s"

text \<open>Upper case of ASCII text (the only text the program converts to upper case).\<close>

definition upper_char :: "char \<Rightarrow> char" where
  "upper_char c = (if in_range c (CHR ''a'', CHR ''z'') then set_case_bit False c else c)"

definition upper :: "string \<Rightarrow> string" where
  "upper s = map upper_char s"

section \<open>String methods\<close>

abbreviation startswith :: "string \<Rightarrow> string \<Rightarrow> bool" where
  "startswith s p \<equiv> prefix p s"

abbreviation endswith :: "string \<Rightarrow> string \<Rightarrow> bool" where
  "endswith s p \<equiv> suffix p s"

definition lstrip :: "string \<Rightarrow> string" where
  "lstrip s = dropWhile uspace s"

definition rstrip :: "string \<Rightarrow> string" where
  "rstrip s = rev (dropWhile uspace (rev s))"

definition strip :: "string \<Rightarrow> string" where
  "strip s = rstrip (lstrip s)"

text \<open>\<open>str.strip\<close> on byte strings, which the command line and the configuration files are.\<close>

definition strip_bytes :: "string \<Rightarrow> string" where
  "strip_bytes s = rev (dropWhile ascii_space (rev (dropWhile ascii_space s)))"

definition lstrip_chars :: "string \<Rightarrow> string \<Rightarrow> string" where
  "lstrip_chars s cs = dropWhile (\<lambda>c. c \<in> set cs) s"

definition rstrip_chars :: "string \<Rightarrow> string \<Rightarrow> string" where
  "rstrip_chars s cs = rev (dropWhile (\<lambda>c. c \<in> set cs) (rev s))"

definition isspace :: "string \<Rightarrow> bool" where
  "isspace s \<longleftrightarrow> s \<noteq> [] \<and> list_all uspace s"

text \<open>\<open>unicode.isdigit\<close> also accepts the superscripts one, two and three.\<close>

definition isdigit :: "string \<Rightarrow> bool" where
  "isdigit s \<longleftrightarrow> s \<noteq> [] \<and> list_all (\<lambda>c. is_digit c \<or> c \<in> {CHR 0xB2, CHR 0xB3, CHR 0xB9}) s"

text \<open>\<open>s.find(sub)\<close>: the least index at which \<open>sub\<close> occurs, -1 if it does not.\<close>

fun find_at :: "string \<Rightarrow> nat \<Rightarrow> string \<Rightarrow> int" where
  "find_at sub i [] = (if sub = [] then int i else -1)"
| "find_at sub i (c # cs) = (if prefix sub (c # cs) then int i else find_at sub (Suc i) cs)"

definition find_str :: "string \<Rightarrow> string \<Rightarrow> int" where
  "find_str s sub = find_at sub 0 s"

text \<open>\<open>s.find(sub, start)\<close>: a negative start counts from the end.\<close>

definition find_from :: "string \<Rightarrow> string \<Rightarrow> int \<Rightarrow> int" where
  "find_from s sub start =
     (let i = (if start < 0 then max 0 (start + int (length s)) else start)
      in if i > int (length s) then -1 else find_at sub (nat i) (drop (nat i) s))"

fun rfind_at :: "string \<Rightarrow> nat \<Rightarrow> string \<Rightarrow> int" where
  "rfind_at sub i [] = (if sub = [] then int i else -1)"
| "rfind_at sub i (c # cs) =
     (let r = rfind_at sub (Suc i) cs
      in if r \<ge> 0 then r else if prefix sub (c # cs) then int i else -1)"

definition rfind :: "string \<Rightarrow> string \<Rightarrow> int" where
  "rfind s sub = rfind_at sub 0 s"

definition contains :: "string \<Rightarrow> string \<Rightarrow> bool" where
  "contains s sub \<longleftrightarrow> find_str s sub \<ge> 0"

lemma find_at_bounds:
  "sub \<noteq> [] \<Longrightarrow> find_at sub i s = -1 \<or> (int i \<le> find_at sub i s \<and> find_at sub i s < int (i + length s))"
  by (induction sub i s rule: find_at.induct) auto

lemma find_str_less: "sub \<noteq> [] \<Longrightarrow> s \<noteq> [] \<or> 0 \<le> find_str s sub \<Longrightarrow> find_str s sub < int (length s)"
  using find_at_bounds [of sub 0 s] by (auto simp: find_str_def)

lemma find_from_bounds:
  "sub \<noteq> [] \<Longrightarrow> find_from s sub i = -1 \<or> (0 \<le> find_from s sub i \<and> find_from s sub i < int (length s))"
proof -
  assume sub: "sub \<noteq> []"
  define j where "j = (if i < 0 then max 0 (i + int (length s)) else i)"
  have "0 \<le> j" by (simp add: j_def)
  with find_at_bounds [OF sub, of "nat j" "drop (nat j) s"] show ?thesis
    unfolding find_from_def j_def [symmetric] Let_def by auto
qed

lemma find_at_char: "find_at [c] i s = -1 \<longleftrightarrow> c \<notin> set s"
  by (induction s arbitrary: i) auto

lemma find_str_char: "0 \<le> find_str s [c] \<longleftrightarrow> c \<in> set s"
  using find_at_bounds [of "[c]" 0 s] find_at_char [of c 0 s] by (auto simp: find_str_def simp del: find_at.simps)

lemma rfind_at_bounds:
  "sub \<noteq> [] \<Longrightarrow> rfind_at sub i s = -1 \<or> (int i \<le> rfind_at sub i s \<and> rfind_at sub i s < int (i + length s))"
  by (induction sub i s rule: rfind_at.induct) (auto simp: Let_def)

lemma rfind_bounds: "sub \<noteq> [] \<Longrightarrow> rfind s sub = -1 \<or> (0 \<le> rfind s sub \<and> rfind s sub < int (length s))"
  using rfind_at_bounds [of sub 0 s] by (simp add: rfind_def)

text \<open>\<open>count\<close>, \<open>replace\<close> and \<open>split\<close> take non-overlapping occurrences from the left; the program
  only calls them with a non-empty substring.\<close>

fun count_str :: "string \<Rightarrow> string \<Rightarrow> int" where
  "count_str [] sub = 0"
| "count_str (c # cs) sub =
     (if sub \<noteq> [] \<and> prefix sub (c # cs) then 1 + count_str (drop (length sub - 1) cs) sub
      else count_str cs sub)"

lemma count_str_nonneg: "0 \<le> count_str s sub"
  by (induction s sub rule: count_str.induct) simp_all

lemma count_str_absent: "c \<notin> set s \<Longrightarrow> count_str s [c] = 0"
  by (induction s) auto

fun replace_str :: "string \<Rightarrow> string \<Rightarrow> string \<Rightarrow> string" where
  "replace_str [] old new = []"
| "replace_str (c # cs) old new =
     (if old \<noteq> [] \<and> prefix old (c # cs)
      then new @ replace_str (drop (length old - 1) cs) old new
      else c # replace_str cs old new)"

fun split_acc :: "string \<Rightarrow> string \<Rightarrow> string \<Rightarrow> string list" where
  "split_acc [] sep acc = [rev acc]"
| "split_acc (c # cs) sep acc =
     (if sep \<noteq> [] \<and> prefix sep (c # cs)
      then rev acc # split_acc (drop (length sep - 1) cs) sep []
      else split_acc cs sep (c # acc))"

definition split_str :: "string \<Rightarrow> string \<Rightarrow> string list" where
  "split_str s sep = split_acc s sep []"

text \<open>\<open>s.split()\<close>: the maximal runs of non-space characters.\<close>

fun words_acc :: "string \<Rightarrow> string \<Rightarrow> string list" where
  "words_acc [] acc = (if acc = [] then [] else [rev acc])"
| "words_acc (c # cs) acc =
     (if uspace c then (if acc = [] then words_acc cs [] else rev acc # words_acc cs [])
      else words_acc cs (c # acc))"

definition words :: "string \<Rightarrow> string list" where
  "words s = words_acc s []"

definition join :: "string \<Rightarrow> string list \<Rightarrow> string" where
  "join sep xs = (case xs of [] \<Rightarrow> [] | y # ys \<Rightarrow> y @ concat (map (\<lambda>z. sep @ z) ys))"

text \<open>A message assembled from its parts (kept as a constant, so that proofs do not unfold it).\<close>

definition msg_of :: "string list \<Rightarrow> string" where
  "msg_of parts = concat parts"

text \<open>\<open>s.partition(sep)\<close>: the text before and after the first separator.\<close>

definition partition_str :: "string \<Rightarrow> string \<Rightarrow> string \<times> string" where
  "partition_str s sep =
     (let i = find_str s sep
      in if i < 0 then (s, []) else (take (nat i) s, drop (nat i + length sep) s))"

text \<open>\<open>%d\<close> on an integer.\<close>

definition digit_char :: "nat \<Rightarrow> char" where
  "digit_char d = ''0123456789'' ! (d mod 10)"

fun show_nat :: "nat \<Rightarrow> string" where
  "show_nat n = (if n < 10 then [digit_char n] else show_nat (n div 10) @ [digit_char (n mod 10)])"

declare show_nat.simps [simp del]

definition show_int :: "int \<Rightarrow> string" where
  "show_int i = (if i < 0 then CHR ''-'' # show_nat (nat (- i)) else show_nat (nat i))"

text \<open>\<open>int(s)\<close> on a byte string: spaces around and after the sign are skipped; \<open>None\<close> stands for
  \<open>ValueError\<close>.\<close>

definition digit_value :: "char \<Rightarrow> int" where
  "digit_value c = of_char c - 48"

definition read_digits :: "string \<Rightarrow> int option" where
  "read_digits s =
     (if s \<noteq> [] \<and> list_all is_digit s then Some (foldl (\<lambda>n c. 10 * n + digit_value c) 0 s) else None)"

definition py_int :: "string \<Rightarrow> int option" where
  "py_int s =
     (case strip_bytes s of
        [] \<Rightarrow> None
      | c # cs \<Rightarrow>
          if c = CHR ''-'' then map_option uminus (read_digits (dropWhile ascii_space cs))
          else if c = CHR ''+'' then read_digits (dropWhile ascii_space cs)
          else read_digits (c # cs))"

lemma digit_char_facts:
  assumes "d < 10"
  shows "is_digit (digit_char d)" "digit_value (digit_char d) = int d" "\<not> ascii_space (digit_char d)"
    "digit_char d \<noteq> CHR ''-''" "digit_char d \<noteq> CHR ''+''"
proof -
  have all: "list_all (\<lambda>d. is_digit (digit_char d) \<and> digit_value (digit_char d) = int d \<and> \<not> ascii_space (digit_char d)
      \<and> digit_char d \<noteq> CHR ''-'' \<and> digit_char d \<noteq> CHR ''+'') [0..<10]" by code_simp
  have "d \<in> set [0..<10]" using assms by simp
  with all show "is_digit (digit_char d)" "digit_value (digit_char d) = int d" "\<not> ascii_space (digit_char d)"
    "digit_char d \<noteq> CHR ''-''" "digit_char d \<noteq> CHR ''+''" unfolding list_all_iff by blast+
qed

lemma show_nat_digits:
  "show_nat n \<noteq> [] \<and> list_all is_digit (show_nat n) \<and> list_all (\<lambda>c. \<not> ascii_space c) (show_nat n)
    \<and> hd (show_nat n) \<notin> {CHR ''-'', CHR ''+''} \<and> foldl (\<lambda>n c. 10 * n + digit_value c) 0 (show_nat n) = int n"
proof (induction n rule: less_induct)
  case (less n)
  show ?case
  proof (cases "n < 10")
    case True
    with digit_char_facts [OF True] show ?thesis by (subst (1 2 3 4 5) show_nat.simps) simp
  next
    case False
    note IH = less.IH [of "n div 10"]
    from False have "n mod 10 < 10" by simp
    note d = digit_char_facts [OF this]
    have n: "show_nat n = show_nat (n div 10) @ [digit_char (n mod 10)]" using False by (subst show_nat.simps) simp
    have "10 * int (n div 10) + int (n mod 10) = int n" by (metis mult_div_mod_eq of_nat_add of_nat_mult of_nat_numeral)
    with False IH d show ?thesis unfolding n by simp
  qed
qed

lemma strip_bytes_id: "list_all (\<lambda>c. \<not> ascii_space c) s \<Longrightarrow> strip_bytes s = s"
proof -
  have id: "list_all (\<lambda>c. \<not> ascii_space c) t \<Longrightarrow> dropWhile ascii_space t = t" for t by (cases t) simp_all
  show "list_all (\<lambda>c. \<not> ascii_space c) s \<Longrightarrow> strip_bytes s = s" by (simp add: strip_bytes_def id)
qed

lemma py_int_show_int: "py_int (show_int i) = Some i"
proof -
  have nat: "read_digits (show_nat n) = Some (int n)" "dropWhile ascii_space (show_nat n) = show_nat n"
    "strip_bytes (show_nat n) = show_nat n" for n
    using show_nat_digits [of n] by (cases "show_nat n"; auto simp: read_digits_def strip_bytes_id)+
  have "\<not> ascii_space (CHR ''-'')" by code_simp
  then have neg: "strip_bytes (CHR ''-'' # show_nat n) = CHR ''-'' # show_nat n" for n
    using show_nat_digits [of n] by (simp add: strip_bytes_id)
  show ?thesis
  proof (cases "i < 0")
    case True
    with neg nat show ?thesis by (simp add: py_int_def show_int_def)
  next
    case False
    then obtain c cs where c: "show_nat (nat i) = c # cs" "c \<noteq> CHR ''-''" "c \<noteq> CHR ''+''"
      using show_nat_digits [of "nat i"] by (cases "show_nat (nat i)") auto
    with False nat(1,3) [of "nat i"] show ?thesis by (simp add: py_int_def show_int_def)
  qed
qed

text \<open>Lists that a loop or a search sees through the same features.\<close>

lemma for_each_cong_map: "map f xs = map f ys \<Longrightarrow> (\<And>x y. f x = f y \<Longrightarrow> g x = g y) \<Longrightarrow> for_each xs g = for_each ys g"
proof (induction xs arbitrary: ys)
  case (Cons x xs)
  from Cons.prems(1) obtain y zs where ys: "ys = y # zs" "f x = f y" "map f xs = map f zs" by auto
  have "for_each xs g = for_each zs g" by (rule Cons.IH [OF ys(3) Cons.prems(2)])
  then show ?case by (simp only: ys(1) for_each.simps Cons.prems(2) [OF ys(2)])
qed simp

lemma list_ex_slice_cong:
  "map P xs = map P ys \<Longrightarrow> list_ex P (py_slice xs a b) = list_ex P (py_slice ys a b)"
proof -
  assume eq: "map P xs = map P ys"
  have "clip xs n = clip ys n" for n using map_eq_imp_length_eq [OF eq] by (simp add: clip_def)
  moreover have "list_ex P zs = list_ex id (map P zs)" for zs by (induction zs) auto
  ultimately show ?thesis using eq by (simp add: py_slice_def drop_map [symmetric] take_map [symmetric])
qed

end
