(* ===== verification/Py_Regex.thy ===== *)
theory Py_Regex
  imports Py_Base
begin

text \<open>
  Python's \<open>re\<close> module, as far as \<open>cpplint.py\<close> uses it: the abstract syntax of a compiled
  pattern, the backtracking matcher with its priorities (greedy and lazy repetition, ordered
  alternation), groups, back references and lookahead, and the entry points \<open>match\<close>, \<open>search\<close>,
  \<open>finditer\<close>, \<open>findall\<close>, \<open>sub\<close> and \<open>split\<close>.  The matcher \<open>mt\<close> is written with a continuation, so
  that it stops at the first success as the engine does; \<open>ml\<close> lists all successes in priority
  order, and \<open>mt_ml\<close> shows that \<open>mt\<close> finds the first of them.  Repetition is bounded by fuel; \<open>rep_fuel\<close>
  shows that the fuel \<open>mt\<close> starts with is enough, by the engine's own zero-width protection.
\<close>

section \<open>Patterns and match states\<close>

datatype regex =
    REmpty
  | RChar char
  | RSet bool "(char \<times> char) list"   \<comment> \<open>negated?, ranges\<close>
  | RAny
  | RBol
  | REol
  | RWordB
  | RSeq regex regex
  | RAlt regex regex
  | RRep bool nat "nat option" regex  \<comment> \<open>greedy?, min, max\<close>
  | RGroup nat regex
  | RBack nat
  | RLook bool regex                  \<comment> \<open>\<open>(?=r)\<close> or \<open>(?!r)\<close>\<close>

text \<open>A position in the subject: the text before it (reversed), the text after it, and the
  groups closed so far, each with its start and its text, the latest first.\<close>

datatype mst = MSt (before: string) (after: string) (caps: "(nat \<times> nat \<times> string) list")

definition in_set :: "bool \<Rightarrow> (char \<times> char) list \<Rightarrow> char \<Rightarrow> bool" where
  "in_set neg rs c \<longleftrightarrow> neg \<noteq> list_ex (in_range c) rs"

definition word_before :: "mst \<Rightarrow> bool" where
  "word_before st = (case before st of [] \<Rightarrow> False | c # _ \<Rightarrow> is_word c)"

definition word_after :: "mst \<Rightarrow> bool" where
  "word_after st = (case after st of [] \<Rightarrow> False | c # _ \<Rightarrow> is_word c)"

definition step_char :: "(char \<Rightarrow> bool) \<Rightarrow> mst \<Rightarrow> mst option" where
  "step_char P st =
     (case after st of
        [] \<Rightarrow> None
      | c # cs \<Rightarrow> if P c then Some (MSt (c # before st) cs (caps st)) else None)"

definition close_group :: "nat \<Rightarrow> mst \<Rightarrow> mst \<Rightarrow> mst" where
  "close_group n st st' =
     MSt (before st') (after st')
       ((n, length (before st), take (length (after st) - length (after st')) (after st)) # caps st')"

definition step_back :: "nat \<Rightarrow> mst \<Rightarrow> mst option" where
  "step_back n st =
     (case map_of (caps st) n of
        None \<Rightarrow> None
      | Some (_, t) \<Rightarrow>
          if prefix t (after st)
          then Some (MSt (rev t @ before st) (drop (length t) (after st)) (caps st)) else None)"

definition or_else :: "'a option \<Rightarrow> 'a option \<Rightarrow> 'a option" where
  "or_else x y = (case x of None \<Rightarrow> y | Some _ \<Rightarrow> x)"

section \<open>The matcher\<close>

type_synonym cont = "mst \<Rightarrow> mst option"

definition dec_max :: "nat option \<Rightarrow> nat option" where
  "dec_max mx = map_option (\<lambda>n. n - 1) mx"

text \<open>
  Repetition (\<open>MAX_UNTIL\<close> and \<open>MIN_UNTIL\<close> of the engine): below the minimum the item must match;
  above it, another item is tried unless the maximum is reached or the last optional item
  started at this very position (\<open>lst\<close>, measured by the length of the text after it).
\<close>

primrec rep :: "(mst \<Rightarrow> cont \<Rightarrow> mst option) \<Rightarrow> bool \<Rightarrow> nat \<Rightarrow> nat \<Rightarrow> nat option \<Rightarrow> nat option
    \<Rightarrow> mst \<Rightarrow> cont \<Rightarrow> mst option" where
  "rep f g 0 mn mx lst st k = None"
| "rep f g (Suc n) mn mx lst st k =
     (if 0 < mn then f st (\<lambda>st'. rep f g n (mn - 1) (dec_max mx) lst st' k)
      else if mx = Some 0 \<or> lst = Some (length (after st)) then k st
      else if g
        then or_else (f st (\<lambda>st'. rep f g n 0 (dec_max mx) (Some (length (after st))) st' k)) (k st)
        else or_else (k st) (f st (\<lambda>st'. rep f g n 0 (dec_max mx) (Some (length (after st))) st' k)))"

primrec mt :: "regex \<Rightarrow> mst \<Rightarrow> cont \<Rightarrow> mst option" where
  "mt REmpty st k = k st"
| "mt (RChar c) st k = (case step_char (\<lambda>d. d = c) st of None \<Rightarrow> None | Some st' \<Rightarrow> k st')"
| "mt (RSet neg rs) st k = (case step_char (in_set neg rs) st of None \<Rightarrow> None | Some st' \<Rightarrow> k st')"
| "mt RAny st k = (case step_char (\<lambda>d. d \<noteq> nl) st of None \<Rightarrow> None | Some st' \<Rightarrow> k st')"
| "mt RBol st k = (if before st = [] then k st else None)"
| "mt REol st k = (if after st = [] \<or> after st = [nl] then k st else None)"
| "mt RWordB st k = (if word_before st \<noteq> word_after st then k st else None)"
| "mt (RSeq a b) st k = mt a st (\<lambda>st'. mt b st' k)"
| "mt (RAlt a b) st k = or_else (mt a st k) (mt b st k)"
| "mt (RRep g mn mx a) st k = rep (mt a) g (mn + length (after st) + 2) mn mx None st k"
| "mt (RGroup n a) st k = mt a st (\<lambda>st'. k (close_group n st st'))"
| "mt (RBack n) st k = (case step_back n st of None \<Rightarrow> None | Some st' \<Rightarrow> k st')"
| "mt (RLook pos a) st k =
     (case mt a st Some of
        None \<Rightarrow> if pos then None else k st
      | Some st' \<Rightarrow> if pos then k (MSt (before st) (after st) (caps st')) else None)"

section \<open>All successes in priority order\<close>

definition opt_list :: "'a option \<Rightarrow> 'a list" where
  "opt_list x = (case x of None \<Rightarrow> [] | Some y \<Rightarrow> [y])"

primrec repl :: "(mst \<Rightarrow> mst list) \<Rightarrow> bool \<Rightarrow> nat \<Rightarrow> nat \<Rightarrow> nat option \<Rightarrow> nat option
    \<Rightarrow> mst \<Rightarrow> mst list" where
  "repl f g 0 mn mx lst st = []"
| "repl f g (Suc n) mn mx lst st =
     (if 0 < mn then concat (map (repl f g n (mn - 1) (dec_max mx) lst) (f st))
      else if mx = Some 0 \<or> lst = Some (length (after st)) then [st]
      else if g
        then concat (map (repl f g n 0 (dec_max mx) (Some (length (after st)))) (f st)) @ [st]
        else st # concat (map (repl f g n 0 (dec_max mx) (Some (length (after st)))) (f st)))"

primrec ml :: "regex \<Rightarrow> mst \<Rightarrow> mst list" where
  "ml REmpty st = [st]"
| "ml (RChar c) st = opt_list (step_char (\<lambda>d. d = c) st)"
| "ml (RSet neg rs) st = opt_list (step_char (in_set neg rs) st)"
| "ml RAny st = opt_list (step_char (\<lambda>d. d \<noteq> nl) st)"
| "ml RBol st = (if before st = [] then [st] else [])"
| "ml REol st = (if after st = [] \<or> after st = [nl] then [st] else [])"
| "ml RWordB st = (if word_before st \<noteq> word_after st then [st] else [])"
| "ml (RSeq a b) st = concat (map (ml b) (ml a st))"
| "ml (RAlt a b) st = ml a st @ ml b st"
| "ml (RRep g mn mx a) st = repl (ml a) g (mn + length (after st) + 2) mn mx None st"
| "ml (RGroup n a) st = map (close_group n st) (ml a st)"
| "ml (RBack n) st = opt_list (step_back n st)"
| "ml (RLook pos a) st =
     (case ml a st of
        [] \<Rightarrow> if pos then [] else [st]
      | st' # _ \<Rightarrow> if pos then [MSt (before st) (after st) (caps st')] else [])"

primrec first_some :: "('a \<Rightarrow> 'b option) \<Rightarrow> 'a list \<Rightarrow> 'b option" where
  "first_some k [] = None"
| "first_some k (x # xs) = or_else (k x) (first_some k xs)"

lemma or_else_simps [simp]:
  "or_else None y = y" "or_else (Some a) y = Some a" "or_else y None = y"
  by (simp_all add: or_else_def option.case_eq_if)

lemma or_else_assoc: "or_else (or_else x y) z = or_else x (or_else y z)"
  by (cases x) simp_all

lemma first_some_append: "first_some k (xs @ ys) = or_else (first_some k xs) (first_some k ys)"
  by (induction xs) (simp_all add: or_else_assoc)

lemma first_some_concat:
  "first_some k (concat (map f xs)) = first_some (\<lambda>x. first_some k (f x)) xs"
  by (induction xs) (simp_all add: first_some_append)

lemma first_some_map: "first_some k (map f xs) = first_some (\<lambda>x. k (f x)) xs"
  by (induction xs) simp_all

lemma first_some_opt_list: "first_some k (opt_list x) = (case x of None \<Rightarrow> None | Some y \<Rightarrow> k y)"
  by (simp add: opt_list_def split: option.split)

lemma first_some_Some: "first_some Some xs = (case xs of [] \<Rightarrow> None | x # _ \<Rightarrow> Some x)"
  by (simp split: list.split)

lemma rep_repl:
  assumes "\<And>st k. f st k = first_some k (l st)"
  shows "rep f g n mn mx lst st k = first_some k (repl l g n mn mx lst st)"
  by (cases g; induction n arbitrary: mn mx lst st)
    (simp_all add: assms first_some_append first_some_concat)

text \<open>The engine's answer is the first success.\<close>

theorem mt_ml: "mt r st k = first_some k (ml r st)"
proof (induction r arbitrary: st k)
  case (RRep g mn mx a)
  then have "rep (mt a) g n mn mx None st k = first_some k (repl (ml a) g n mn mx None st)" for n
    by (rule rep_repl)
  then show ?case by (simp only: mt.simps ml.simps)
qed (simp_all add: first_some_opt_list first_some_append first_some_concat first_some_map
       first_some_Some split: list.split option.split)

section \<open>What a success looks like\<close>

text \<open>A match state belongs to a subject; matching moves forward in it.\<close>

definition subject :: "mst \<Rightarrow> string" where
  "subject st = rev (before st) @ after st"

definition moves :: "mst \<Rightarrow> mst \<Rightarrow> bool" where
  "moves st st' \<longleftrightarrow> (\<exists>t. after st = t @ after st' \<and> before st' = rev t @ before st)"

lemma moves_refl [simp]: "moves st st"
  by (simp add: moves_def)

lemma moves_trans [trans]: "moves a b \<Longrightarrow> moves b c \<Longrightarrow> moves a c"
  unfolding moves_def by (elim exE conjE) (rule exI, auto)

lemma moves_subject: "moves st st' \<Longrightarrow> subject st' = subject st"
  by (auto simp: moves_def subject_def)

lemma moves_length: "moves st st' \<Longrightarrow> length (after st') \<le> length (after st)"
  by (auto simp: moves_def)

lemma moves_lengths:
  "moves st st' \<Longrightarrow> length (before st') + length (after st') = length (before st) + length (after st)"
  by (auto simp: moves_def)

lemma moves_MSt_iff:
  "moves st (MSt b a c) \<longleftrightarrow> (\<exists>t. after st = t @ a \<and> b = rev t @ before st)"
  by (simp add: moves_def)

lemma set_opt_list [simp]: "x \<in> set (opt_list y) \<longleftrightarrow> y = Some x"
  by (auto simp: opt_list_def split: option.splits)

lemma step_char_Some:
  "step_char P st = Some st' \<longleftrightarrow>
     (\<exists>c cs. after st = c # cs \<and> P c \<and> st' = MSt (c # before st) cs (caps st))"
  by (auto simp: step_char_def split: list.splits if_splits)

lemma step_back_Some:
  "step_back n st = Some st' \<longleftrightarrow>
     (\<exists>i t cs. map_of (caps st) n = Some (i, t) \<and> after st = t @ cs
        \<and> st' = MSt (rev t @ before st) cs (caps st))"
  by (auto simp: step_back_def prefix_def split: option.splits if_splits)

lemma repl_moves:
  assumes "\<And>st st'. st' \<in> set (l st) \<Longrightarrow> moves st st'"
  shows "st' \<in> set (repl l g n mn mx lst st) \<Longrightarrow> moves st st'"
proof (induction n arbitrary: mn mx lst st)
  case (Suc n)
  then show ?case
    by (auto split: if_splits intro: moves_trans assms)
qed simp

lemma ml_moves: "st' \<in> set (ml r st) \<Longrightarrow> moves st st'"
proof (induction r arbitrary: st st')
  case (RRep g mn mx a)
  from RRep.prems show ?case
    unfolding ml.simps by (rule repl_moves [rotated]) (rule RRep.IH)
next
  case (RSeq a b)
  from RSeq.prems obtain u where "u \<in> set (ml a st)" "st' \<in> set (ml b u)" by auto
  with RSeq.IH show ?case by (blast intro: moves_trans)
next
  case (RLook p a)
  then show ?case by (auto simp: moves_def split: list.splits if_splits)
qed (auto simp: step_char_Some step_back_Some close_group_def moves_def split: if_splits)

lemma ml_length: "st' \<in> set (ml r st) \<Longrightarrow> length (after st') \<le> length (after st)"
  by (rule moves_length [OF ml_moves])

text \<open>The fuel is enough: any two amounts above the bound give the same successes.\<close>

definition rep_measure :: "nat \<Rightarrow> nat option \<Rightarrow> mst \<Rightarrow> nat" where
  "rep_measure mn lst st =
     mn + length (after st) + (if lst = Some (length (after st)) then 1 else 2)"

lemma rep_fuel:
  assumes mono: "\<And>st st'. st' \<in> set (l st) \<Longrightarrow> length (after st') \<le> length (after st)"
    and lst: "\<And>k. lst = Some k \<Longrightarrow> length (after st) \<le> k"
    and "rep_measure mn lst st \<le> n" and "rep_measure mn lst st \<le> m"
  shows "repl l g n mn mx lst st = repl l g m mn mx lst st"
  using assms(2-)
proof (induction n arbitrary: m mn mx lst st)
  case 0
  then show ?case by (simp add: rep_measure_def split: if_splits)
next
  case (Suc n)
  from Suc.prems obtain m' where m: "m = Suc m'"
    by (cases m) (simp_all add: rep_measure_def split: if_splits)
  have below: "repl l g n (mn - 1) (dec_max mx) lst st' = repl l g m' (mn - 1) (dec_max mx) lst st'"
    if "0 < mn" "st' \<in> set (l st)" for st'
    using Suc.prems m mono [OF that(2)] that(1)
    by (intro Suc.IH) (force simp: rep_measure_def split: if_splits)+
  have above: "repl l g n 0 (dec_max mx) (Some (length (after st))) st' =
      repl l g m' 0 (dec_max mx) (Some (length (after st))) st'"
    if "mn = 0" "lst \<noteq> Some (length (after st))" "st' \<in> set (l st)" for st'
    using Suc.prems m mono [OF that(3)] that(1,2)
    by (intro Suc.IH) (auto simp: rep_measure_def split: if_splits)
  show ?case
  proof (cases "0 < mn")
    case True
    then have "map (repl l g n (mn - 1) (dec_max mx) lst) (l st) =
        map (repl l g m' (mn - 1) (dec_max mx) lst) (l st)"
      by (intro map_cong refl below)
    with True m show ?thesis by (simp del: map_eq_conv)
  next
    case False
    then have "map (repl l g n 0 (dec_max mx) (Some (length (after st)))) (l st) =
        map (repl l g m' 0 (dec_max mx) (Some (length (after st)))) (l st)"
      if "lst \<noteq> Some (length (after st))"
      using that by (intro map_cong refl above) auto
    with False m show ?thesis by (cases g) (auto simp del: map_eq_conv)
  qed
qed

section \<open>Repeating a single-character pattern\<close>

declare mt.simps(10) [simp del] ml.simps(10) [simp del]

definition adv :: "nat \<Rightarrow> mst \<Rightarrow> mst" where
  "adv n st = MSt (rev (take n (after st)) @ before st) (drop n (after st)) (caps st)"

definition in_order :: "bool \<Rightarrow> 'a list \<Rightarrow> 'a list" where
  "in_order greedy xs = (if greedy then rev xs else xs)"

lemma adv_simps [simp]:
  "before (adv n st) = rev (take n (after st)) @ before st"
  "after (adv n st) = drop n (after st)" "caps (adv n st) = caps st"
  by (simp_all add: adv_def)

lemma adv_0 [simp]: "adv 0 st = st"
  by (simp add: adv_def)

lemma adv_Suc: "after st = c # cs \<Longrightarrow> adv n (MSt (c # before st) cs (caps st)) = adv (Suc n) st"
  by (simp add: adv_def)

lemma in_order_map: "map f (in_order g xs) = in_order g (map f xs)"
  by (simp add: in_order_def rev_map)

lemma repl_chars:
  assumes char: "\<And>st. l st = opt_list (step_char P st)"
    and "\<And>j. lst = Some j \<Longrightarrow> length (after st) < j" and "mn + length (after st) + 1 < n"
  shows "repl l g n mn None lst st =
    map (\<lambda>i. adv i st) (in_order g [mn..<Suc (length (takeWhile P (after st)))])"
  using assms(2-)
proof (induction n arbitrary: mn lst st)
  case (Suc n)
  show ?case
  proof (cases "\<exists>c cs. after st = c # cs \<and> P c")
    case False
    then have "l st = []"
      by (auto simp: char step_char_def opt_list_def split: list.splits)
    moreover from False have "takeWhile P (after st) = []"
      by (cases "after st") auto
    ultimately show ?thesis
      using Suc.prems(1) by (cases mn) (auto simp: in_order_def)
  next
    case True
    then obtain c cs where st: "after st = c # cs" "P c" by blast
    let ?st = "MSt (c # before st) cs (caps st)"
    from st have l: "l st = [?st]"
      by (simp add: char step_char_def opt_list_def)
    have IH: "repl l g n m None lst' ?st =
        map (\<lambda>i. adv i st) (in_order g [Suc m..<Suc (length (takeWhile P (after st)))])"
      if "\<And>j. lst' = Some j \<Longrightarrow> length cs < j" "m + length cs + 1 < n" for m lst'
    proof -
      have "repl l g n m None lst' ?st =
          map (\<lambda>i. adv (Suc i) st) (in_order g [m..<Suc (length (takeWhile P cs))])"
        using that by (subst Suc.IH) (auto simp: adv_Suc [OF st(1)])
      also have "\<dots> = map (\<lambda>i. adv i st) (in_order g (map Suc [m..<Suc (length (takeWhile P cs))]))"
        by (simp add: in_order_map [symmetric])
      finally show ?thesis using st by (simp only: map_Suc_upt) simp
    qed
    show ?thesis
    proof (cases mn)
      case 0
      have "repl l g n 0 None (Some (length (after st))) ?st =
        map (\<lambda>i. adv i st) (in_order g [Suc 0..<Suc (length (takeWhile P (after st)))])"
        using Suc.prems st 0 by (intro IH) auto
      moreover have "[0..<Suc (length (takeWhile P (after st)))] =
          0 # [Suc 0..<Suc (length (takeWhile P (after st)))]"
        by (rule upt_conv_Cons) simp
      ultimately show ?thesis
        using 0 Suc.prems(1) l by (auto simp: dec_max_def in_order_def simp del: upt_Suc)
    next
      case (Suc m)
      have "repl l g n m None lst ?st =
        map (\<lambda>i. adv i st) (in_order g [Suc m..<Suc (length (takeWhile P (after st)))])"
        using Suc.prems st Suc by (intro IH) (auto dest: Suc.prems(1))
      then show ?thesis using Suc l by (simp add: dec_max_def)
    qed
  qed
qed simp

text \<open>The successes of \<open>r*\<close>, \<open>r+\<close>, \<open>r*?\<close> and \<open>r+?\<close> for a single-character \<open>r\<close>, in order.\<close>

lemma ml_rep_chars:
  assumes "\<And>st. ml r st = opt_list (step_char P st)"
  shows "ml (RRep g mn None r) st =
    map (\<lambda>i. adv i st) (in_order g [mn..<Suc (length (takeWhile P (after st)))])"
  unfolding ml.simps by (rule repl_chars) (auto simp: assms)

lemma take_takeWhile: "list_all P (take i xs) \<Longrightarrow> i \<le> length xs \<Longrightarrow> i \<le> length (takeWhile P xs)"
proof (induction xs arbitrary: i)
  case (Cons x xs)
  then show ?case by (cases i) auto
qed simp

lemma list_all_take_takeWhile: "i \<le> length (takeWhile P xs) \<Longrightarrow> list_all P (take i xs)"
  by (induction xs arbitrary: i) (auto simp: take_Cons' split: if_splits)

lemma mem_rep_chars:
  assumes "\<And>st. ml r st = opt_list (step_char P st)"
  shows "st' \<in> set (ml (RRep g mn None r) st) \<longleftrightarrow>
    (\<exists>u v. after st = u @ v \<and> list_all P u \<and> mn \<le> length u \<and> st' = MSt (rev u @ before st) v (caps st))"
    (is "?l \<longleftrightarrow> ?r")
proof
  assume ?l
  then obtain i where "mn \<le> i" "i \<le> length (takeWhile P (after st))" "st' = adv i st"
    unfolding ml_rep_chars [OF assms] by (auto simp: in_order_def split: if_splits)
  then show ?r
    by (intro exI [of _ "take i (after st)"] exI [of _ "drop i (after st)"])
      (auto simp: adv_def list_all_take_takeWhile dest: le_trans [OF _ length_takeWhile_le])
next
  assume ?r
  then obtain u v where u: "after st = u @ v" "list_all P u" "mn \<le> length u"
      "st' = MSt (rev u @ before st) v (caps st)" by blast
  then have "st' = adv (length u) st" "length u \<le> length (takeWhile P (after st))"
    by (auto simp: adv_def intro: take_takeWhile)
  with u(3) show ?l
    unfolding ml_rep_chars [OF assms] in_order_def
    by (auto simp del: upt_Suc simp: less_Suc_eq_le)
qed

text \<open>Membership in the successes of the common repetitions, and the text of a group.\<close>

lemma mem_rep_any:
  "st' \<in> set (ml (RRep g mn None RAny) st) \<longleftrightarrow>
    (\<exists>u v. after st = u @ v \<and> list_all (\<lambda>d. d \<noteq> nl) u \<and> mn \<le> length u \<and> st' = MSt (rev u @ before st) v (caps st))"
  by (rule mem_rep_chars) simp

lemma mem_rep_set:
  "st' \<in> set (ml (RRep g mn None (RSet neg rs)) st) \<longleftrightarrow>
    (\<exists>u v. after st = u @ v \<and> list_all (in_set neg rs) u \<and> mn \<le> length u \<and> st' = MSt (rev u @ before st) v (caps st))"
  by (rule mem_rep_chars) simp

lemma mem_rep_char:
  "st' \<in> set (ml (RRep g mn None (RChar c)) st) \<longleftrightarrow>
    (\<exists>u v. after st = u @ v \<and> list_all (\<lambda>d. d = c) u \<and> mn \<le> length u \<and> st' = MSt (rev u @ before st) v (caps st))"
  by (rule mem_rep_chars) simp

lemma close_group_append [simp]:
  "close_group n (MSt b (u @ v) k) (MSt b' v k') = MSt b' v ((n, length b, u) # k')"
  "close_group n (MSt b u k) (MSt b' [] k') = MSt b' [] ((n, length b, u) # k')"
  by (simp_all add: close_group_def)

lemma mem_seq: "st' \<in> set (ml (RSeq a b) st) \<longleftrightarrow> (\<exists>u. u \<in> set (ml a st) \<and> st' \<in> set (ml b u))"
  by auto

lemma mem_group_rep_chars:
  assumes "\<And>st. ml r st = opt_list (step_char P st)"
  shows "st' \<in> set (ml (RGroup n (RRep g mn None r)) (MSt p s k)) \<longleftrightarrow>
    (\<exists>u v. s = u @ v \<and> list_all P u \<and> mn \<le> length u \<and> st' = MSt (rev u @ p) v ((n, length p, u) # k))"
proof -
  have "st' \<in> set (ml (RGroup n (RRep g mn None r)) (MSt p s k)) \<longleftrightarrow>
      (\<exists>x. x \<in> set (ml (RRep g mn None r) (MSt p s k)) \<and> st' = close_group n (MSt p s k) x)"
    by auto
  also have "\<dots> \<longleftrightarrow> (\<exists>u v. s = u @ v \<and> list_all P u \<and> mn \<le> length u \<and>
      st' = close_group n (MSt p s k) (MSt (rev u @ p) v k))"
    unfolding mem_rep_chars [OF assms] mst.sel by blast
  finally show ?thesis by auto
qed

lemma mem_group_rep:
  "st' \<in> set (ml (RGroup n (RRep g mn None RAny)) (MSt p s k)) \<longleftrightarrow>
    (\<exists>u v. s = u @ v \<and> list_all (\<lambda>d. d \<noteq> nl) u \<and> mn \<le> length u \<and> st' = MSt (rev u @ p) v ((n, length p, u) # k))"
  "st' \<in> set (ml (RGroup n (RRep g mn None (RSet neg rs))) (MSt p s k)) \<longleftrightarrow>
    (\<exists>u v. s = u @ v \<and> list_all (in_set neg rs) u \<and> mn \<le> length u \<and> st' = MSt (rev u @ p) v ((n, length p, u) # k))"
  by (rule mem_group_rep_chars, simp)+

lemmas ml_mem = mem_rep_any mem_rep_set mem_rep_char step_char_Some

text \<open>The successes of a sequence, one item at a time: a decomposition of the text after the
  position, and the rest of the pattern at the position reached.\<close>

lemma seq_mem:
  "st' \<in> set (ml (RSeq RBol b) (MSt p s k)) \<longleftrightarrow> p = [] \<and> st' \<in> set (ml b (MSt p s k))"
  "st' \<in> set (ml (RSeq REol b) (MSt p s k)) \<longleftrightarrow> (s = [] \<or> s = [nl]) \<and> st' \<in> set (ml b (MSt p s k))"
  "st' \<in> set (ml (RSeq (RChar c) b) (MSt p s k)) \<longleftrightarrow> (\<exists>v. s = c # v \<and> st' \<in> set (ml b (MSt (c # p) v k)))"
  "st' \<in> set (ml (RSeq (RSet neg rs) b) (MSt p s k)) \<longleftrightarrow>
     (\<exists>c v. s = c # v \<and> in_set neg rs c \<and> st' \<in> set (ml b (MSt (c # p) v k)))"
  "st' \<in> set (ml (RSeq (RGroup n (RSet neg rs)) b) (MSt p s k)) \<longleftrightarrow>
     (\<exists>c v. s = c # v \<and> in_set neg rs c \<and> st' \<in> set (ml b (MSt (c # p) v ((n, length p, [c]) # k))))"
  "st' \<in> set (ml (RSeq (RGroup n (RRep g mn None (RSet neg rs))) b) (MSt p s k)) \<longleftrightarrow>
     (\<exists>u v. s = u @ v \<and> list_all (in_set neg rs) u \<and> mn \<le> length u
        \<and> st' \<in> set (ml b (MSt (rev u @ p) v ((n, length p, u) # k))))"
  "st' \<in> set (ml (RSeq (RGroup n (RRep g mn None RAny)) b) (MSt p s k)) \<longleftrightarrow>
     (\<exists>u v. s = u @ v \<and> list_all (\<lambda>d. d \<noteq> nl) u \<and> mn \<le> length u
        \<and> st' \<in> set (ml b (MSt (rev u @ p) v ((n, length p, u) # k))))"
  "st' \<in> set (ml (RSeq (RRep g mn None (RSet neg rs)) b) (MSt p s k)) \<longleftrightarrow>
     (\<exists>u v. s = u @ v \<and> list_all (in_set neg rs) u \<and> mn \<le> length u \<and> st' \<in> set (ml b (MSt (rev u @ p) v k)))"
  "st' \<in> set (ml (RSeq (RRep g mn None RAny) b) (MSt p s k)) \<longleftrightarrow>
     (\<exists>u v. s = u @ v \<and> list_all (\<lambda>d. d \<noteq> nl) u \<and> mn \<le> length u \<and> st' \<in> set (ml b (MSt (rev u @ p) v k)))"
  "st' \<in> set (ml REol (MSt p s k)) \<longleftrightarrow> st' = MSt p s k \<and> (s = [] \<or> s = [nl])"
  "st' \<in> set (ml (RChar c) (MSt p s k)) \<longleftrightarrow> (\<exists>v. s = c # v \<and> st' = MSt (c # p) v k)"
  "st' \<in> set (ml (RSet neg rs) (MSt p s k)) \<longleftrightarrow> (\<exists>c v. s = c # v \<and> in_set neg rs c \<and> st' = MSt (c # p) v k)"
  by (simp_all only: mem_seq mem_group_rep mem_rep_any mem_rep_set mst.sel)
    (auto simp: step_char_Some close_group_def split: if_splits)

lemma word_mem:
  "st' \<in> set (ml (RSeq RWordB b) (MSt p s k)) \<longleftrightarrow>
     word_before (MSt p s k) \<noteq> word_after (MSt p s k) \<and> st' \<in> set (ml b (MSt p s k))"
  "st' \<in> set (ml RWordB (MSt p s k)) \<longleftrightarrow> st' = MSt p s k \<and> word_before (MSt p s k) \<noteq> word_after (MSt p s k)"
  by (simp_all split: if_splits)

lemma group_mem:
  "st' \<in> set (ml (RSeq (RGroup n a) b) st) \<longleftrightarrow> (\<exists>u. u \<in> set (ml a st) \<and> st' \<in> set (ml b (close_group n st u)))"
  by auto

text \<open>A success given by its three parts.\<close>

lemma ml_parts:
  assumes "st' \<in> set (ml r (MSt p s k))"
  obtains t v k' where "s = t @ v" "st' = MSt (rev t @ p) v k'"
  using ml_moves [OF assms] by (cases st') (auto simp: moves_def intro: that)

lemma two_groups:
  assumes "st \<in> set (ml (RSeq (RGroup 1 r) (RSeq (RGroup 2 (RRep True 0 None RAny)) REol)) (MSt p s k))"
  shows "\<exists>u v w i j k'. s = u @ v @ w \<and> w \<in> {[], [nl]} \<and> caps st = (2, i, v) # (1, j, u) # k'"
proof -
  from assms obtain x where x: "x \<in> set (ml r (MSt p s k))"
    and st: "st \<in> set (ml (RSeq (RGroup 2 (RRep True 0 None RAny)) REol) (close_group 1 (MSt p s k) x))"
    unfolding group_mem by blast
  from x obtain u v k' where u: "s = u @ v" "x = MSt (rev u @ p) v k'" by (rule ml_parts)
  from st show ?thesis unfolding u close_group_append seq_mem by auto
qed

text \<open>Running the matcher on a known prefix, and a greedy run that need not give characters back.\<close>

lemma step_char_simps [simp]:
  "step_char P (MSt b [] k) = None"
  "step_char P (MSt b (c # cs) k) = (if P c then Some (MSt (c # b) cs k) else None)"
  by (simp_all add: step_char_def)

lemma mt_opt [simp]:
  "mt (RRep True 0 (Some (Suc 0)) a) st k = or_else (mt a st k) (k st)"
  "mt (RRep False 0 (Some (Suc 0)) a) st k = or_else (k st) (mt a st k)"
  by (simp_all add: mt.simps(10) dec_max_def)

lemma ml_opt [simp]:
  "ml (RRep True 0 (Some (Suc 0)) a) st = ml a st @ [st]"
  "ml (RRep False 0 (Some (Suc 0)) a) st = st # ml a st"
proof -
  have "concat (map (repl (ml a) g (Suc n) 0 (Some 0) l) xs) = xs" for g n l xs
    by (induction xs) auto
  then show "ml (RRep True 0 (Some (Suc 0)) a) st = ml a st @ [st]"
    "ml (RRep False 0 (Some (Suc 0)) a) st = st # ml a st"
    by (simp_all add: ml.simps(10) dec_max_def)
qed

lemma first_some_hd: "xs \<noteq> [] \<Longrightarrow> k (hd xs) \<noteq> None \<Longrightarrow> first_some k xs = k (hd xs)"
  by (cases xs) auto

lemma mt_rep_chars:
  assumes "\<And>st. ml r st = opt_list (step_char P st)"
  shows "mt (RRep g mn None r) st k =
    first_some (\<lambda>i. k (adv i st)) (in_order g [mn..<Suc (length (takeWhile P (after st)))])"
  by (simp only: mt_ml ml_rep_chars [OF assms] first_some_map)

lemma mt_greedy:
  assumes "\<And>st. ml r st = opt_list (step_char P st)"
    and n: "n = length (takeWhile P (after st))" "mn \<le> n" and "k (adv n st) \<noteq> None"
  shows "mt (RRep True mn None r) st k = k (adv n st)"
proof -
  have "hd (rev [mn..<Suc n]) = n" "rev [mn..<Suc n] \<noteq> []"
    using n(2) by simp_all
  then show ?thesis
    using first_some_hd [of "rev [mn..<Suc n]" "\<lambda>i. k (adv i st)"] assms(4)
    by (simp add: mt_rep_chars [OF assms(1)] in_order_def n(1) [symmetric] del: upt_Suc)
qed

lemma first_some_None: "(\<And>x. x \<in> set xs \<Longrightarrow> f x = None) \<Longrightarrow> first_some f xs = None"
  by (induction xs) auto

lemma mt_rep_chars_None:
  assumes "\<And>st. ml r st = opt_list (step_char P st)"
    and "\<And>i. mn \<le> i \<Longrightarrow> i \<le> length (takeWhile P (after st)) \<Longrightarrow> k (adv i st) = None"
  shows "mt (RRep g mn None r) st k = None"
  unfolding mt_rep_chars [OF assms(1)]
  by (rule first_some_None) (auto simp: in_order_def less_Suc_eq_le assms(2) simp del: upt_Suc split: if_splits)

text \<open>The groups a match adds are pieces of the text after its start.\<close>

definition caps_grow :: "mst \<Rightarrow> mst \<Rightarrow> bool" where
  "caps_grow st st' \<longleftrightarrow>
     (\<exists>k. caps st' = k @ caps st \<and> (\<forall>(n, i, t) \<in> set k. length t \<le> length (after st)))"

lemma caps_grow_refl: "caps st' = caps st \<Longrightarrow> caps_grow st st'"
  by (simp add: caps_grow_def)

lemma caps_grow_trans: "caps_grow a b \<Longrightarrow> moves a b \<Longrightarrow> caps_grow b c \<Longrightarrow> caps_grow a c"
  unfolding caps_grow_def by (fastforce dest: moves_length)

lemma repl_caps:
  assumes "\<And>st st'. st' \<in> set (l st) \<Longrightarrow> moves st st' \<and> caps_grow st st'"
  shows "st' \<in> set (repl l g n mn mx lst st) \<Longrightarrow> caps_grow st st'"
proof (induction n arbitrary: mn mx lst st)
  case (Suc n)
  then show ?case
    by (auto split: if_splits intro: caps_grow_refl dest!: assms intro: caps_grow_trans)
qed simp

lemma ml_caps: "st' \<in> set (ml r st) \<Longrightarrow> caps_grow st st'"
proof (induction r arbitrary: st st')
  case (RRep g mn mx a)
  from RRep.prems show ?case unfolding ml.simps
    by (rule repl_caps [rotated]) (blast intro: RRep.IH ml_moves)
next
  case (RSeq a b)
  from RSeq.prems obtain u where "u \<in> set (ml a st)" "st' \<in> set (ml b u)" by auto
  with RSeq.IH show ?case by (blast intro: caps_grow_trans ml_moves)
next
  case (RGroup n a)
  then obtain u where "u \<in> set (ml a st)" "st' = close_group n st u" by auto
  with RGroup.IH [of u st] show ?case by (fastforce simp: close_group_def caps_grow_def)
next
  case (RLook p a)
  then show ?case by (cases "ml a st") (fastforce simp: caps_grow_def split: if_splits)+
qed (auto simp: step_char_Some step_back_Some intro: caps_grow_refl split: if_splits)

lemma caps_grow_group:
  "caps_grow st st' \<Longrightarrow> caps st = [] \<Longrightarrow> map_of (caps st') n = Some (i, t) \<Longrightarrow> length t \<le> length (after st)"
  by (fastforce simp: caps_grow_def dest: map_of_SomeD)

section \<open>Match objects and the entry points\<close>

datatype mobj = MObj (m_start: nat) (m_text: string) (m_caps: "(nat \<times> nat \<times> string) list")

definition m_end :: "mobj \<Rightarrow> nat" where
  "m_end m = m_start m + length (m_text m)"

definition group :: "mobj \<Rightarrow> nat \<Rightarrow> string option" where
  "group m n = (if n = 0 then Some (m_text m) else map_option snd (map_of (m_caps m) n))"

text \<open>The text of a group that takes part in every match of its pattern.\<close>

definition grp :: "mobj \<Rightarrow> nat \<Rightarrow> string" where
  "grp m n = (case group m n of None \<Rightarrow> [] | Some t \<Rightarrow> t)"

definition group_start :: "mobj \<Rightarrow> nat \<Rightarrow> int" where
  "group_start m n =
     (if n = 0 then int (m_start m)
      else case map_of (m_caps m) n of None \<Rightarrow> -1 | Some (i, _) \<Rightarrow> int i)"

definition run_at :: "regex \<Rightarrow> string \<Rightarrow> string \<Rightarrow> mobj option" where
  "run_at r b a =
     (case mt r (MSt b a []) Some of
        None \<Rightarrow> None
      | Some st \<Rightarrow> Some (MObj (length b) (take (length a - length (after st)) a) (caps st)))"

definition re_match :: "regex \<Rightarrow> string \<Rightarrow> mobj option" where
  "re_match r s = run_at r [] s"

fun search_from :: "regex \<Rightarrow> string \<Rightarrow> string \<Rightarrow> mobj option" where
  "search_from r b [] = run_at r b []"
| "search_from r b (c # cs) =
     (case run_at r b (c # cs) of Some m \<Rightarrow> Some m | None \<Rightarrow> search_from r (c # b) cs)"

definition re_search :: "regex \<Rightarrow> string \<Rightarrow> mobj option" where
  "re_search r s = search_from r [] s"

text \<open>\<open>finditer\<close>: after a match the scan goes on at its end, or one further if it was empty.\<close>

fun scan_from :: "regex \<Rightarrow> string \<Rightarrow> string \<Rightarrow> nat \<Rightarrow> mobj list" where
  "scan_from r b [] skip = (if skip > 0 then [] else opt_list (run_at r b []))"
| "scan_from r b (c # cs) skip =
     (if skip > 0 then scan_from r (c # b) cs (skip - 1)
      else case run_at r b (c # cs) of
        None \<Rightarrow> scan_from r (c # b) cs 0
      | Some m \<Rightarrow> m # scan_from r (c # b) cs (length (m_text m) - 1))"

definition re_finditer :: "regex \<Rightarrow> string \<Rightarrow> mobj list" where
  "re_finditer r s = scan_from r [] s 0"

text \<open>\<open>sub\<close>: an empty match right after the previous match (\<open>adj\<close>) is ignored.\<close>

fun sub_from :: "regex \<Rightarrow> (mobj \<Rightarrow> string) \<Rightarrow> string \<Rightarrow> string \<Rightarrow> nat \<Rightarrow> bool \<Rightarrow> string" where
  "sub_from r rp b [] skip adj =
     (if skip > 0 then []
      else case run_at r b [] of None \<Rightarrow> [] | Some m \<Rightarrow> if adj then [] else rp m)"
| "sub_from r rp b (c # cs) skip adj =
     (if skip > 0 then sub_from r rp (c # b) cs (skip - 1) (skip = 1)
      else case run_at r b (c # cs) of
        None \<Rightarrow> c # sub_from r rp (c # b) cs 0 False
      | Some m \<Rightarrow>
          if m_text m = [] then (if adj then [] else rp m) @ c # sub_from r rp (c # b) cs 0 False
          else rp m @ sub_from r rp (c # b) cs (length (m_text m) - 1) (length (m_text m) = 1))"

definition re_sub :: "regex \<Rightarrow> (mobj \<Rightarrow> string) \<Rightarrow> string \<Rightarrow> string" where
  "re_sub r rp s = sub_from r rp [] s 0 False"

text \<open>\<open>split\<close> for a pattern without groups: empty matches do not split.\<close>

fun resplit_from :: "regex \<Rightarrow> string \<Rightarrow> string \<Rightarrow> string \<Rightarrow> nat \<Rightarrow> string list" where
  "resplit_from r b acc [] skip = [rev acc]"
| "resplit_from r b acc (c # cs) skip =
     (if skip > 0 then resplit_from r (c # b) acc cs (skip - 1)
      else case run_at r b (c # cs) of
        None \<Rightarrow> resplit_from r (c # b) (c # acc) cs 0
      | Some m \<Rightarrow>
          if m_text m = [] then resplit_from r (c # b) (c # acc) cs 0
          else rev acc # resplit_from r (c # b) [] cs (length (m_text m) - 1))"

definition re_split :: "regex \<Rightarrow> string \<Rightarrow> string list" where
  "re_split r s = resplit_from r [] [] s 0"

subsection \<open>Laws of the entry points\<close>

lemma run_at_None: "run_at r b a = None \<longleftrightarrow> ml r (MSt b a []) = []"
  by (auto simp: run_at_def mt_ml first_some_Some split: option.splits list.splits)

lemma run_at_Some:
  assumes "run_at r b a = Some m"
  obtains st sts where "ml r (MSt b a []) = st # sts" "a = m_text m @ after st"
    "before st = rev (m_text m) @ b" "m_start m = length b" "m_caps m = caps st"
proof -
  from assms obtain st sts where ml: "ml r (MSt b a []) = st # sts"
    and m: "m = MObj (length b) (take (length a - length (after st)) a) (caps st)"
    by (auto simp: run_at_def mt_ml first_some_Some split: option.splits list.splits)
  from ml have "moves (MSt b a []) st"
    by (intro ml_moves [of _ r]) simp
  then obtain t where "a = t @ after st" "before st = rev t @ b"
    by (auto simp: moves_def)
  with ml m show thesis by (intro that) auto
qed

lemma run_at_eq:
  "mt r (MSt b (t @ v) []) Some = Some (MSt b' v k) \<Longrightarrow> run_at r b (t @ v) = Some (MObj (length b) t k)"
  by (simp add: run_at_def)

lemma run_at_start: "run_at r b a = Some m \<Longrightarrow> m_start m = length b"
  by (erule run_at_Some)

lemma run_at_prefix: "run_at r b a = Some m \<Longrightarrow> prefix (m_text m) a"
  by (erule run_at_Some) simp

lemma search_from_None:
  "search_from r b a = None \<longleftrightarrow> (\<forall>u v. a = u @ v \<longrightarrow> run_at r (rev u @ b) v = None)"
proof (induction r b a rule: search_from.induct)
  case (2 r b c cs)
  have "(\<forall>u v. c # cs = u @ v \<longrightarrow> run_at r (rev u @ b) v = None) \<longleftrightarrow>
      run_at r b (c # cs) = None \<and> (\<forall>u v. cs = u @ v \<longrightarrow> run_at r (rev u @ c # b) v = None)"
    (is "?l \<longleftrightarrow> ?r")
  proof
    assume ?l
    from this [rule_format, of "[]"] this [rule_format, of "c # _"] show ?r by simp
  next
    assume ?r
    then show ?l by (auto simp: Cons_eq_append_conv)
  qed
  with 2 show ?case by (auto split: option.splits)
qed auto

text \<open>\<open>search\<close> returns the leftmost match.\<close>

lemma search_from_Some:
  assumes "search_from r b a = Some m"
  obtains u v where "a = u @ v" "run_at r (rev u @ b) v = Some m"
    "\<And>u' v'. a = u' @ v' \<Longrightarrow> length u' < length u \<Longrightarrow> run_at r (rev u' @ b) v' = None"
  using assms
proof (induction r b a arbitrary: thesis rule: search_from.induct)
  case (1 r b)
  then show ?case by (intro "1.prems"(1) [of "[]" "[]"]) auto
next
  case (2 r b c cs)
  show ?case
  proof (cases "run_at r b (c # cs)")
    case (Some m')
    with "2.prems" show ?thesis by (intro "2.prems"(1) [of "[]" "c # cs"]) auto
  next
    case None
    with "2.prems"(2) have "search_from r (c # b) cs = Some m" by simp
    with "2.IH" None obtain u v where uv: "cs = u @ v" "run_at r (rev u @ c # b) v = Some m"
      and least: "\<And>u' v'. cs = u' @ v' \<Longrightarrow> length u' < length u \<Longrightarrow> run_at r (rev u' @ c # b) v' = None"
      by blast
    show ?thesis
    proof (rule "2.prems"(1) [of "c # u" v])
      fix u' v' assume "c # cs = u' @ v'" "length u' < length (c # u)"
      with least None show "run_at r (rev u' @ b) v' = None"
        by (cases u') auto
    qed (use uv in auto)
  qed
qed

lemma search_from_skip:
  assumes "\<And>u' v'. u = u' @ v' \<Longrightarrow> v' \<noteq> [] \<Longrightarrow> run_at r (rev u' @ b) (v' @ v) = None"
  shows "search_from r b (u @ v) = search_from r (rev u @ b) v"
  using assms
proof (induction u arbitrary: b)
  case (Cons c u)
  from Cons.prems [of "[]" "c # u"] have "run_at r b (c # u @ v) = None" by simp
  moreover have "search_from r (c # b) (u @ v) = search_from r (rev u @ c # b) v"
  proof (rule Cons.IH)
    fix u' v' assume "u = u' @ v'" "v' \<noteq> []"
    with Cons.prems [of "c # u'" v'] show "run_at r (rev u' @ c # b) (v' @ v) = None" by simp
  qed
  ultimately show ?case by simp
qed simp

lemma search_from_here: "run_at r b a = Some m \<Longrightarrow> search_from r b a = Some m"
  by (cases a) simp_all

lemma sub_from_id:
  "(\<And>u v. a = u @ v \<Longrightarrow> run_at r (rev u @ b) v = None) \<Longrightarrow> sub_from r rp b a 0 adj = a"
proof (induction a arbitrary: b adj)
  case (Cons c cs)
  from Cons.prems [of "[]" "c # cs"] have "run_at r b (c # cs) = None" by simp
  moreover have "sub_from r rp (c # b) cs 0 False = cs"
  proof (rule Cons.IH)
    fix u v assume "cs = u @ v"
    with Cons.prems [of "c # u" v] show "run_at r (rev u @ c # b) v = None" by simp
  qed
  ultimately show ?case by simp
qed auto

lemma re_sub_id: "re_search r s = None \<Longrightarrow> re_sub r rp s = s"
  by (simp add: re_sub_def re_search_def search_from_None sub_from_id)

text \<open>Deleting the matches, or replacing each by part of itself, only removes characters.\<close>

lemma sub_from_subseq:
  assumes "\<And>b a m. run_at r b a = Some m \<Longrightarrow> subseq (rp m) (m_text m)"
  shows "subseq (sub_from r rp b a skip adj) (drop skip a)"
proof (induction a arbitrary: b skip adj)
  case Nil
  have "rp m = []" if "run_at r b [] = Some m" for m
    using assms [OF that] run_at_prefix [OF that] by simp
  then show ?case by (auto split: option.splits)
next
  case (Cons c cs)
  show ?case
  proof (cases skip)
    case (Suc n)
    with Cons.IH show ?thesis by simp
  next
    case 0
    show ?thesis
    proof (cases "run_at r b (c # cs)")
      case None
      with 0 Cons.IH [of "c # b" 0] show ?thesis by simp
    next
      case (Some m)
      then have pre: "prefix (m_text m) (c # cs)" and sub: "subseq (rp m) (m_text m)"
        by (auto dest: run_at_prefix assms)
      show ?thesis
      proof (cases "m_text m = []")
        case True
        with sub have "rp m = []" by simp
        with True 0 Some Cons.IH [of "c # b" 0] show ?thesis by auto
      next
        case False
        then obtain n where n: "length (m_text m) = Suc n" by (cases "m_text m") auto
        from pre have eq: "m_text m @ drop n cs = c # cs"
          using n by (cases "m_text m") (auto simp: prefix_def)
        have "subseq (rp m @ sub_from r rp (c # b) cs n (length (m_text m) = 1))
            (m_text m @ drop n cs)"
          by (intro list_emb_append_mono sub Cons.IH)
        then show ?thesis using 0 Some False n unfolding eq by simp
      qed
    qed
  qed
qed

lemma re_sub_delete_subseq: "subseq (re_sub r (\<lambda>_. []) s) s"
  using sub_from_subseq [of r "\<lambda>_. []" "[]" s 0 False] by (simp add: re_sub_def)

end
