(* ===== verification/Py_RegexSyntax.thy ===== *)
theory Py_RegexSyntax
  imports Py_Regex
begin

text \<open>
  The pattern syntax: \<open>re_compile\<close> turns the text of a pattern into a \<open>regex\<close>, one character at a
  time, with a stack of open groups.  It covers the syntax that the patterns of \<open>cpplint.py\<close> use:
  literals, classes with ranges and class escapes, \<open>. ^ $ |\<close>, the quantifiers \<open>* + ? {m} {m,n}\<close>
  and their lazy forms, capturing and plain groups, lookahead, back references, the escapes
  \<open>\b \s \S \w \W \d \D\<close> and a leading \<open>(?i)\<close>.  A brace that does not open a quantifier is a
  literal, as in Python.  Anything else gives \<open>None\<close>; the theories that transcribe the program's
  patterns show that each of them compiles.
\<close>

datatype gkind = GTop | GCap nat | GNon | GLook bool

datatype frame = Frame gkind "regex list" "regex list"  \<comment> \<open>kind, alternatives and items, latest first\<close>

datatype mode =
    MNorm
  | MEsc
  | MQuant
  | MParen
  | MParenQ
  | MFlag
  | MBrace bool string                                  \<comment> \<open>after a quantifier?, text read\<close>
  | MClass nat bool "(char \<times> char) list" "char option" bool bool
      \<comment> \<open>place (0 after \<open>[\<close>, 1 after \<open>[^\<close>, 2 later), negated?, items, last, dash?, escape?\<close>

datatype pstate = PErr | PS mode "frame list" nat bool  \<comment> \<open>mode, open groups, groups so far, \<open>(?i)\<close>?\<close>

section \<open>Building blocks\<close>

definition space_ranges :: "(char \<times> char) list" where
  "space_ranges = [(CHR '' '', CHR '' ''), (CHR 0x09, CHR 0x0D)]"

definition digit_ranges :: "(char \<times> char) list" where
  "digit_ranges = [(CHR ''0'', CHR ''9'')]"

definition word_ranges :: "(char \<times> char) list" where
  "word_ranges = [(CHR ''a'', CHR ''z''), (CHR ''A'', CHR ''Z''), (CHR ''0'', CHR ''9''), (CHR ''_'', CHR ''_'')]"

fun seq_of :: "regex list \<Rightarrow> regex" where
  "seq_of [] = REmpty"
| "seq_of [r] = r"
| "seq_of (r # rs) = RSeq r (seq_of rs)"

fun alt_of :: "regex list \<Rightarrow> regex" where
  "alt_of [] = REmpty"
| "alt_of [r] = r"
| "alt_of (r # rs) = RAlt r (alt_of rs)"

fun frame_regex :: "frame \<Rightarrow> regex" where
  "frame_regex (Frame k alts items) = alt_of (rev (seq_of (rev items) # alts))"

fun push_item :: "regex \<Rightarrow> frame list \<Rightarrow> frame list" where
  "push_item r [] = []"
| "push_item r (Frame k alts items # fs) = Frame k alts (r # items) # fs"

definition is_letter :: "char \<Rightarrow> bool" where
  "is_letter c \<longleftrightarrow> in_range c (CHR ''a'', CHR ''z'') \<or> in_range c (CHR ''A'', CHR ''Z'')"

definition lit :: "bool \<Rightarrow> char \<Rightarrow> regex" where
  "lit ic c =
     (if ic \<and> is_letter c
      then RSet False [(set_case_bit True c, set_case_bit True c), (set_case_bit False c, set_case_bit False c)]
      else RChar c)"

section \<open>One character\<close>

fun close_paren :: "frame list \<Rightarrow> nat \<Rightarrow> bool \<Rightarrow> pstate" where
  "close_paren (Frame k alts items # f # fs) ng ic =
     (let r = frame_regex (Frame k alts items);
          item = (case k of GCap n \<Rightarrow> RGroup n r | GLook pos \<Rightarrow> RLook pos r | _ \<Rightarrow> r)
      in PS MNorm (push_item item (f # fs)) ng ic)"
| "close_paren _ ng ic = PErr"

fun next_alt :: "frame list \<Rightarrow> nat \<Rightarrow> bool \<Rightarrow> pstate" where
  "next_alt (Frame k alts items # fs) ng ic = PS MNorm (Frame k (seq_of (rev items) # alts) [] # fs) ng ic"
| "next_alt [] ng ic = PErr"

fun quantify :: "nat \<Rightarrow> nat option \<Rightarrow> frame list \<Rightarrow> nat \<Rightarrow> bool \<Rightarrow> pstate" where
  "quantify mn mx (Frame k alts (r # items) # fs) ng ic =
     PS MQuant (Frame k alts (RRep True mn mx r # items) # fs) ng ic"
| "quantify mn mx _ ng ic = PErr"

fun make_lazy :: "frame list \<Rightarrow> nat \<Rightarrow> bool \<Rightarrow> pstate" where
  "make_lazy (Frame k alts (RRep _ mn mx r # items) # fs) ng ic =
     PS MNorm (Frame k alts (RRep False mn mx r # items) # fs) ng ic"
| "make_lazy _ ng ic = PErr"

definition norm_step :: "char \<Rightarrow> frame list \<Rightarrow> nat \<Rightarrow> bool \<Rightarrow> pstate" where
  "norm_step c fs ng ic =
     (if c = bslash then PS MEsc fs ng ic
      else if c = CHR ''('' then PS MParen fs ng ic
      else if c = CHR '')'' then close_paren fs ng ic
      else if c = CHR ''['' then
        (if ic then PErr else PS (MClass 0 False [] None False False) fs ng ic)
      else if c = CHR ''*'' then quantify 0 None fs ng ic
      else if c = CHR ''+'' then quantify 1 None fs ng ic
      else if c = CHR ''?'' then quantify 0 (Some 1) fs ng ic
      else if c = CHR ''{'' then PS (MBrace False []) fs ng ic
      else if c = CHR ''|'' then next_alt fs ng ic
      else PS MNorm (push_item
        (if c = CHR ''.'' then RAny else if c = CHR ''^'' then RBol else if c = CHR ''$'' then REol
         else lit ic c) fs) ng ic)"

definition quant_step :: "char \<Rightarrow> frame list \<Rightarrow> nat \<Rightarrow> bool \<Rightarrow> pstate" where
  "quant_step c fs ng ic =
     (if c = CHR ''?'' then make_lazy fs ng ic
      else if c = CHR ''*'' \<or> c = CHR ''+'' then PErr
      else if c = CHR ''{'' then PS (MBrace True []) fs ng ic
      else norm_step c fs ng ic)"

definition esc_step :: "char \<Rightarrow> frame list \<Rightarrow> nat \<Rightarrow> bool \<Rightarrow> pstate" where
  "esc_step c fs ng ic =
     (let item = (\<lambda>r. PS MNorm (push_item r fs) ng ic) in
      if c = CHR ''b'' then item RWordB
      else if c = CHR ''s'' then item (RSet False space_ranges)
      else if c = CHR ''S'' then item (RSet True space_ranges)
      else if c = CHR ''w'' then item (RSet False word_ranges)
      else if c = CHR ''W'' then item (RSet True word_ranges)
      else if c = CHR ''d'' then item (RSet False digit_ranges)
      else if c = CHR ''D'' then item (RSet True digit_ranges)
      else if c = CHR ''1'' then item (RBack 1)
      else if is_word c \<and> c \<noteq> CHR ''_'' then PErr
      else item (RChar c))"

definition paren_step :: "char \<Rightarrow> frame list \<Rightarrow> nat \<Rightarrow> bool \<Rightarrow> pstate" where
  "paren_step c fs ng ic =
     (if c = CHR ''?'' then PS MParenQ fs ng ic
      else norm_step c (Frame (GCap (Suc ng)) [] [] # fs) (Suc ng) ic)"

definition parenq_step :: "char \<Rightarrow> frame list \<Rightarrow> nat \<Rightarrow> bool \<Rightarrow> pstate" where
  "parenq_step c fs ng ic =
     (if c = CHR '':'' then PS MNorm (Frame GNon [] [] # fs) ng ic
      else if c = CHR ''='' then PS MNorm (Frame (GLook True) [] [] # fs) ng ic
      else if c = CHR ''!'' then PS MNorm (Frame (GLook False) [] [] # fs) ng ic
      else if c = CHR ''i'' \<and> fs = [Frame GTop [] []] then PS MFlag fs ng ic
      else PErr)"

definition flag_step :: "char \<Rightarrow> frame list \<Rightarrow> nat \<Rightarrow> bool \<Rightarrow> pstate" where
  "flag_step c fs ng ic = (if c = CHR '')'' then PS MNorm fs ng True else PErr)"

subsection \<open>Brace quantifiers\<close>

definition digits_val :: "string \<Rightarrow> nat" where
  "digits_val ds = foldl (\<lambda>n d. 10 * n + (of_char d - 48)) 0 ds"

definition brace_bounds :: "string \<Rightarrow> nat \<times> nat option" where
  "brace_bounds t =
     (let lo = takeWhile (\<lambda>c. c \<noteq> CHR '','') t; hi = drop (Suc (length lo)) t
      in (digits_val lo,
          if CHR '','' \<in> set t then (if hi = [] then None else Some (digits_val hi))
          else Some (digits_val lo)))"

definition flush_brace :: "string \<Rightarrow> frame list \<Rightarrow> bool \<Rightarrow> frame list" where
  "flush_brace t fs ic = foldl (\<lambda>fs c. push_item (lit ic c) fs) fs (CHR ''{'' # rev t)"

definition brace_step :: "char \<Rightarrow> bool \<Rightarrow> string \<Rightarrow> frame list \<Rightarrow> nat \<Rightarrow> bool \<Rightarrow> pstate" where
  "brace_step c q t fs ng ic =
     (if is_digit c \<or> (c = CHR '','' \<and> c \<notin> set t) then PS (MBrace q (c # t)) fs ng ic
      else if c = CHR ''}'' \<and> t \<noteq> [] then
        (if q then PErr else let (mn, mx) = brace_bounds (rev t) in quantify mn mx fs ng ic)
      else norm_step c (flush_brace t fs ic) ng ic)"

subsection \<open>Classes\<close>

definition class_lit :: "char \<Rightarrow> bool \<Rightarrow> (char \<times> char) list \<Rightarrow> char option \<Rightarrow> bool \<Rightarrow> frame list \<Rightarrow> nat
    \<Rightarrow> bool \<Rightarrow> pstate" where
  "class_lit c neg items lst dash fs ng ic =
     (case lst of
        None \<Rightarrow> PS (MClass 2 neg items (Some c) False False) fs ng ic
      | Some l \<Rightarrow>
          if dash
          then (if char_le l c then PS (MClass 2 neg ((l, c) # items) None False False) fs ng ic else PErr)
          else PS (MClass 2 neg ((l, l) # items) (Some c) False False) fs ng ic)"

definition class_pending :: "(char \<times> char) list \<Rightarrow> char option \<Rightarrow> bool \<Rightarrow> (char \<times> char) list" where
  "class_pending items lst dash =
     (case lst of
        None \<Rightarrow> items
      | Some l \<Rightarrow> (if dash then [(CHR ''-'', CHR ''-'')] else []) @ (l, l) # items)"

definition class_esc :: "char \<Rightarrow> bool \<Rightarrow> (char \<times> char) list \<Rightarrow> char option \<Rightarrow> bool \<Rightarrow> frame list \<Rightarrow> nat
    \<Rightarrow> bool \<Rightarrow> pstate" where
  "class_esc c neg items lst dash fs ng ic =
     (let ranges = (\<lambda>rs. if dash then PErr
            else PS (MClass 2 neg (rs @ class_pending items lst False) None False False) fs ng ic)
      in if c = CHR ''s'' then ranges space_ranges
         else if c = CHR ''w'' then ranges word_ranges
         else if c = CHR ''d'' then ranges digit_ranges
         else if is_word c \<and> c \<noteq> CHR ''_'' then PErr
         else class_lit c neg items lst dash fs ng ic)"

definition class_step :: "char \<Rightarrow> nat \<Rightarrow> bool \<Rightarrow> (char \<times> char) list \<Rightarrow> char option \<Rightarrow> bool \<Rightarrow> bool
    \<Rightarrow> frame list \<Rightarrow> nat \<Rightarrow> bool \<Rightarrow> pstate" where
  "class_step c place neg items lst dash esc fs ng ic =
     (if esc then class_esc c neg items lst dash fs ng ic
      else if c = CHR ''^'' \<and> place = 0 then PS (MClass 1 True items lst dash False) fs ng ic
      else if c = CHR '']'' \<and> place = 2
        then PS MNorm (push_item (RSet neg (rev (class_pending items lst dash))) fs) ng ic
      else if c = bslash then PS (MClass 2 neg items lst dash True) fs ng ic
      else if c = CHR ''-'' \<and> lst \<noteq> None \<and> \<not> dash then PS (MClass 2 neg items lst True False) fs ng ic
      else class_lit c neg items lst dash fs ng ic)"

section \<open>Whole patterns\<close>

fun pstep :: "pstate \<Rightarrow> char \<Rightarrow> pstate" where
  "pstep PErr c = PErr"
| "pstep (PS MNorm fs ng ic) c = norm_step c fs ng ic"
| "pstep (PS MEsc fs ng ic) c = esc_step c fs ng ic"
| "pstep (PS MQuant fs ng ic) c = quant_step c fs ng ic"
| "pstep (PS MParen fs ng ic) c = paren_step c fs ng ic"
| "pstep (PS MParenQ fs ng ic) c = parenq_step c fs ng ic"
| "pstep (PS MFlag fs ng ic) c = flag_step c fs ng ic"
| "pstep (PS (MBrace q t) fs ng ic) c = brace_step c q t fs ng ic"
| "pstep (PS (MClass place neg items lst dash esc) fs ng ic) c =
     class_step c place neg items lst dash esc fs ng ic"

fun pfinish :: "pstate \<Rightarrow> regex option" where
  "pfinish (PS MNorm [f] ng ic) = Some (frame_regex f)"
| "pfinish (PS MQuant [f] ng ic) = Some (frame_regex f)"
| "pfinish (PS (MBrace q t) [f] ng ic) = Some (frame_regex (hd (flush_brace t [f] ic)))"
| "pfinish _ = None"

definition re_compile_flags :: "bool \<Rightarrow> string \<Rightarrow> regex option" where
  "re_compile_flags ic p = pfinish (foldl pstep (PS MNorm [Frame GTop [] []] 0 ic) p)"

definition re_compile :: "string \<Rightarrow> regex option" where
  "re_compile p = re_compile_flags False p"

text \<open>The compiled form of a pattern that is known to compile; a pattern that never matches
  otherwise.\<close>

definition compiled :: "string \<Rightarrow> regex" where
  "compiled p = (case re_compile p of Some r \<Rightarrow> r | None \<Rightarrow> RSet False [])"

text \<open>\<open>re.escape\<close>: a backslash before every character that is not an ASCII letter or digit
  (a NUL becomes \<open>\000\<close>).\<close>

definition re_escape :: "string \<Rightarrow> string" where
  "re_escape s = concat (map (\<lambda>c. if is_letter c \<or> is_digit c then [c]
     else if c = CHR 0x00 then [bslash, CHR ''0'', CHR ''0'', CHR ''0''] else [bslash, c]) s)"

end
