(* ===== verification/Regexp_Cache.thy ===== *)
theory Regexp_Cache
  imports Py_RegexSyntax
begin

text \<open>
  The functions \<open>Match\<close>, \<open>ReplaceAll\<close> and \<open>Search\<close> with their shared cache of compiled patterns
  (\<open>_regexp_compile_cache\<close>).  \<open>Match_cached\<close> and its siblings thread the cache as the source does;
  \<open>Match\<close>, \<open>ReplaceAll\<close> and \<open>Search\<close> are the same entry points without it, and are what the rest of
  the development calls.  The locale \<open>cached_entry\<close> states the contract of a cached entry point
  once, for the three of them.
\<close>

type_synonym regexp_cache = "string \<rightharpoonup> regex"

definition cache_compile :: "regexp_cache \<Rightarrow> string \<Rightarrow> (regex \<times> regexp_cache) result" where
  "cache_compile cache p =
     (case cache p of
        Some r \<Rightarrow> Inr (r, cache)
      | None \<Rightarrow>
          case re_compile p of
            None \<Rightarrow> Inl ReError
          | Some r \<Rightarrow> Inr (r, cache(p \<mapsto> r)))"

definition Match_cached :: "string \<Rightarrow> string \<Rightarrow> (regexp_cache, mobj option) py" where
  "Match_cached p s = (\<lambda>cache. bind_r (cache_compile cache p) (\<lambda>(r, c). Inr (re_match r s, c)))"

text \<open>The replacement is taken literally, as \<open>sub\<close> does with a text that holds no backslash; no call of the program
  passes one that does.\<close>

definition ReplaceAll_cached :: "string \<Rightarrow> string \<Rightarrow> string \<Rightarrow> (regexp_cache, string) py" where
  "ReplaceAll_cached p rp s =
     (\<lambda>cache. bind_r (cache_compile cache p) (\<lambda>(r, c). Inr (re_sub r (\<lambda>_. rp) s, c)))"

definition Search_cached :: "string \<Rightarrow> string \<Rightarrow> (regexp_cache, mobj option) py" where
  "Search_cached p s = (\<lambda>cache. bind_r (cache_compile cache p) (\<lambda>(r, c). Inr (re_search r s, c)))"

definition Match :: "string \<Rightarrow> string \<Rightarrow> mobj option" where
  "Match p s = re_match (compiled p) s"

definition ReplaceAll :: "string \<Rightarrow> string \<Rightarrow> string \<Rightarrow> string" where
  "ReplaceAll p rp s = re_sub (compiled p) (\<lambda>_. rp) s"

definition Search :: "string \<Rightarrow> string \<Rightarrow> mobj option" where
  "Search p s = re_search (compiled p) s"

text \<open>The truth value of a match object.\<close>

abbreviation matches :: "string \<Rightarrow> string \<Rightarrow> bool" where
  "matches p s \<equiv> Match p s \<noteq> None"

abbreviation found :: "string \<Rightarrow> string \<Rightarrow> bool" where
  "found p s \<equiv> Search p s \<noteq> None"

text \<open>What a match object says of its subject.\<close>

lemma Match_Some:
  assumes "Match p s = Some m"
  obtains st where "st \<in> set (ml (compiled p) (MSt [] s []))" "s = m_text m @ after st"
    "before st = rev (m_text m)" "m_caps m = caps st"
  using assms unfolding Match_def re_match_def by (elim run_at_Some) (auto intro: that)

lemma Match_None: "Match p s = None \<longleftrightarrow> ml (compiled p) (MSt [] s []) = []"
  by (simp add: Match_def re_match_def run_at_None)

lemma MatchI: "st \<in> set (ml (compiled p) (MSt [] s [])) \<Longrightarrow> \<exists>m. Match p s = Some m"
  using Match_None [of p s] by (cases "Match p s") auto

lemma Search_None:
  "Search p s = None \<longleftrightarrow> (\<forall>u v. s = u @ v \<longrightarrow> ml (compiled p) (MSt (rev u) v []) = [])"
  by (simp add: Search_def re_search_def search_from_None run_at_None)

lemma SearchI: "st \<in> set (ml (compiled p) (MSt (rev u) v [])) \<Longrightarrow> \<exists>m. Search p (u @ v) = Some m"
  using Search_None [of p "u @ v"] by (cases "Search p (u @ v)") auto

lemma Search_Some:
  assumes "Search p s = Some m"
  obtains u v st where "s = u @ v" "st \<in> set (ml (compiled p) (MSt (rev u) v []))"
    "v = m_text m @ after st" "m_start m = length u" "m_caps m = caps st"
proof -
  from assms obtain u v where uv: "s = u @ v" "run_at (compiled p) (rev u) v = Some m"
    unfolding Search_def re_search_def by (auto elim: search_from_Some)
  from uv(2) show thesis by (elim run_at_Some) (auto intro: that [OF uv(1)])
qed

text \<open>The groups of a pattern, and patterns \<open>^(a)c...\<close> that put a group first and a character after it: the
  group is the text before that character.\<close>

primrec groups :: "regex \<Rightarrow> nat list" where
  "groups REmpty = []"
| "groups (RChar c) = []"
| "groups (RSet neg rs) = []"
| "groups RAny = []"
| "groups RBol = []"
| "groups REol = []"
| "groups RWordB = []"
| "groups (RSeq a b) = groups a @ groups b"
| "groups (RAlt a b) = groups a @ groups b"
| "groups (RRep g mn mx a) = groups a"
| "groups (RGroup n a) = n # groups a"
| "groups (RBack n) = []"
| "groups (RLook pos a) = groups a"

definition grows_by :: "nat list \<Rightarrow> mst \<Rightarrow> mst \<Rightarrow> bool" where
  "grows_by ns st st' \<longleftrightarrow> (\<exists>k. caps st' = k @ caps st \<and> fst ` set k \<subseteq> set ns)"

lemma grows_by_refl: "caps st' = caps st \<Longrightarrow> grows_by ns st st'"
  by (simp add: grows_by_def)

lemma grows_by_trans: "grows_by ns a b \<Longrightarrow> grows_by ns b c \<Longrightarrow> grows_by ns a c"
  by (fastforce simp: grows_by_def)

lemma grows_by_mono: "grows_by ns a b \<Longrightarrow> set ns \<subseteq> set ms \<Longrightarrow> grows_by ms a b"
  by (fastforce simp: grows_by_def)

lemma repl_grows:
  assumes "\<And>st st'. st' \<in> set (l st) \<Longrightarrow> grows_by ns st st'"
  shows "st' \<in> set (repl l g n mn mx lst st) \<Longrightarrow> grows_by ns st st'"
proof (induction n arbitrary: mn mx lst st)
  case (Suc n)
  then show ?case
    by (auto split: if_splits intro: grows_by_refl dest!: assms intro: grows_by_trans)
qed simp

lemma ml_grows: "st' \<in> set (ml r st) \<Longrightarrow> grows_by (groups r) st st'"
proof (induction r arbitrary: st st')
  case (RRep g mn mx a)
  from RRep.prems show ?case unfolding ml.simps groups.simps
    by (rule repl_grows [rotated]) (rule RRep.IH)
next
  case (RSeq a b)
  from RSeq.prems obtain u where "u \<in> set (ml a st)" "st' \<in> set (ml b u)" by auto
  with RSeq.IH [THEN grows_by_mono] show ?case by (auto intro!: grows_by_trans [of _ st u st'])
next
  case (RAlt a b)
  from RAlt.prems consider "st' \<in> set (ml a st)" | "st' \<in> set (ml b st)" by auto
  then show ?case by cases (auto intro: grows_by_mono dest: RAlt.IH)
next
  case (RGroup n a)
  then obtain u where "u \<in> set (ml a st)" "st' = close_group n st u" by auto
  with RGroup.IH [of u st] show ?case by (fastforce simp: close_group_def grows_by_def)
next
  case (RLook p a)
  then show ?case by (cases "ml a st") (fastforce simp: grows_by_def split: if_splits)+
qed (auto simp: step_char_Some step_back_Some intro: grows_by_refl split: if_splits)

lemma grows_by_map_of: "grows_by ns st st' \<Longrightarrow> n \<notin> set ns \<Longrightarrow> map_of (caps st') n = map_of (caps st) n"
  unfolding grows_by_def by (auto simp: map_add_def map_of_eq_None_iff split: option.split) (metis image_subset_iff subsetD weak_map_of_SomeI map_of_SomeD fst_conv)

definition head_group :: "nat \<Rightarrow> char \<Rightarrow> regex \<Rightarrow> bool" where
  "head_group n c r =
     (case r of
        RSeq b ga \<Rightarrow> b = RBol \<and>
          (case ga of
             RSeq g a \<Rightarrow>
               (case g of RGroup m _ \<Rightarrow> m = n | _ \<Rightarrow> False) \<and> 0 < n \<and> n \<notin> set (groups a) \<and>
               (a = RChar c \<or> (case a of RSeq d _ \<Rightarrow> d = RChar c | _ \<Rightarrow> False))
           | _ \<Rightarrow> False)
      | _ \<Rightarrow> False)"

lemma head_group_Match:
  assumes "head_group n c (compiled p)" and "Match p s = Some m"
  shows "\<exists>v. s = grp m n @ c # v"
proof -
  from assms(1) obtain a b where r: "compiled p = RSeq RBol (RSeq (RGroup n a) b)" "0 < n" "n \<notin> set (groups b)"
    and b: "b = RChar c \<or> (\<exists>d. b = RSeq (RChar c) d)"
    by (auto simp: head_group_def split: regex.splits)
  from assms(2) obtain st where st: "st \<in> set (ml (compiled p) (MSt [] s []))" "m_caps m = caps st"
    by (rule Match_Some)
  from st(1) obtain u where u: "u \<in> set (ml a (MSt [] s []))" "st \<in> set (ml b (close_group n (MSt [] s []) u))"
    unfolding r(1) seq_mem(1) group_mem by blast
  from u(1) obtain t v k where t: "s = t @ v" "u = MSt (rev t @ []) v k" by (rule ml_parts)
  from grows_by_map_of [OF ml_grows [OF u(2)] r(3)] have "grp m n = t"
    using r(2) st(2) by (simp add: t grp_def group_def)
  moreover from u(2) b have "\<exists>w. v = c # w" by (auto simp: t step_char_Some)
  ultimately show ?thesis using t(1) by auto
qed

text \<open>The number of characters every match has at least, and the character every match ends with.\<close>

primrec consumes :: "regex \<Rightarrow> nat" where
  "consumes REmpty = 0"
| "consumes (RChar c) = 1"
| "consumes (RSet neg rs) = 1"
| "consumes RAny = 1"
| "consumes RBol = 0"
| "consumes REol = 0"
| "consumes RWordB = 0"
| "consumes (RSeq a b) = consumes a + consumes b"
| "consumes (RAlt a b) = min (consumes a) (consumes b)"
| "consumes (RRep g mn mx a) = (if mn = 0 then 0 else consumes a)"
| "consumes (RGroup n a) = consumes a"
| "consumes (RBack n) = 0"
| "consumes (RLook pos a) = 0"

lemma repl_first:
  "st' \<in> set (repl l g (Suc n) mn mx lst st) \<Longrightarrow> 0 < mn \<Longrightarrow>
    \<exists>u \<in> set (l st). st' \<in> set (repl l g n (mn - 1) (dec_max mx) lst u)"
  by auto

lemma ml_consumes: "st' \<in> set (ml r st) \<Longrightarrow> length (after st') + consumes r \<le> length (after st)"
proof (induction r arbitrary: st st')
  case (RRep g mn mx a)
  show ?case
  proof (cases "mn = 0")
    case True
    with ml_length [OF RRep.prems] show ?thesis by simp
  next
    case False
    from RRep.prems have "st' \<in> set (repl (ml a) g (Suc (mn + length (after st) + 1)) mn mx None st)"
      unfolding ml.simps by simp
    from repl_first [OF this] False obtain u where "u \<in> set (ml a st)"
        "st' \<in> set (repl (ml a) g (mn + length (after st) + 1) (mn - 1) (dec_max mx) None u)" by blast
    with RRep.IH [of u st] moves_length [OF repl_moves [OF ml_moves]] False show ?thesis by fastforce
  qed
next
  case (RSeq a b)
  from RSeq.prems obtain u where "u \<in> set (ml a st)" "st' \<in> set (ml b u)" by auto
  with RSeq.IH show ?case by fastforce
next
  case (RLook p a)
  then show ?case by (auto split: list.splits if_splits)
qed (fastforce simp: step_char_Some step_back_Some close_group_def split: if_splits)+

lemma Search_end:
  assumes "Search p s = Some m"
  shows "m_end m \<le> length s" and "consumes (compiled p) \<le> length (m_text m)"
proof -
  from assms obtain u v st where "s = u @ v" "st \<in> set (ml (compiled p) (MSt (rev u) v []))"
    "v = m_text m @ after st" "m_start m = length u" by (rule Search_Some)
  with ml_consumes [OF this(2)] arg_cong [OF this(3), of length] arg_cong [OF this(1), of length]
  show "m_end m \<le> length s" and "consumes (compiled p) \<le> length (m_text m)" by (simp_all add: m_end_def)
qed

primrec last_char :: "char \<Rightarrow> regex \<Rightarrow> bool" where
  "last_char c REmpty = False"
| "last_char c (RChar d) = (d = c)"
| "last_char c (RSet neg rs) = False"
| "last_char c RAny = False"
| "last_char c RBol = False"
| "last_char c REol = False"
| "last_char c RWordB = False"
| "last_char c (RSeq a b) = last_char c b"
| "last_char c (RAlt a b) = (last_char c a \<and> last_char c b)"
| "last_char c (RRep g mn mx a) = False"
| "last_char c (RGroup n a) = last_char c a"
| "last_char c (RBack n) = False"
| "last_char c (RLook pos a) = False"

lemma ml_last_char: "st' \<in> set (ml r st) \<Longrightarrow> last_char c r \<Longrightarrow> \<exists>b. before st' = c # b"
  by (induction r arbitrary: st st') (fastforce simp: step_char_Some close_group_def)+

lemma last_char_Match:
  assumes "last_char c (compiled p)" and "Match p s = Some m"
  shows "c \<in> set s"
proof -
  from assms(2) obtain st where st: "st \<in> set (ml (compiled p) (MSt [] s []))" "s = m_text m @ after st"
    "before st = rev (m_text m)" by (rule Match_Some)
  from ml_last_char [OF st(1) assms(1)] st(3) have "c \<in> set (m_text m)" by (metis list.set_intros(1) set_rev)
  with st(2) show ?thesis by (metis UnCI set_append)
qed

lemma last_char_Search:
  assumes "last_char c (compiled p)" and "Search p s = Some m"
  shows "c \<in> set s"
proof -
  from assms(2) obtain u v st where st: "s = u @ v" "st \<in> set (ml (compiled p) (MSt (rev u) v []))"
    "v = m_text m @ after st" by (rule Search_Some)
  from ml_last_char [OF st(2) assms(1)] obtain b where b: "before st = c # b" by blast
  from ml_moves [OF st(2)] have "rev (before st) @ after st = s" using st(1) by (auto simp: moves_def)
  with b show ?thesis by (metis UnCI append_assoc in_set_conv_decomp list.set_intros(1) set_append set_rev)
qed

text \<open>A group on the spine of a pattern: how many characters come before it at least.\<close>

primrec lead :: "nat \<Rightarrow> regex \<Rightarrow> nat option" where
  "lead n REmpty = None"
| "lead n (RChar c) = None"
| "lead n (RSet neg rs) = None"
| "lead n RAny = None"
| "lead n RBol = None"
| "lead n REol = None"
| "lead n RWordB = None"
| "lead n (RSeq a b) =
     (case lead n b of
        Some k \<Rightarrow> Some (consumes a + k)
      | None \<Rightarrow> if n \<in> set (groups b) then None else lead n a)"
| "lead n (RAlt a b) = None"
| "lead n (RRep g mn mx a) = None"
| "lead n (RGroup m a) = (if m = n then Some 0 else None)"
| "lead n (RBack m) = None"
| "lead n (RLook pos a) = None"

lemma ml_lead:
  "st' \<in> set (ml r st) \<Longrightarrow> lead n r = Some k \<Longrightarrow>
    \<exists>i t. map_of (caps st') n = Some (i, t) \<and> length t + k \<le> length (after st)"
proof (induction r arbitrary: st st' k)
  case (RSeq a b)
  from RSeq.prems(1) obtain u where u: "u \<in> set (ml a st)" "st' \<in> set (ml b u)" by auto
  show ?case
  proof (cases "lead n b")
    case None
    with RSeq.prems(2) have "n \<notin> set (groups b)" "lead n a = Some k" by (auto split: if_splits)
    with RSeq.IH(1) [OF u(1)] grows_by_map_of [OF ml_grows [OF u(2)]] show ?thesis by simp
  next
    case (Some j)
    with RSeq.IH(2) [OF u(2)] RSeq.prems(2) ml_consumes [OF u(1)] show ?thesis by fastforce
  qed
next
  case (RGroup m a)
  then show ?case by (auto simp: close_group_def split: if_splits)
qed auto

lemma lead_Match:
  assumes "lead n (compiled p) = Some k" and "0 < n" and "Match p s = Some m"
  shows "length (grp m n) + k \<le> length s"
proof -
  from assms(3) obtain st where st: "st \<in> set (ml (compiled p) (MSt [] s []))" "m_caps m = caps st"
    by (rule Match_Some)
  from ml_lead [OF st(1) assms(1)] st(2) assms(2) show ?thesis by (auto simp: grp_def group_def)
qed

text \<open>The texts of a pattern that is a choice of words, and of a group of this kind.\<close>

primrec literals :: "regex \<Rightarrow> string list option" where
  "literals REmpty = Some [[]]"
| "literals (RChar c) = Some [[c]]"
| "literals (RSet neg rs) = None"
| "literals RAny = None"
| "literals RBol = None"
| "literals REol = None"
| "literals RWordB = None"
| "literals (RSeq a b) =
     (case (literals a, literals b) of
        (Some us, Some vs) \<Rightarrow> Some (concat (map (\<lambda>u. map (\<lambda>v. u @ v) vs) us))
      | _ \<Rightarrow> None)"
| "literals (RAlt a b) =
     (case (literals a, literals b) of (Some us, Some vs) \<Rightarrow> Some (us @ vs) | _ \<Rightarrow> None)"
| "literals (RRep g mn mx a) = None"
| "literals (RGroup n a) = None"
| "literals (RBack n) = None"
| "literals (RLook pos a) = None"

lemma ml_literals:
  "st' \<in> set (ml r st) \<Longrightarrow> literals r = Some ts \<Longrightarrow> \<exists>t \<in> set ts. after st = t @ after st'"
proof (induction r arbitrary: st st' ts)
  case (RSeq a b)
  from RSeq.prems(1) obtain u where u: "u \<in> set (ml a st)" "st' \<in> set (ml b u)" by auto
  from RSeq.prems(2) obtain us vs where "literals a = Some us" "literals b = Some vs"
    "ts = concat (map (\<lambda>u. map (\<lambda>v. u @ v) vs) us)" by (auto split: option.splits)
  with RSeq.IH(1) [OF u(1)] RSeq.IH(2) [OF u(2)] show ?case by fastforce
next
  case (RAlt a b)
  from RAlt.prems(2) obtain us vs where "literals a = Some us" "literals b = Some vs" "ts = us @ vs"
    by (auto split: option.splits)
  with RAlt show ?case by fastforce
qed (auto simp: step_char_Some)

primrec group_texts :: "nat \<Rightarrow> regex \<Rightarrow> string list option" where
  "group_texts n REmpty = None"
| "group_texts n (RChar c) = None"
| "group_texts n (RSet neg rs) = None"
| "group_texts n RAny = None"
| "group_texts n RBol = None"
| "group_texts n REol = None"
| "group_texts n RWordB = None"
| "group_texts n (RSeq a b) =
     (case group_texts n b of
        Some ts \<Rightarrow> Some ts
      | None \<Rightarrow> if n \<in> set (groups b) then None else group_texts n a)"
| "group_texts n (RAlt a b) = None"
| "group_texts n (RRep g mn mx a) = None"
| "group_texts n (RGroup m a) = (if m = n then literals a else None)"
| "group_texts n (RBack m) = None"
| "group_texts n (RLook pos a) = None"

lemma ml_group_texts:
  "st' \<in> set (ml r st) \<Longrightarrow> group_texts n r = Some ts \<Longrightarrow> \<exists>i t. map_of (caps st') n = Some (i, t) \<and> t \<in> set ts"
proof (induction r arbitrary: st st')
  case (RSeq a b)
  from RSeq.prems(1) obtain u where u: "u \<in> set (ml a st)" "st' \<in> set (ml b u)" by auto
  show ?case
  proof (cases "group_texts n b")
    case None
    with RSeq.prems(2) have "n \<notin> set (groups b)" "group_texts n a = Some ts" by (auto split: if_splits)
    with RSeq.IH(1) [OF u(1)] grows_by_map_of [OF ml_grows [OF u(2)]] show ?thesis by simp
  next
    case (Some us)
    with RSeq.IH(2) [OF u(2)] RSeq.prems(2) show ?thesis by simp
  qed
next
  case (RGroup m a)
  from RGroup.prems obtain u where u: "u \<in> set (ml a st)" "st' = close_group m st u" by auto
  from RGroup.prems(2) have m: "m = n" "literals a = Some ts" by (auto split: if_splits)
  from ml_literals [OF u(1) m(2)] obtain t where "t \<in> set ts" "after st = t @ after u" by blast
  with u(2) m(1) show ?case by (simp add: close_group_def)
qed auto

lemma run_at_group_texts:
  assumes "run_at r b a = Some m" and "group_texts n r = Some ts" and "0 < n"
  shows "grp m n \<in> set ts"
proof -
  from assms(1) obtain st where "st \<in> set (ml r (MSt b a []))" "m_caps m = caps st"
    by (elim run_at_Some) (metis list.set_intros(1) that)
  with ml_group_texts [OF this(1) assms(2)] assms(3) show ?thesis by (auto simp: grp_def group_def)
qed

lemma Match_group_texts:
  "Match p s = Some m \<Longrightarrow> group_texts n (compiled p) = Some ts \<Longrightarrow> 0 < n \<Longrightarrow> grp m n \<in> set ts"
  unfolding Match_def re_match_def by (rule run_at_group_texts)

lemma scan_from_run: "m \<in> set (scan_from r b a skip) \<Longrightarrow> \<exists>b' a'. run_at r b' a' = Some m"
  by (induction r b a skip rule: scan_from.induct) (auto split: if_splits option.splits)

lemma finditer_group_texts:
  "m \<in> set (re_finditer r s) \<Longrightarrow> group_texts n r = Some ts \<Longrightarrow> 0 < n \<Longrightarrow> grp m n \<in> set ts"
  unfolding re_finditer_def by (auto dest!: scan_from_run intro: run_at_group_texts)

text \<open>The characters of every group are characters of the text.\<close>

definition chars_in :: "char set \<Rightarrow> mst \<Rightarrow> bool" where
  "chars_in C st \<longleftrightarrow> set (before st) \<subseteq> C \<and> set (after st) \<subseteq> C \<and> (\<forall>e \<in> set (caps st). set (snd (snd e)) \<subseteq> C)"

lemma repl_chars_in:
  assumes "\<And>st st'. st' \<in> set (l st) \<Longrightarrow> chars_in C st \<Longrightarrow> chars_in C st'"
  shows "st' \<in> set (repl l g n mn mx lst st) \<Longrightarrow> chars_in C st \<Longrightarrow> chars_in C st'"
proof (induction n arbitrary: mn mx lst st)
  case (Suc n)
  from Suc.prems(1) consider "st' = st"
    | u mn' mx' lst' where "u \<in> set (l st)" "st' \<in> set (repl l g n mn' mx' lst' u)" by (auto split: if_splits)
  then show ?case by cases (use Suc.prems(2) Suc.IH assms in blast)+
qed simp

lemma ml_chars_in: "st' \<in> set (ml r st) \<Longrightarrow> chars_in C st \<Longrightarrow> chars_in C st'"
proof (induction r arbitrary: st st')
  case (RSeq a b)
  from RSeq.prems(1) obtain u where "u \<in> set (ml a st)" "st' \<in> set (ml b u)" by auto
  with RSeq.IH RSeq.prems(2) show ?case by blast
next
  case (RAlt a b)
  from RAlt.prems(1) consider "st' \<in> set (ml a st)" | "st' \<in> set (ml b st)" by auto
  then show ?case by cases (use RAlt.IH RAlt.prems(2) in blast)+
next
  case (RRep g mn mx a)
  from RRep.prems show ?case unfolding ml.simps by (rule repl_chars_in [rotated]) (rule RRep.IH)
next
  case (RGroup n a)
  then obtain u where u: "u \<in> set (ml a st)" "st' = close_group n st u" by auto
  with RGroup.IH [OF u(1) RGroup.prems(2)] RGroup.prems(2) show ?case
    by (auto simp: close_group_def chars_in_def dest: in_set_takeD)
next
  case (RBack n)
  then obtain t cs where "after st = t @ cs" "st' = MSt (rev t @ before st) cs (caps st)" by (auto simp: step_back_Some)
  with RBack.prems(2) show ?case by (simp add: chars_in_def)
next
  case (RLook p a)
  show ?case
  proof (cases "ml a st")
    case (Cons u us)
    then have "chars_in C u" using RLook.IH [of u st] RLook.prems(2) by simp
    with Cons RLook.prems show ?thesis by (auto simp: chars_in_def split: if_splits)
  qed (use RLook.prems in \<open>auto split: if_splits\<close>)
qed (auto simp: step_char_Some chars_in_def split: if_splits)

lemma Match_group_chars: "Match p s = Some m \<Longrightarrow> set (grp m n) \<subseteq> set s"
proof -
  assume "Match p s = Some m"
  then obtain st where st: "st \<in> set (ml (compiled p) (MSt [] s []))" "m_caps m = caps st" "s = m_text m @ after st"
    unfolding Match_def re_match_def by (elim run_at_Some) (metis list.set_intros(1))
  have "chars_in (set s) st" by (rule ml_chars_in [OF st(1)]) (simp add: chars_in_def)
  then have "set t \<subseteq> set s" if "map_of (m_caps m) n = Some (i, t)" for i t
    using st(2) map_of_SomeD [OF that] by (fastforce simp: chars_in_def)
  moreover have "set (m_text m) \<subseteq> set s" by (subst st(3)) simp
  ultimately show ?thesis by (cases "map_of (m_caps m) n") (auto simp: grp_def group_def)
qed

text \<open>A pattern of characters, sets and repeated sets is a language: which texts it takes does not depend on what
  is around them, and it leaves the groups alone.\<close>

primrec plain_regex :: "regex \<Rightarrow> bool" where
  "plain_regex REmpty = True"
| "plain_regex (RChar c) = True"
| "plain_regex (RSet neg rs) = True"
| "plain_regex RAny = True"
| "plain_regex RBol = False"
| "plain_regex REol = False"
| "plain_regex RWordB = False"
| "plain_regex (RSeq a b) = (plain_regex a \<and> plain_regex b)"
| "plain_regex (RAlt a b) = (plain_regex a \<and> plain_regex b)"
| "plain_regex (RRep g mn mx a) = (mx = None \<and> (\<exists>neg rs. a = RSet neg rs))"
| "plain_regex (RGroup n a) = False"
| "plain_regex (RBack n) = False"
| "plain_regex (RLook pos a) = False"

definition takes :: "regex \<Rightarrow> (string \<Rightarrow> bool) \<Rightarrow> bool" where
  "takes r L \<longleftrightarrow> (\<forall>p s k st'. st' \<in> set (ml r (MSt p s k)) \<longleftrightarrow>
     (\<exists>t v. s = t @ v \<and> L t \<and> st' = MSt (rev t @ p) v k))"

lemma plain_takes: "plain_regex r \<Longrightarrow> \<exists>L. takes r L"
proof (induction r)
  case REmpty
  show ?case by (rule exI [of _ "\<lambda>t. t = []"]) (simp add: takes_def)
next
  case (RChar c)
  show ?case by (rule exI [of _ "\<lambda>t. t = [c]"]) (auto simp: takes_def step_char_Some)
next
  case (RSet neg rs)
  show ?case by (rule exI [of _ "\<lambda>t. \<exists>c. t = [c] \<and> in_set neg rs c"]) (fastforce simp: takes_def step_char_Some)
next
  case RAny
  show ?case by (rule exI [of _ "\<lambda>t. \<exists>c. t = [c] \<and> c \<noteq> nl"]) (fastforce simp: takes_def step_char_Some)
next
  case (RSeq a b)
  then obtain A B where AB: "takes a A" "takes b B" by auto
  have "st' \<in> set (ml (RSeq a b) (MSt p s k)) \<longleftrightarrow>
      (\<exists>t v. s = t @ v \<and> (\<exists>x y. t = x @ y \<and> A x \<and> B y) \<and> st' = MSt (rev t @ p) v k)" for p s k st'
  proof -
    have "st' \<in> set (ml (RSeq a b) (MSt p s k)) \<longleftrightarrow> (\<exists>x v. s = x @ v \<and> A x \<and> st' \<in> set (ml b (MSt (rev x @ p) v k)))"
      using AB(1) unfolding takes_def mem_seq by auto
    also have "\<dots> \<longleftrightarrow> (\<exists>x y v. s = x @ y @ v \<and> A x \<and> B y \<and> st' = MSt (rev y @ rev x @ p) v k)"
      using AB(2) unfolding takes_def by auto
    also have "\<dots> \<longleftrightarrow> (\<exists>t v. s = t @ v \<and> (\<exists>x y. t = x @ y \<and> A x \<and> B y) \<and> st' = MSt (rev t @ p) v k)"
      by (metis append_assoc rev_append)
    finally show ?thesis .
  qed
  then show ?case by (intro exI [of _ "\<lambda>t. \<exists>x y. t = x @ y \<and> A x \<and> B y"]) (simp add: takes_def)
next
  case (RAlt a b)
  then obtain A B where "takes a A" "takes b B" by auto
  then show ?case by (intro exI [of _ "\<lambda>t. A t \<or> B t"]) (auto simp: takes_def)
next
  case (RRep g mn mx a)
  then obtain neg rs where a: "mx = None" "a = RSet neg rs" by auto
  show ?case unfolding a
    by (rule exI [of _ "\<lambda>t. list_all (in_set neg rs) t \<and> mn \<le> length t"]) (simp add: takes_def mem_rep_set)
qed simp_all

section \<open>The cache never changes an answer\<close>

definition coherent :: "regexp_cache \<Rightarrow> bool" where
  "coherent cache \<longleftrightarrow> (\<forall>p r. cache p = Some r \<longrightarrow> re_compile p = Some r)"

lemma coherent_empty: "coherent Map.empty"
  by (simp add: coherent_def)

lemma cache_compile_coherent:
  assumes "coherent cache"
  shows "cache_compile cache p =
    (case re_compile p of None \<Rightarrow> Inl ReError | Some r \<Rightarrow> Inr (r, cache(p \<mapsto> r)))"
  using assms by (auto simp: cache_compile_def coherent_def map_upd_triv split: option.splits)

locale cached_entry =
  fixes call :: "string \<Rightarrow> string \<Rightarrow> (regexp_cache, 'r) py"
    and run :: "regex \<Rightarrow> string \<Rightarrow> 'r"
  assumes call: "call p s cache = bind_r (cache_compile cache p) (\<lambda>(r, c). Inr (run r s, c))"
begin

lemma answer:
  "coherent cache \<Longrightarrow> re_compile p = Some r \<Longrightarrow> call p s cache = Inr (run r s, cache(p \<mapsto> r))"
  by (simp add: call cache_compile_coherent)

lemma answer_error: "coherent cache \<Longrightarrow> re_compile p = None \<Longrightarrow> call p s cache = Inl ReError"
  by (simp add: call cache_compile_coherent)

lemma keeps_coherent [keeps_intros]: "keeps coherent (call p s)"
proof (rule keepsI)
  fix c a c'
  assume "coherent c" and "call p s c = Inr (a, c')"
  then show "coherent c'"
    by (auto simp: call cache_compile_coherent coherent_def split: option.splits if_splits)
qed

lemma uncached: "coherent cache \<Longrightarrow> map_sum id fst (call p s cache) = map_sum id fst (call p s Map.empty)"
  by (cases "re_compile p") (simp_all add: answer answer_error coherent_empty)

end

interpretation match_entry: cached_entry Match_cached re_match
  by unfold_locales (simp add: Match_cached_def)

interpretation search_entry: cached_entry Search_cached re_search
  by unfold_locales (simp add: Search_cached_def)

interpretation replace_entry: cached_entry "\<lambda>p. ReplaceAll_cached p rp" "\<lambda>r. re_sub r (\<lambda>_. rp)" for rp
  by unfold_locales (simp add: ReplaceAll_cached_def)

text \<open>Any sequence of calls, in any order, answers as the uncached entry points do.\<close>

datatype regexp_call = CallMatch string string | CallSearch string string | CallReplace string string string

datatype regexp_answer = Found "mobj option" | Text string

fun call_cached :: "regexp_call \<Rightarrow> (regexp_cache, regexp_answer) py" where
  "call_cached (CallMatch p s) = andthen (Match_cached p s) (\<lambda>m. ret (Found m))"
| "call_cached (CallSearch p s) = andthen (Search_cached p s) (\<lambda>m. ret (Found m))"
| "call_cached (CallReplace p rp s) = andthen (ReplaceAll_cached p rp s) (\<lambda>t. ret (Text t))"

fun call_plain :: "regexp_call \<Rightarrow> regexp_answer" where
  "call_plain (CallMatch p s) = Found (Match p s)"
| "call_plain (CallSearch p s) = Found (Search p s)"
| "call_plain (CallReplace p rp s) = Text (ReplaceAll p rp s)"

fun call_pattern :: "regexp_call \<Rightarrow> string" where
  "call_pattern (CallMatch p s) = p"
| "call_pattern (CallSearch p s) = p"
| "call_pattern (CallReplace p rp s) = p"

fun run_calls :: "regexp_call list \<Rightarrow> (regexp_cache, regexp_answer list) py" where
  "run_calls [] = ret []"
| "run_calls (c # cs) = andthen (call_cached c) (\<lambda>a. andthen (run_calls cs) (\<lambda>as. ret (a # as)))"

lemma call_cached_plain:
  assumes "coherent cache" and "re_compile (call_pattern c) = Some r"
  shows "call_cached c cache = Inr (call_plain c, cache(call_pattern c \<mapsto> r))"
  using assms
  by (cases c) (simp_all add: andthen_def ret_def match_entry.answer search_entry.answer
      replace_entry.answer Match_def Search_def ReplaceAll_def compiled_def)

lemma coherent_upd: "coherent cache \<Longrightarrow> re_compile p = Some r \<Longrightarrow> coherent (cache(p \<mapsto> r))"
  by (simp add: coherent_def)

lemma run_calls_coherent:
  assumes "coherent cache" and "\<forall>c \<in> set cs. re_compile (call_pattern c) \<noteq> None"
  shows "\<exists>cache'. coherent cache' \<and> run_calls cs cache = Inr (map call_plain cs, cache')"
  using assms
proof (induction cs arbitrary: cache)
  case (Cons c cs)
  from Cons.prems(2) obtain r where r: "re_compile (call_pattern c) = Some r" by auto
  with Cons.prems(1) have "coherent (cache(call_pattern c \<mapsto> r))"
    by (rule coherent_upd)
  with Cons.IH Cons.prems(2) obtain cache' where "coherent cache'"
    "run_calls cs (cache(call_pattern c \<mapsto> r)) = Inr (map call_plain cs, cache')"
    by force
  then show ?case
    using call_cached_plain [OF Cons.prems(1) r] by (auto simp: andthen_def ret_def)
qed (simp add: ret_def)

section \<open>Properties\<close>

text \<open>C22: starting from the empty cache, every sequence of \<open>Match\<close>, \<open>Search\<close> and \<open>ReplaceAll\<close> calls
  on well-formed patterns succeeds and returns exactly what compiling the pattern afresh for each
  call returns; sharing \<open>_regexp_compile_cache\<close> between the three functions is unobservable.\<close>

theorem cache_transparent:
  assumes "\<forall>c \<in> set cs. re_compile (call_pattern c) \<noteq> None"
  shows "\<exists>cache. run_calls cs Map.empty = Inr (map call_plain cs, cache)"
  using run_calls_coherent [OF coherent_empty assms] by blast

theorem cache_transparent_witness:
  "\<exists>cache. run_calls
     [CallSearch (rx ''`bVLOG`('') ''x VLOG(1)'', CallMatch (rx ''`s*#'') ''  #if'',
      CallReplace (rx '' *<'') ''<'' ''vector <int>'', CallSearch (rx ''`s*#'') ''a #b''] Map.empty =
     Inr (map call_plain
     [CallSearch (rx ''`bVLOG`('') ''x VLOG(1)'', CallMatch (rx ''`s*#'') ''  #if'',
      CallReplace (rx '' *<'') ''<'' ''vector <int>'', CallSearch (rx ''`s*#'') ''a #b''], cache)"
proof (rule cache_transparent)
  have "re_compile (rx ''`bVLOG`('') \<noteq> None" "re_compile (rx ''`s*#'') \<noteq> None"
    "re_compile (rx '' *<'') \<noteq> None"
    by code_simp+
  then show "\<forall>c \<in> set [CallSearch (rx ''`bVLOG`('') ''x VLOG(1)'', CallMatch (rx ''`s*#'') ''  #if'',
      CallReplace (rx '' *<'') ''<'' ''vector <int>'', CallSearch (rx ''`s*#'') ''a #b''].
      re_compile (call_pattern c) \<noteq> None"
    by simp
qed

lemma ReplaceAll_id: "\<not> found p s \<Longrightarrow> ReplaceAll p rp s = s"
  by (simp add: ReplaceAll_def Search_def re_sub_id)

end
