(* ===== verification/Lint_State.thy ===== *)
theory Lint_State
  imports Regexp_Cache
begin

text \<open>
  The module-wide state of \<open>cpplint.py\<close> and everything that decides whether an error is printed:
  the class \<open>_CppLintState\<close> (verbosity, filters, counters, output format), the NOLINT suppressions
  (\<open>_error_suppressions\<close>, \<open>_global_error_suppressions\<close>), \<open>_ShouldPrintError\<close> and \<open>Error\<close>.  The record
  \<open>lint\<close> holds the module's global variables; \<open>stderr\<close> collects what is written to standard error.
  An error handler has type \<open>error_fn\<close>; \<open>Error\<close> is the one the program installs.
\<close>

section \<open>Constants\<close>

definition ERROR_CATEGORIES :: "string list" where
  "ERROR_CATEGORIES =
     [''build/class'', ''build/c++11'', ''build/c++14'', ''build/c++tr1'', ''build/deprecated'',
      ''build/endif_comment'', ''build/explicit_make_pair'', ''build/forward_decl'',
      ''build/header_guard'', ''build/include'', ''build/include_alpha'', ''build/include_order'',
      ''build/include_what_you_use'', ''build/namespaces'', ''build/printf_format'',
      ''build/storage_class'', ''legal/copyright'', ''readability/alt_tokens'',
      ''readability/braces'', ''readability/casting'', ''readability/check'',
      ''readability/constructors'', ''readability/fn_size'', ''readability/inheritance'',
      ''readability/multiline_comment'', ''readability/multiline_string'',
      ''readability/namespace'', ''readability/nolint'', ''readability/nul'',
      ''readability/strings'', ''readability/todo'', ''readability/utf8'', ''runtime/arrays'',
      ''runtime/casting'', ''runtime/explicit'', ''runtime/int'', ''runtime/init'',
      ''runtime/invalid_increment'', ''runtime/member_string_references'', ''runtime/memset'',
      ''runtime/indentation_namespace'', ''runtime/operator'', ''runtime/printf'',
      ''runtime/printf_format'', ''runtime/references'', ''runtime/string'',
      ''runtime/threadsafe_fn'', ''runtime/vlog'', ''whitespace/blank_line'',
      ''whitespace/braces'', ''whitespace/comma'', ''whitespace/comments'',
      ''whitespace/empty_conditional_body'', ''whitespace/empty_if_body'',
      ''whitespace/empty_loop_body'', ''whitespace/end_of_line'', ''whitespace/ending_newline'',
      ''whitespace/forcolon'', ''whitespace/indent'', ''whitespace/line_length'',
      ''whitespace/newline'', ''whitespace/operators'', ''whitespace/parens'',
      ''whitespace/semicolon'', ''whitespace/tab'', ''whitespace/todo'']"

definition LEGACY_ERROR_CATEGORIES :: "string list" where
  "LEGACY_ERROR_CATEGORIES = [''readability/streams'', ''readability/function'']"

definition DEFAULT_FILTERS :: "string list" where
  "DEFAULT_FILTERS = [''-build/include_alpha'']"

definition DEFAULT_C_SUPPRESSED_CATEGORIES :: "string list" where
  "DEFAULT_C_SUPPRESSED_CATEGORIES = [''readability/casting'']"

definition DEFAULT_KERNEL_SUPPRESSED_CATEGORIES :: "string list" where
  "DEFAULT_KERNEL_SUPPRESSED_CATEGORIES = [''whitespace/tab'']"

definition SEARCH_C_FILE :: string where
  "SEARCH_C_FILE = rx ''`b(?:LINT_C_FILE|vim?:`s*.*(`s*|:)filetype=c(`s*|:|$))''"

definition SEARCH_KERNEL_FILE :: string where
  "SEARCH_KERNEL_FILE = rx ''`b(?:LINT_KERNEL_FILE)''"

section \<open>State\<close>

record cpplint_state =
  verbose_level :: int
  error_count :: int
  filters :: "string list"
  filters_backup :: "string list"
  counting :: string
  errors_by_category :: "(string \<times> int) list"
  output_format :: string

definition init_cpplint_state :: cpplint_state where
  "init_cpplint_state =
     \<lparr>verbose_level = 1, error_count = 0, filters = DEFAULT_FILTERS, filters_backup = DEFAULT_FILTERS,
      counting = ''total'', errors_by_category = [], output_format = ''emacs''\<rparr>"

record lint =
  state :: cpplint_state
  error_suppressions :: "string option \<rightharpoonup> int set"
  global_error_suppressions :: "string \<rightharpoonup> bool"
  root :: "string option"
  line_length :: int
  valid_extensions :: "string list"
  stderr :: "string list"

definition init_lint :: lint where
  "init_lint =
     \<lparr>state = init_cpplint_state, error_suppressions = Map.empty, global_error_suppressions = Map.empty,
      root = None, line_length = 80, valid_extensions = [''cc'', ''h'', ''cpp'', ''cu'', ''cuh''],
      stderr = []\<rparr>"

type_synonym error_fn = "string \<Rightarrow> int \<Rightarrow> string \<Rightarrow> int \<Rightarrow> string \<Rightarrow> (lint, unit) py"

section \<open>Methods of \<open>_CppLintState\<close>\<close>

definition SetOutputFormat :: "string \<Rightarrow> cpplint_state \<Rightarrow> cpplint_state" where
  "SetOutputFormat fmt st = st\<lparr>output_format := fmt\<rparr>"

definition SetVerboseLevel :: "int \<Rightarrow> cpplint_state \<Rightarrow> int \<times> cpplint_state" where
  "SetVerboseLevel level st = (verbose_level st, st\<lparr>verbose_level := level\<rparr>)"

definition SetCountingStyle :: "string \<Rightarrow> cpplint_state \<Rightarrow> cpplint_state" where
  "SetCountingStyle style st = st\<lparr>counting := style\<rparr>"

definition signed_filter :: "string \<Rightarrow> bool" where
  "signed_filter f \<longleftrightarrow> startswith f ''+'' \<or> startswith f ''-''"

definition bad_filter_error :: "string \<Rightarrow> py_error" where
  "bad_filter_error f =
     ValueError (msg_of [''Every filter in --filters must start with + or - ('', f, '' does not)''])"

definition AddFilters :: "string \<Rightarrow> cpplint_state \<Rightarrow> cpplint_state result" where
  "AddFilters fs st =
     (let clean = filter (\<lambda>f. f \<noteq> []) (map strip_bytes (split_str fs '','')); all = filters st @ clean
      in case find (\<lambda>f. \<not> signed_filter f) all of
           Some f \<Rightarrow> Inl (bad_filter_error f)
         | None \<Rightarrow> Inr (st\<lparr>filters := all\<rparr>))"

definition SetFilters :: "string \<Rightarrow> cpplint_state \<Rightarrow> cpplint_state result" where
  "SetFilters fs st = AddFilters fs (st\<lparr>filters := DEFAULT_FILTERS\<rparr>)"

definition BackupFilters :: "cpplint_state \<Rightarrow> cpplint_state" where
  "BackupFilters st = st\<lparr>filters_backup := filters st\<rparr>"

definition RestoreFilters :: "cpplint_state \<Rightarrow> cpplint_state" where
  "RestoreFilters st = st\<lparr>filters := filters_backup st\<rparr>"

definition ResetErrorCounts :: "cpplint_state \<Rightarrow> cpplint_state" where
  "ResetErrorCounts st = st\<lparr>error_count := 0, errors_by_category := []\<rparr>"

text \<open>\<open>d[k] += 1\<close> on a dictionary that gets \<open>k\<close> with the value 0 first where it has none.\<close>

fun bump :: "string \<Rightarrow> (string \<times> int) list \<Rightarrow> (string \<times> int) list" where
  "bump k [] = [(k, 1)]"
| "bump k ((k', n) # d) = (if k = k' then (k', n + 1) # d else (k', n) # bump k d)"

definition toplevel_category :: "string \<Rightarrow> string" where
  "toplevel_category c = hd (split_str c ''/'')"

definition by_category :: "string \<Rightarrow> bool" where
  "by_category mode \<longleftrightarrow> mode \<in> {''toplevel'', ''detailed''}"

definition IncrementErrorCount :: "string \<Rightarrow> cpplint_state \<Rightarrow> cpplint_state" where
  "IncrementErrorCount category st =
     (let st = st\<lparr>error_count := error_count st + 1\<rparr>
      in if by_category (counting st)
         then let c = (if counting st \<noteq> ''detailed'' then toplevel_category category else category)
              in st\<lparr>errors_by_category := bump c (errors_by_category st)\<rparr>
         else st)"

definition PrintErrorCounts :: "cpplint_state \<Rightarrow> string list" where
  "PrintErrorCounts st =
     map (\<lambda>(category, n). ''Category '' @ [squote] @ category @ [squote] @ '' errors found: ''
            @ show_int n @ [nl]) (errors_by_category st)
     @ [''Total errors found: '' @ show_int (error_count st) @ [nl]]"

section \<open>The state as the program's functions see it\<close>

definition write_stderr :: "string \<Rightarrow> (lint, unit) py" where
  "write_stderr t = modify (\<lambda>s. s\<lparr>stderr := stderr s @ [t]\<rparr>)"

definition on_state :: "(cpplint_state \<Rightarrow> cpplint_state result) \<Rightarrow> (lint, unit) py" where
  "on_state f = (\<lambda>s. bind_r (f (state s)) (\<lambda>st. Inr ((), s\<lparr>state := st\<rparr>)))"

section \<open>NOLINT suppressions\<close>

definition add_suppression :: "string option \<Rightarrow> int \<Rightarrow> lint \<Rightarrow> lint" where
  "add_suppression category linenum s =
     s\<lparr>error_suppressions := (error_suppressions s)(category \<mapsto>
        insert linenum (case error_suppressions s category of None \<Rightarrow> {} | Some ls \<Rightarrow> ls))\<rparr>"

definition NOLINT_PATTERN :: string where
  "NOLINT_PATTERN = rx ''`bNOLINT(NEXTLINE)?`b(`([^)]+`))?''"

definition ParseNolintSuppressions :: "string \<Rightarrow> string \<Rightarrow> int \<Rightarrow> error_fn \<Rightarrow> (lint, unit) py" where
  "ParseNolintSuppressions filename raw_line linenum error =
     (case Search NOLINT_PATTERN raw_line of
        None \<Rightarrow> pass
      | Some matched \<Rightarrow>
          let suppressed_line = (if grp matched 1 \<noteq> [] then linenum + 1 else linenum)
          in case group matched 2 of
               None \<Rightarrow> modify (add_suppression None suppressed_line)
             | Some category \<Rightarrow>
                 if category = ''(*)'' then modify (add_suppression None suppressed_line)
                 else if startswith category ''('' \<and> endswith category '')'' then
                   (let category = py_slice category 1 (-1)
                    in if category \<in> set ERROR_CATEGORIES
                       then modify (add_suppression (Some category) suppressed_line)
                       else if category \<notin> set LEGACY_ERROR_CATEGORIES
                       then error filename linenum ''readability/nolint'' 5
                              (msg_of [''Unknown NOLINT error category: '', category])
                       else pass)
                 else pass)"

definition suppress_globally :: "string list \<Rightarrow> lint \<Rightarrow> lint" where
  "suppress_globally cats s =
     s\<lparr>global_error_suppressions := foldl (\<lambda>m c. m(c \<mapsto> True)) (global_error_suppressions s) cats\<rparr>"

definition ProcessGlobalSuppresions :: "string list \<Rightarrow> (lint, unit) py" where
  "ProcessGlobalSuppresions lines =
     for_each lines (\<lambda>line.
       seq (do_when (found SEARCH_C_FILE line) (modify (suppress_globally DEFAULT_C_SUPPRESSED_CATEGORIES)))
           (do_when (found SEARCH_KERNEL_FILE line)
              (modify (suppress_globally DEFAULT_KERNEL_SUPPRESSED_CATEGORIES))))"

definition ResetNolintSuppressions :: "lint \<Rightarrow> lint" where
  "ResetNolintSuppressions s =
     s\<lparr>error_suppressions := Map.empty, global_error_suppressions := Map.empty\<rparr>"

definition suppressed_lines :: "lint \<Rightarrow> string option \<Rightarrow> int set" where
  "suppressed_lines s category =
     (case error_suppressions s category of None \<Rightarrow> {} | Some ls \<Rightarrow> ls)"

definition IsErrorSuppressedByNolint :: "string \<Rightarrow> int \<Rightarrow> lint \<Rightarrow> bool" where
  "IsErrorSuppressedByNolint category linenum s \<longleftrightarrow>
     global_error_suppressions s category = Some True
     \<or> linenum \<in> suppressed_lines s (Some category)
     \<or> linenum \<in> suppressed_lines s None"

section \<open>Printing an error\<close>

fun filter_loop :: "string \<Rightarrow> string list \<Rightarrow> bool \<Rightarrow> bool result" where
  "filter_loop category [] is_filtered = Inr is_filtered"
| "filter_loop category (one_filter # fs) is_filtered =
     (if startswith one_filter ''-''
      then filter_loop category fs (is_filtered \<or> startswith category (drop 1 one_filter))
      else if startswith one_filter ''+''
      then filter_loop category fs (is_filtered \<and> \<not> startswith category (drop 1 one_filter))
      else Inl AssertionError)"

definition ShouldPrintError :: "string \<Rightarrow> int \<Rightarrow> int \<Rightarrow> lint \<Rightarrow> bool result" where
  "ShouldPrintError category confidence linenum s =
     (if IsErrorSuppressedByNolint category linenum s then Inr False
      else if confidence < verbose_level (state s) then Inr False
      else bind_r (filter_loop category (filters (state s)) False) (\<lambda>is_filtered. Inr (\<not> is_filtered)))"

definition error_text :: "string \<Rightarrow> string \<Rightarrow> int \<Rightarrow> string \<Rightarrow> int \<Rightarrow> string \<Rightarrow> string" where
  "error_text fmt filename linenum category confidence message =
     (if fmt = ''vs7''
      then msg_of [filename, ''('', show_int linenum, ''):  '', message, ''  ['', category, ''] ['', show_int confidence, '']'', [nl]]
      else if fmt = ''eclipse''
      then msg_of [filename, '':'', show_int linenum, '': warning: '', message, ''  ['', category, ''] ['', show_int confidence, '']'', [nl]]
      else msg_of [filename, '':'', show_int linenum, '':  '', message, ''  ['', category, ''] ['', show_int confidence, '']'', [nl]])"

definition Error :: error_fn where
  "Error filename linenum category confidence message =
     andthen (\<lambda>s. bind_r (ShouldPrintError category confidence linenum s) (\<lambda>b. Inr (b, s))) (\<lambda>b.
       do_when b
         (seq (on_state (\<lambda>st. Inr (IncrementErrorCount category st)))
           (andthen (gets (\<lambda>s. output_format (state s))) (\<lambda>fmt.
             write_stderr (error_text fmt filename linenum category confidence message)))))"

section \<open>Filters\<close>

text \<open>The reference meaning of a filter list: the last filter whose text is a prefix of the category
  decides, and with none the category is printed.\<close>

definition filter_verdict :: "string \<Rightarrow> string list \<Rightarrow> bool" where
  "filter_verdict category fs =
     (case find (\<lambda>f. startswith category (drop 1 f)) (rev fs) of
        None \<Rightarrow> False
      | Some f \<Rightarrow> startswith f ''-'')"

lemma signed_filter_cases:
  assumes "signed_filter f"
  obtains (plus) g where "f = CHR ''+'' # g" | (minus) g where "f = CHR ''-'' # g"
  using assms by (cases f) (auto simp: signed_filter_def)

lemma filter_loop_verdict:
  "list_all signed_filter fs \<Longrightarrow>
    filter_loop category fs b =
      Inr (case find (\<lambda>f. startswith category (drop 1 f)) (rev fs) of
             None \<Rightarrow> b | Some f \<Rightarrow> startswith f ''-'')"
proof (induction fs arbitrary: b)
  case (Cons f fs)
  then have "signed_filter f" by simp
  then show ?case
    by (cases rule: signed_filter_cases)
      (use Cons in \<open>auto simp: find_append split: option.splits\<close>)
qed simp

lemma ShouldPrintError_signed:
  assumes "list_all signed_filter (filters (state s))"
  shows "ShouldPrintError category confidence linenum s =
    Inr (\<not> IsErrorSuppressedByNolint category linenum s \<and> verbose_level (state s) \<le> confidence
       \<and> \<not> filter_verdict category (filters (state s)))"
  using filter_loop_verdict [OF assms]
  by (auto simp: ShouldPrintError_def filter_verdict_def)

definition filter_items :: "string \<Rightarrow> string list" where
  "filter_items fs = filter (\<lambda>f. f \<noteq> []) (map strip_bytes (split_str fs '',''))"

lemma AddFilters_cases:
  "AddFilters fs st =
     (if list_all signed_filter (filters st @ filter_items fs)
      then Inr (st\<lparr>filters := filters st @ filter_items fs\<rparr>)
      else Inl (bad_filter_error (the (find (\<lambda>f. \<not> signed_filter f) (filters st @ filter_items fs)))))"
proof -
  have "list_all signed_filter xs \<longleftrightarrow> find (\<lambda>f. \<not> signed_filter f) xs = None" for xs
    by (induction xs) auto
  then show ?thesis
    by (simp add: AddFilters_def filter_items_def Let_def del: list_all_append split: option.splits)
qed

lemma default_filters_signed: "list_all signed_filter DEFAULT_FILTERS"
  by (simp add: DEFAULT_FILTERS_def signed_filter_def)

section \<open>The invariant of the module state\<close>

text \<open>Every filter is signed, the counter is not negative, and where errors are counted by category
  the categories are distinct and their counts add up to the total.\<close>

definition counts_ok :: "cpplint_state \<Rightarrow> bool" where
  "counts_ok st \<longleftrightarrow>
     0 \<le> error_count st \<and> distinct (map fst (errors_by_category st))
     \<and> list_all (\<lambda>e. 0 < snd e) (errors_by_category st)
     \<and> (by_category (counting st) \<longrightarrow>
          sum_list (map snd (errors_by_category st)) = error_count st)"

definition lint_ok :: "lint \<Rightarrow> bool" where
  "lint_ok s \<longleftrightarrow> counts_ok (state s) \<and> list_all signed_filter (filters (state s))
     \<and> list_all signed_filter (filters_backup (state s))"

lemma bump_keys: "set (map fst (bump k d)) = insert k (set (map fst d))"
  by (induction k d rule: bump.induct) (simp_all add: insert_commute)

lemma bump_distinct: "distinct (map fst d) \<Longrightarrow> distinct (map fst (bump k d))"
proof (induction k d rule: bump.induct)
  case (2 k k' n d)
  then show ?case using bump_keys [of k d] by auto
qed simp

lemma bump_sum: "sum_list (map snd (bump k d)) = sum_list (map snd d) + 1"
  by (induction d) auto

lemma bump_pos: "list_all (\<lambda>e. 0 < snd e) d \<Longrightarrow> list_all (\<lambda>e. 0 < snd e) (bump k d)"
  by (induction k d rule: bump.induct) simp_all

lemma IncrementErrorCount_eq:
  "IncrementErrorCount c st = st\<lparr>error_count := error_count st + 1,
     errors_by_category := (if by_category (counting st)
       then bump (if counting st \<noteq> ''detailed'' then toplevel_category c else c) (errors_by_category st)
       else errors_by_category st)\<rparr>"
  by (simp add: IncrementErrorCount_def Let_def)

lemma IncrementErrorCount_ok: "counts_ok st \<Longrightarrow> counts_ok (IncrementErrorCount c st)"
  unfolding counts_ok_def IncrementErrorCount_eq
  by (cases "by_category (counting st)") (simp_all add: bump_distinct bump_sum bump_pos)

lemma IncrementErrorCount_simps [simp]:
  "error_count (IncrementErrorCount c st) = error_count st + 1"
  "filters (IncrementErrorCount c st) = filters st"
  "filters_backup (IncrementErrorCount c st) = filters_backup st"
  "verbose_level (IncrementErrorCount c st) = verbose_level st"
  "counting (IncrementErrorCount c st) = counting st"
  "output_format (IncrementErrorCount c st) = output_format st"
  by (simp_all add: IncrementErrorCount_def Let_def)

definition printed :: "string \<Rightarrow> int \<Rightarrow> string \<Rightarrow> int \<Rightarrow> string \<Rightarrow> lint \<Rightarrow> lint" where
  "printed filename linenum category confidence message s =
     s\<lparr>state := IncrementErrorCount category (state s),
       stderr := stderr s @ [error_text (output_format (state s)) filename linenum category confidence message]\<rparr>"

lemma Error_run:
  "Error filename linenum category confidence message s =
     bind_r (ShouldPrintError category confidence linenum s)
       (\<lambda>b. Inr ((), if b then printed filename linenum category confidence message s else s))"
proof (cases "ShouldPrintError category confidence linenum s")
  case (Inr b)
  then show ?thesis
    by (cases b) (simp_all add: Error_def printed_def on_state_def write_stderr_def py_defs)
qed (simp add: Error_def andthen_def)

lemma printed_ok: "lint_ok s \<Longrightarrow> lint_ok (printed f l c conf msg s)"
  by (simp add: lint_ok_def printed_def IncrementErrorCount_ok)

lemma Error_total:
  assumes "lint_ok s"
  shows "\<exists>s'. Error f l c conf msg s = Inr ((), s') \<and> lint_ok s'"
proof -
  from assms have "list_all signed_filter (filters (state s))"
    by (simp add: lint_ok_def)
  with assms printed_ok show ?thesis
    by (simp add: Error_run ShouldPrintError_signed)
qed

lemma Error_keeps_ok [keeps_intros]: "keeps lint_ok (Error f l c conf msg)"
proof (rule keepsI)
  fix s a s'
  assume "lint_ok s" and run: "Error f l c conf msg s = Inr (a, s')"
  from Error_total [OF this(1)] obtain t where "Error f l c conf msg s = Inr ((), t)" "lint_ok t"
    by blast
  with run show "lint_ok s'" by simp
qed

section \<open>Suppression: frame lemmas\<close>

lemma suppressed_add [simp]:
  "suppressed_lines (add_suppression c l s) c' = (if c' = c then insert l (suppressed_lines s c) else suppressed_lines s c')"
  by (simp add: add_suppression_def suppressed_lines_def)

lemma add_suppression_simps [simp]:
  "state (add_suppression c l s) = state s" "stderr (add_suppression c l s) = stderr s"
  "global_error_suppressions (add_suppression c l s) = global_error_suppressions s"
  "root (add_suppression c l s) = root s" "line_length (add_suppression c l s) = line_length s"
  "valid_extensions (add_suppression c l s) = valid_extensions s"
  by (simp_all add: add_suppression_def)

lemma lint_ok_add_suppression [simp]: "lint_ok (add_suppression c l s) = lint_ok s"
  by (simp add: lint_ok_def)

lemma IsErrorSuppressed_add:
  "IsErrorSuppressedByNolint c l (add_suppression cat n s) \<longleftrightarrow>
     IsErrorSuppressedByNolint c l s \<or> (l = n \<and> (cat = None \<or> cat = Some c))"
  by (auto simp: IsErrorSuppressedByNolint_def)

section \<open>The contract of an error handler\<close>

text \<open>A check reports a category of the documented list with a confidence from 0 to 5; a handler that
  accepts such reports returns normally and keeps an invariant of the module state.  The checks are
  proved against this contract; \<open>Error\<close> meets it for the invariant \<open>lint_ok\<close>, and for the
  statement that only reports of documented categories are written.\<close>

definition listed :: "string \<Rightarrow> bool" where
  "listed c \<longleftrightarrow> c \<in> set ERROR_CATEGORIES"

lemma listed_all: "list_all listed ERROR_CATEGORIES"
  by (simp add: list_all_iff listed_def [abs_def])

lemma listed_categories [simp]:
  "listed ''build/class''" "listed ''build/c++11''" "listed ''build/c++14''" "listed ''build/c++tr1''"
  "listed ''build/deprecated''" "listed ''build/endif_comment''" "listed ''build/explicit_make_pair''"
  "listed ''build/forward_decl''" "listed ''build/header_guard''" "listed ''build/include''" "listed
  ''build/include_alpha''" "listed ''build/include_order''" "listed ''build/include_what_you_use''"
  "listed ''build/namespaces''" "listed ''build/printf_format''" "listed ''build/storage_class''"
  "listed ''legal/copyright''" "listed ''readability/alt_tokens''" "listed ''readability/braces''"
  "listed ''readability/casting''" "listed ''readability/check''" "listed
  ''readability/constructors''" "listed ''readability/fn_size''" "listed ''readability/inheritance''"
  "listed ''readability/multiline_comment''" "listed ''readability/multiline_string''" "listed
  ''readability/namespace''" "listed ''readability/nolint''" "listed ''readability/nul''" "listed
  ''readability/strings''" "listed ''readability/todo''" "listed ''readability/utf8''" "listed
  ''runtime/arrays''" "listed ''runtime/casting''" "listed ''runtime/explicit''" "listed
  ''runtime/int''" "listed ''runtime/init''" "listed ''runtime/invalid_increment''" "listed
  ''runtime/member_string_references''" "listed ''runtime/memset''" "listed
  ''runtime/indentation_namespace''" "listed ''runtime/operator''" "listed ''runtime/printf''" "listed
  ''runtime/printf_format''" "listed ''runtime/references''" "listed ''runtime/string''" "listed
  ''runtime/threadsafe_fn''" "listed ''runtime/vlog''" "listed ''whitespace/blank_line''" "listed
  ''whitespace/braces''" "listed ''whitespace/comma''" "listed ''whitespace/comments''" "listed
  ''whitespace/empty_conditional_body''" "listed ''whitespace/empty_if_body''" "listed
  ''whitespace/empty_loop_body''" "listed ''whitespace/end_of_line''" "listed
  ''whitespace/ending_newline''" "listed ''whitespace/forcolon''" "listed ''whitespace/indent''"
  "listed ''whitespace/line_length''" "listed ''whitespace/newline''" "listed
  ''whitespace/operators''" "listed ''whitespace/parens''" "listed ''whitespace/semicolon''" "listed
  ''whitespace/tab''" "listed ''whitespace/todo''"
  using listed_all by (simp_all only: ERROR_CATEGORIES_def list.pred_inject)

locale reporter =
  fixes error :: error_fn and I :: "lint \<Rightarrow> bool"
  assumes report [safe_intros]:
      "listed c \<Longrightarrow> 0 \<le> k \<Longrightarrow> k \<le> 5 \<Longrightarrow> safe_unit I (error filename linenum c k msg)"
    and suppression: "I s \<Longrightarrow> I (add_suppression cat l s)"
begin

lemma ParseNolintSuppressions_safe [safe_intros]:
  "safe_unit I (ParseNolintSuppressions filename raw_line linenum error)"
  unfolding ParseNolintSuppressions_def Let_def
  by (intro safe_intros safe_modify suppression) simp_all

end

definition documented_line :: "string \<Rightarrow> bool" where
  "documented_line line \<longleftrightarrow>
     (\<exists>format filename linenum c k msg.
        listed c \<and> 0 \<le> k \<and> k \<le> 5 \<and> line = error_text format filename linenum c k msg)"

text \<open>A report ends in the confidence in brackets; no other message of the program does, unless a file name does.\<close>

definition report_line :: "string \<Rightarrow> bool" where
  "report_line line \<longleftrightarrow> suffix [CHR '']'', nl] line"

lemma documented_report: "documented_line line \<Longrightarrow> report_line line"
  by (auto simp: documented_line_def error_text_def msg_of_def report_line_def suffix_def)

definition documented_from :: "lint \<Rightarrow> lint \<Rightarrow> bool" where
  "documented_from s0 s \<longleftrightarrow>
     lint_ok s \<and> root s = root s0 \<and> line_length s = line_length s0 \<and> valid_extensions s = valid_extensions s0
     \<and> filters (state s) = filters (state s0) \<and> filters_backup (state s) = filters_backup (state s0)
     \<and> verbose_level (state s) = verbose_level (state s0)
     \<and> (\<exists>new. stderr s = stderr s0 @ new \<and> list_all documented_line new
          \<and> error_count (state s) = error_count (state s0) + int (length new))"

lemma documented_from_refl: "lint_ok s \<Longrightarrow> documented_from s s"
  by (simp add: documented_from_def)

interpretation ok_reporter: reporter Error lint_ok
proof
  show "safe_unit lint_ok (Error filename linenum c k msg)" for filename linenum c k msg
    using Error_total by (fastforce simp: safe_def)
qed simp

lemma documented_Error:
  assumes "documented_from s0 s" "listed c" "0 \<le> k" "k \<le> 5"
  shows "\<exists>s'. Error filename linenum c k msg s = Inr ((), s') \<and> documented_from s0 s'"
proof -
  from assms(1) have ok: "lint_ok s" by (simp add: documented_from_def)
  from assms(2-) have "documented_line (error_text (output_format (state s)) filename linenum c k msg)"
    unfolding documented_line_def by blast
  then have "documented_from s0 (printed filename linenum c k msg s)"
    using assms(1) printed_ok [OF ok] unfolding documented_from_def by (auto simp: printed_def)
  with ok assms(1) show ?thesis by (simp add: Error_run ShouldPrintError_signed lint_ok_def)
qed

interpretation documented_reporter: reporter Error "documented_from s0" for s0
proof
  show "safe_unit (documented_from s0) (Error filename linenum c k msg)"
    if "listed c" "0 \<le> k" "k \<le> 5" for filename linenum c k msg
    using documented_Error [OF _ that] by (fastforce simp: safe_def)
qed (simp add: documented_from_def)

section \<open>The NOLINT comment\<close>

definition nolint_regex :: regex where
  "nolint_regex = RSeq RWordB (RSeq (RChar CHR ''N'') (RSeq (RChar CHR ''O'') (RSeq (RChar CHR ''L'')
     (RSeq (RChar CHR ''I'') (RSeq (RChar CHR ''N'') (RSeq (RChar CHR ''T'')
     (RSeq (RRep True 0 (Some 1) (RGroup 1 (RSeq (RChar CHR ''N'') (RSeq (RChar CHR ''E'')
       (RSeq (RChar CHR ''X'') (RSeq (RChar CHR ''T'') (RSeq (RChar CHR ''L'') (RSeq (RChar CHR ''I'')
         (RSeq (RChar CHR ''N'') (RChar CHR ''E''))))))))))
     (RSeq RWordB (RRep True 0 (Some 1) (RGroup 2 (RSeq (RChar CHR ''('')
       (RSeq (RRep True 1 None (RSet True [(CHR '')'', CHR '')'')])) (RChar CHR '')'')))))))))))))"

lemma nolint_compiled: "compiled NOLINT_PATTERN = nolint_regex"
  by code_simp

lemma takeWhile_until: "c \<notin> set u \<Longrightarrow> takeWhile (\<lambda>d. d \<noteq> c) (u @ c # v) = u"
  by (induction u) auto

lemma nolint_at_category:
  assumes b: "b = [] \<or> \<not> is_word (hd b)" and cat: "cat \<noteq> []" "CHR '')'' \<notin> set cat"
  shows "run_at nolint_regex b (''NOLINT('' @ cat @ '')'' @ rest) =
    Some (MObj (length b) (''NOLINT('' @ cat @ '')'') [(2, length b + 6, ''('' @ cat @ '')'')])"
proof -
  let ?set = "RSet True [(CHR '')'', CHR '')'')]"
  have set: "ml ?set st = opt_list (step_char (\<lambda>d. d \<noteq> CHR '')'') st)" for st
  proof -
    have "in_set True [(CHR '')'', CHR '')'')] = (\<lambda>d. d \<noteq> CHR '')'')"
      by (rule ext) (simp add: in_set_def)
    then show ?thesis by simp
  qed
  have tw: "takeWhile (\<lambda>d. d \<noteq> CHR '')'') (cat @ CHR '')'' # rest) = cat"
    using cat(2) by (rule takeWhile_until)
  have star: "mt (RRep True (Suc 0) None ?set) (MSt b' (cat @ CHR '')'' # rest) k) cont =
      cont (MSt (rev cat @ b') (CHR '')'' # rest) k)"
    if "cont (MSt (rev cat @ b') (CHR '')'' # rest) k) \<noteq> None" for b' k cont
    using mt_greedy [OF set, of "length cat" "MSt b' (cat @ CHR '')'' # rest) k" "Suc 0" cont] that cat(1) tw
    by (simp add: adv_def Suc_le_eq)
  have "word_before (MSt b (CHR ''N'' # cs) k) = False" for cs k
    using b by (cases b) (simp_all add: word_before_def)
  moreover have "is_word CHR ''N''" "is_word CHR ''T''" "\<not> is_word CHR ''(''"
    by code_simp+
  ultimately have "mt nolint_regex (MSt b ((''NOLINT('' @ cat @ '')'') @ rest) []) Some =
      Some (MSt (rev (''NOLINT('' @ cat @ '')'') @ b) rest [(2, length b + 6, ''('' @ cat @ '')'')])"
    by (simp add: nolint_regex_def star word_before_def word_after_def close_group_def)
  from run_at_eq [OF this] show ?thesis by simp
qed

lemma nolint_start: "\<not> prefix ''NOLINT'' cs \<Longrightarrow> run_at nolint_regex b cs = None"
proof (rule ccontr)
  assume no: "\<not> prefix ''NOLINT'' cs" and "run_at nolint_regex b cs \<noteq> None"
  then have "ml nolint_regex (MSt b cs []) \<noteq> []" by (simp add: run_at_None del: ml.simps)
  then obtain st where "st \<in> set (ml nolint_regex (MSt b cs []))" by (cases "ml nolint_regex (MSt b cs [])") auto
  with no show False unfolding nolint_regex_def word_mem seq_mem by (auto simp: prefix_def)
qed

lemma nolint_overlap:
  assumes "prefix ''NOLINT'' (v @ ''NOLINT('' @ t)" "v \<noteq> []"
  shows "prefix ''NOLINT'' v"
  using assms by (auto simp: prefix_def append_eq_Cons_conv)

lemma nolint_search:
  assumes pre: "\<not> sublist ''NOLINT'' pre" "pre = [] \<or> \<not> is_word (last pre)"
    and cat: "cat \<noteq> []" "CHR '')'' \<notin> set cat"
  shows "Search NOLINT_PATTERN (pre @ ''NOLINT('' @ cat @ '')'' @ rest) =
    Some (MObj (length pre) (''NOLINT('' @ cat @ '')'') [(2, length pre + 6, ''('' @ cat @ '')'')])"
proof -
  let ?t = "''NOLINT('' @ cat @ '')'' @ rest"
  have "search_from nolint_regex [] (pre @ ?t) = search_from nolint_regex (rev pre @ []) ?t"
  proof (rule search_from_skip)
    fix u' v' assume v: "pre = u' @ v'" "v' \<noteq> []"
    have "\<not> prefix ''NOLINT'' (v' @ ?t)"
      using nolint_overlap [of v'] v pre(1) by (auto simp: sublist_def prefix_def)
    then show "run_at nolint_regex (rev u' @ []) (v' @ ?t) = None" by (rule nolint_start)
  qed
  moreover have "run_at nolint_regex (rev pre) ?t =
      Some (MObj (length pre) (''NOLINT('' @ cat @ '')'') [(2, length pre + 6, ''('' @ cat @ '')'')])"
    using nolint_at_category [of "rev pre" cat rest] pre(2) cat by (simp add: hd_rev)
  ultimately show ?thesis
    by (simp add: Search_def re_search_def nolint_compiled search_from_here)
qed

section \<open>Properties\<close>

text \<open>C4: with well-formed filters \<open>_ShouldPrintError\<close> never raises, and it prints an error exactly
  when no NOLINT or global suppression covers it, its confidence reaches the verbosity level, and
  the last filter whose text is a prefix of the category (if any) is not a minus filter.\<close>

theorem ShouldPrintError_decides:
  assumes "list_all signed_filter (filters (state s))"
  shows "ShouldPrintError category confidence linenum s =
    Inr (\<not> IsErrorSuppressedByNolint category linenum s \<and> verbose_level (state s) \<le> confidence
       \<and> \<not> filter_verdict category (filters (state s)))"
  using assms by (rule ShouldPrintError_signed)

theorem ShouldPrintError_decides_witness:
  "ShouldPrintError ''whitespace/braces'' 4 7
     (init_lint\<lparr>state := init_cpplint_state\<lparr>filters := [''-whitespace'', ''+whitespace/braces'']\<rparr>\<rparr>) = Inr True
   \<and> ShouldPrintError ''whitespace/tab'' 4 7
     (init_lint\<lparr>state := init_cpplint_state\<lparr>filters := [''-whitespace'', ''+whitespace/braces'']\<rparr>\<rparr>) = Inr False"
proof -
  let ?s = "init_lint\<lparr>state := init_cpplint_state\<lparr>filters := [''-whitespace'', ''+whitespace/braces'']\<rparr>\<rparr>"
  have signed: "list_all signed_filter (filters (state ?s))"
    by (simp add: signed_filter_def)
  from ShouldPrintError_decides [OF signed, of "''whitespace/braces''" 4 7]
    ShouldPrintError_decides [OF signed, of "''whitespace/tab''" 4 7]
  show ?thesis
    by (simp add: IsErrorSuppressedByNolint_def suppressed_lines_def init_lint_def
        init_cpplint_state_def filter_verdict_def)
qed

text \<open>C40: an item without a sign makes \<open>SetFilters\<close> raise \<open>ValueError\<close>, although the usage text says
  that \<open>FOO\<close> means the same as \<open>-FOO\<close>; the witness is an example of that text.\<close>

theorem SetFilters_rejects_unsigned:
  assumes "f \<in> set (filter_items fs)" and "\<not> signed_filter f"
  shows "\<exists>msg. SetFilters fs st = Inl (ValueError msg)"
  using assms
  by (auto simp: SetFilters_def AddFilters_cases bad_filter_error_def list_all_iff)

theorem SetFilters_rejects_unsigned_witness:
  "\<exists>msg. SetFilters ''whitespace,runtime/printf,+runtime/printf_format'' init_cpplint_state = Inl (ValueError msg)"
proof (rule SetFilters_rejects_unsigned)
  show "''whitespace'' \<in> set (filter_items ''whitespace,runtime/printf,+runtime/printf_format'')"
    by code_simp
  show "\<not> signed_filter ''whitespace''"
    by (simp add: signed_filter_def)
qed

text \<open>C24: \<open>Error\<close> never raises on a consistent state; it prints one line and counts one error exactly
  when \<open>_ShouldPrintError\<close> says so and changes nothing otherwise, and it keeps the state consistent
  (signed filters; per-category counts that are positive and add up to the total).\<close>

theorem Error_effect:
  assumes "lint_ok s"
  shows "\<exists>pr s'. ShouldPrintError category confidence linenum s = Inr pr
    \<and> Error filename linenum category confidence message s = Inr ((), s') \<and> lint_ok s'
    \<and> (if pr then error_count (state s') = error_count (state s) + 1
           \<and> stderr s' = stderr s @ [error_text (output_format (state s)) filename linenum category confidence message]
        else s' = s)
    \<and> error_suppressions s' = error_suppressions s \<and> filters (state s') = filters (state s)"
proof -
  from assms have "list_all signed_filter (filters (state s))"
    by (simp add: lint_ok_def)
  then obtain pr where pr: "ShouldPrintError category confidence linenum s = Inr pr"
    by (simp add: ShouldPrintError_signed)
  let ?s' = "if pr then printed filename linenum category confidence message s else s"
  from pr have "Error filename linenum category confidence message s = Inr ((), ?s')"
    by (simp add: Error_run)
  moreover from assms have "lint_ok ?s'"
    by (simp add: printed_ok)
  ultimately show ?thesis
    using pr by (intro exI [of _ pr] exI [of _ ?s']) (simp add: printed_def)
qed

theorem Error_effect_witness:
  "\<exists>pr s'. ShouldPrintError ''whitespace/tab'' 1 3 init_lint = Inr pr
    \<and> Error ''a.cc'' 3 ''whitespace/tab'' 1 ''Tab found'' init_lint = Inr ((), s') \<and> lint_ok s'
    \<and> (if pr then error_count (state s') = error_count (state init_lint) + 1
           \<and> stderr s' = stderr init_lint @
               [error_text (output_format (state init_lint)) ''a.cc'' 3 ''whitespace/tab'' 1 ''Tab found'']
        else s' = init_lint)
    \<and> error_suppressions s' = error_suppressions init_lint \<and> filters (state s') = filters (state init_lint)"
  by (rule Error_effect)
    (simp add: lint_ok_def counts_ok_def init_lint_def init_cpplint_state_def DEFAULT_FILTERS_def
      signed_filter_def)

text \<open>C23: a comment \<open>NOLINT(cat)\<close> with a known category suppresses that category on its line and nothing else, so that
  every other category and line keeps its status.  It may stand after any text that does not itself contain
  \<open>NOLINT\<close> and does not end in a letter, a digit or an underscore.\<close>

theorem nolint_suppresses_category:
  assumes "\<not> sublist ''NOLINT'' pre" and "pre = [] \<or> \<not> is_word (last pre)"
    and "cat \<in> set ERROR_CATEGORIES"
  shows "\<exists>s'. ParseNolintSuppressions filename (pre @ ''NOLINT('' @ cat @ '')'' @ rest) linenum error s = Inr ((), s')
    \<and> (\<forall>c l. IsErrorSuppressedByNolint c l s' \<longleftrightarrow>
         IsErrorSuppressedByNolint c l s \<or> (c = cat \<and> l = linenum))"
proof -
  have "list_all (\<lambda>c. c \<noteq> [] \<and> CHR '')'' \<notin> set c \<and> c \<noteq> ''*'') ERROR_CATEGORIES"
    by code_simp
  with assms(3) have cat: "cat \<noteq> []" "CHR '')'' \<notin> set cat" "cat \<noteq> ''*''"
    by (auto simp: list_all_iff)
  have "py_slice (''('' @ cat @ '')'') 1 (-1) = cat"
    using py_slice_ends [of "CHR ''(''" cat "CHR '')''"] by simp
  moreover have "suffix '')'' (''('' @ cat @ '')'')"
    by (simp add: suffix_def)
  ultimately have "ParseNolintSuppressions filename (pre @ ''NOLINT('' @ cat @ '')'' @ rest) linenum error s =
      Inr ((), add_suppression (Some cat) linenum s)"
    using nolint_search [OF assms(1,2) cat(1,2), of rest] assms(3) cat(3)
    by (simp add: ParseNolintSuppressions_def group_def grp_def modify_def)
  then show ?thesis
    by (auto simp: IsErrorSuppressed_add)
qed

theorem nolint_suppresses_category_witness:
  "\<exists>s'. ParseNolintSuppressions ''a.cc'' (''  p = NULL;  // '' @ ''NOLINT('' @ ''runtime/int'' @ '')'' @ '' why'') 12 Error init_lint
     = Inr ((), s')
    \<and> (\<forall>c l. IsErrorSuppressedByNolint c l s' \<longleftrightarrow>
         IsErrorSuppressedByNolint c l init_lint \<or> (c = ''runtime/int'' \<and> l = 12))"
proof (rule nolint_suppresses_category)
  show "\<not> sublist ''NOLINT'' ''  p = NULL;  // ''" by code_simp
  show "''  p = NULL;  // '' = [] \<or> \<not> is_word (last ''  p = NULL;  // '')" by code_simp
  show "''runtime/int'' \<in> set ERROR_CATEGORIES" by code_simp
qed

end
