(* ===== verification/Include_State.thy ===== *)
theory Include_State
  imports Lint_State
begin

text \<open>
  The class \<open>_IncludeState\<close>: which headers have been included on which line, and the state machine
  that checks the order of the \<open>#include\<close> lines.  The five header constants are the datatype
  \<open>header_type\<close>; the sections keep their numbers, since the code compares them.  Lookups in the two
  name tables raise \<open>KeyError\<close> outside their keys, and \<open>include_list[-1]\<close> raises \<open>IndexError\<close> on an empty
  list; \<open>inc_ok\<close> is the invariant under which neither happens.
\<close>

datatype header_type = C_SYS_HEADER | CPP_SYS_HEADER | LIKELY_MY_HEADER | POSSIBLE_MY_HEADER | OTHER_HEADER

definition INITIAL_SECTION :: int where "INITIAL_SECTION = 0"
definition MY_H_SECTION :: int where "MY_H_SECTION = 1"
definition C_SECTION :: int where "C_SECTION = 2"
definition CPP_SECTION :: int where "CPP_SECTION = 3"
definition OTHER_H_SECTION :: int where "OTHER_H_SECTION = 4"

lemmas section_defs = INITIAL_SECTION_def MY_H_SECTION_def C_SECTION_def CPP_SECTION_def OTHER_H_SECTION_def

fun TYPE_NAMES :: "header_type \<Rightarrow> string" where
  "TYPE_NAMES C_SYS_HEADER = ''C system header''"
| "TYPE_NAMES CPP_SYS_HEADER = ''C++ system header''"
| "TYPE_NAMES LIKELY_MY_HEADER = ''header this file implements''"
| "TYPE_NAMES POSSIBLE_MY_HEADER = ''header this file may implement''"
| "TYPE_NAMES OTHER_HEADER = ''other header''"

definition SECTION_NAMES :: "int \<Rightarrow> string result" where
  "SECTION_NAMES n =
     (if n = INITIAL_SECTION then Inr ''... nothing. (This can\\'t be an error.)''
      else if n = MY_H_SECTION then Inr ''a header this file implements''
      else if n = C_SECTION then Inr ''C system header''
      else if n = CPP_SECTION then Inr ''C++ system header''
      else if n = OTHER_H_SECTION then Inr ''other header''
      else Inl KeyError)"

record include_state =
  include_list :: "(string \<times> int) list list"
  cur_section :: int
  last_header :: string

section \<open>Operations\<close>

definition ResetSection :: "string \<Rightarrow> include_state \<Rightarrow> include_state result" where
  "ResetSection directive st =
     (let st = st\<lparr>cur_section := INITIAL_SECTION, last_header := []\<rparr>
      in if directive \<in> {''if'', ''ifdef'', ''ifndef''}
         then Inr (st\<lparr>include_list := include_list st @ [[]]\<rparr>)
         else if directive \<in> {''else'', ''elif''}
         then (if include_list st = [] then Inl IndexError
               else Inr (st\<lparr>include_list := butlast (include_list st) @ [[]]\<rparr>))
         else Inr st)"

definition init_include_state :: include_state where
  "init_include_state = \<lparr>include_list = [[]], cur_section = INITIAL_SECTION, last_header = []\<rparr>"

definition FindHeader :: "string \<Rightarrow> include_state \<Rightarrow> int" where
  "FindHeader header st =
     (case find (\<lambda>f. fst f = header) (concat (include_list st)) of None \<Rightarrow> -1 | Some f \<Rightarrow> snd f)"

definition SetLastHeader :: "string \<Rightarrow> include_state \<Rightarrow> include_state" where
  "SetLastHeader header_path st = st\<lparr>last_header := header_path\<rparr>"

definition CanonicalizeAlphabeticalOrder :: "string \<Rightarrow> string" where
  "CanonicalizeAlphabeticalOrder header_path =
     lower (replace_str (replace_str header_path ''-inl.h'' ''.h'') ''-'' ''_'')"

text \<open>Order of strings by code points.\<close>

fun str_less :: "string \<Rightarrow> string \<Rightarrow> bool" where
  "str_less [] [] = False"
| "str_less [] (y # ys) = True"
| "str_less (x # xs) [] = False"
| "str_less (x # xs) (y # ys) = (if x = y then str_less xs ys else char_le x y)"

definition IsInAlphabeticalOrder :: "string list \<Rightarrow> int \<Rightarrow> string \<Rightarrow> include_state \<Rightarrow> bool result" where
  "IsInAlphabeticalOrder elided linenum header_path st =
     (if str_less header_path (last_header st)
      then bind_r (py_index elided (linenum - 1))
             (\<lambda>line. Inr (\<not> matches (rx ''^`s*#`s*include`b'') line))
      else Inr True)"

definition CheckNextIncludeOrder :: "header_type \<Rightarrow> include_state \<Rightarrow> (string \<times> include_state) result" where
  "CheckNextIncludeOrder header_type st =
     bind_r (SECTION_NAMES (cur_section st)) (\<lambda>section_name.
       let error_message = msg_of [''Found '', TYPE_NAMES header_type, '' after '', section_name];
           last_section = cur_section st;
           finish = (\<lambda>sec. Inr ([], if last_section \<noteq> sec then st\<lparr>cur_section := sec, last_header := []\<rparr>
                                    else st\<lparr>cur_section := sec\<rparr>));
           failed = Inr (error_message, st\<lparr>last_header := []\<rparr>)
       in case header_type of
            C_SYS_HEADER \<Rightarrow> if cur_section st \<le> C_SECTION then finish C_SECTION else failed
          | CPP_SYS_HEADER \<Rightarrow> if cur_section st \<le> CPP_SECTION then finish CPP_SECTION else failed
          | LIKELY_MY_HEADER \<Rightarrow>
              if cur_section st \<le> MY_H_SECTION then finish MY_H_SECTION else finish OTHER_H_SECTION
          | POSSIBLE_MY_HEADER \<Rightarrow>
              if cur_section st \<le> MY_H_SECTION then finish MY_H_SECTION else finish OTHER_H_SECTION
          | OTHER_HEADER \<Rightarrow> finish OTHER_H_SECTION)"

text \<open>\<open>include_state.include_list[-1].append((include, linenum))\<close> in \<open>CheckIncludeLine\<close>.\<close>

definition append_include :: "string \<Rightarrow> int \<Rightarrow> include_state \<Rightarrow> include_state result" where
  "append_include header linenum st =
     (if include_list st = [] then Inl IndexError
      else Inr (st\<lparr>include_list :=
        butlast (include_list st) @ [last (include_list st) @ [(header, linenum)]]\<rparr>))"

section \<open>The invariant\<close>

definition inc_ok :: "include_state \<Rightarrow> bool" where
  "inc_ok st \<longleftrightarrow> include_list st \<noteq> [] \<and> INITIAL_SECTION \<le> cur_section st \<and> cur_section st \<le> OTHER_H_SECTION
     \<and> list_all (\<lambda>f. 0 \<le> snd f) (concat (include_list st))"

lemma init_include_ok: "inc_ok init_include_state"
  by (simp add: inc_ok_def init_include_state_def section_defs)

lemma section_name_total:
  assumes "INITIAL_SECTION \<le> n" and "n \<le> OTHER_H_SECTION"
  shows "\<exists>t. SECTION_NAMES n = Inr t"
proof -
  from assms have "n = 0 \<or> n = 1 \<or> n = 2 \<or> n = 3 \<or> n = 4"
    unfolding section_defs by arith
  then show ?thesis
    unfolding SECTION_NAMES_def section_defs by auto
qed

text \<open>The effect of one header on the section, and whether it is reported.\<close>

fun next_section :: "header_type \<Rightarrow> int \<Rightarrow> int" where
  "next_section C_SYS_HEADER n = max 2 n"
| "next_section CPP_SYS_HEADER n = max 3 n"
| "next_section OTHER_HEADER n = 4"
| "next_section _ n = (if n \<le> 1 then 1 else 4)"

fun misplaced :: "header_type \<Rightarrow> int \<Rightarrow> bool" where
  "misplaced C_SYS_HEADER n = (2 < n)"
| "misplaced CPP_SYS_HEADER n = (3 < n)"
| "misplaced _ n = False"

lemma CheckNextIncludeOrder_spec:
  assumes "inc_ok st"
  shows "\<exists>msg st'. CheckNextIncludeOrder t st = Inr (msg, st')
    \<and> (msg \<noteq> [] \<longleftrightarrow> misplaced t (cur_section st)) \<and> cur_section st' = next_section t (cur_section st)
    \<and> include_list st' = include_list st"
proof -
  from assms obtain name where "SECTION_NAMES (cur_section st) = Inr name"
    using section_name_total by (auto simp: inc_ok_def)
  then show ?thesis
    by (cases t) (auto simp: CheckNextIncludeOrder_def Let_def section_defs msg_of_def)
qed

lemma next_section_bounds: "0 \<le> n \<Longrightarrow> n \<le> 4 \<Longrightarrow> n \<le> next_section t n \<and> next_section t n \<le> 4"
  by (cases t) auto

lemma CheckNextIncludeOrder_ok:
  "inc_ok st \<Longrightarrow> CheckNextIncludeOrder t st = Inr (msg, st') \<Longrightarrow> inc_ok st' \<and> cur_section st \<le> cur_section st'"
  using CheckNextIncludeOrder_spec [of st t] next_section_bounds [of "cur_section st" t]
  by (auto simp: inc_ok_def section_defs)

lemma ResetSection_ok: "inc_ok st \<Longrightarrow> \<exists>st'. ResetSection d st = Inr st' \<and> inc_ok st'"
proof -
  assume ok: "inc_ok st"
  then obtain xss xs where "include_list st = xss @ [xs]"
    by (cases "include_list st" rule: rev_cases) (auto simp: inc_ok_def)
  with ok show ?thesis
    unfolding ResetSection_def Let_def by (auto simp: inc_ok_def section_defs)
qed

section \<open>Duplicate detection as a lookup table\<close>

text \<open>What \<open>CheckIncludeLine\<close> relies on: a table of headers with the line of their first
  registration.\<close>

locale header_table =
  fixes lookup :: "string \<Rightarrow> 't \<Rightarrow> int"
    and register :: "string \<Rightarrow> int \<Rightarrow> 't \<Rightarrow> 't result"
    and ok :: "'t \<Rightarrow> bool"
  assumes register_total: "ok t \<Longrightarrow> 0 \<le> n \<Longrightarrow> \<exists>t'. register h n t = Inr t' \<and> ok t'"
    and lookup_register: "ok t \<Longrightarrow> 0 \<le> n \<Longrightarrow> register h n t = Inr t' \<Longrightarrow>
      lookup h' t' = (if lookup h' t \<ge> 0 then lookup h' t else if h' = h then n else -1)"
begin

fun register_all :: "(string \<times> int) list \<Rightarrow> 't \<Rightarrow> 't result" where
  "register_all [] t = Inr t"
| "register_all ((h, n) # hs) t = bind_r (register h n t) (register_all hs)"

text \<open>Later registrations never hide an earlier one.\<close>

lemma first_wins:
  assumes "ok t" and "lookup h t \<ge> 0" and "list_all (\<lambda>e. 0 \<le> snd e) hs"
  shows "\<exists>t'. register_all hs t = Inr t' \<and> ok t' \<and> lookup h t' = lookup h t"
  using assms
proof (induction hs arbitrary: t)
  case (Cons e hs)
  obtain h' n where e: "e = (h', n)" by (cases e)
  with Cons.prems obtain t' where t': "register h' n t = Inr t'" "ok t'"
    using register_total [of t n h'] by auto
  with Cons.prems e have "lookup h t' = lookup h t"
    using lookup_register [of t n h' t' h] by auto
  with Cons.IH [OF t'(2)] Cons.prems e t' show ?case by auto
qed auto

lemma registered_stays:
  assumes "ok t" and "lookup h t < 0" and "0 \<le> n" and "list_all (\<lambda>e. 0 \<le> snd e) hs"
  shows "\<exists>t'. register_all ((h, n) # hs) t = Inr t' \<and> lookup h t' = n"
proof -
  from assms obtain t' where t': "register h n t = Inr t'" "ok t'"
    using register_total [of t n h] by blast
  with assms have "lookup h t' = n"
    using lookup_register [of t n h t' h] by auto
  with first_wins [OF t'(2), of h hs] assms(3,4) t'(1) show ?thesis by auto
qed

end

lemma FindHeader_append:
  assumes "include_list st \<noteq> []" and "list_all (\<lambda>f. 0 \<le> snd f) (concat (include_list st))"
    and "append_include h n st = Inr st'"
  shows "FindHeader h' st' = (if FindHeader h' st \<ge> 0 then FindHeader h' st else if h' = h then n else -1)"
proof -
  from assms(1) obtain xss xs where list: "include_list st = xss @ [xs]"
    by (cases "include_list st" rule: rev_cases) auto
  with assms(3) have "concat (include_list st') = concat (include_list st) @ [(h, n)]"
    by (auto simp: append_include_def)
  moreover have "0 \<le> snd f" if "find (\<lambda>f. fst f = h') (concat (include_list st)) = Some f" for f
    using find_mem [OF that] assms(2) by (simp add: list_all_iff del: set_concat)
  ultimately show ?thesis
    by (auto simp: FindHeader_def find_append split: option.splits)
qed

interpretation headers: header_table FindHeader append_include inc_ok
proof
  fix t h and n :: int
  assume "inc_ok t" "0 \<le> n"
  then obtain xss xs where "include_list t = xss @ [xs]"
    by (cases "include_list t" rule: rev_cases) (auto simp: inc_ok_def)
  with \<open>inc_ok t\<close> \<open>0 \<le> n\<close> show "\<exists>t'. append_include h n t = Inr t' \<and> inc_ok t'"
    by (auto simp: append_include_def inc_ok_def)
next
  fix t h t' h' and n :: int
  assume "inc_ok t" "0 \<le> n" "append_include h n t = Inr t'"
  then show "FindHeader h' t' = (if FindHeader h' t \<ge> 0 then FindHeader h' t else if h' = h then n else -1)"
    by (intro FindHeader_append) (auto simp: inc_ok_def)
qed

section \<open>The order of a whole sequence of headers\<close>

fun check_order :: "header_type list \<Rightarrow> include_state \<Rightarrow> (string list \<times> include_state) result" where
  "check_order [] st = Inr ([], st)"
| "check_order (t # ts) st =
     bind_r (CheckNextIncludeOrder t st) (\<lambda>(msg, st').
       bind_r (check_order ts st') (\<lambda>(msgs, st''). Inr (msg # msgs, st'')))"

text \<open>The documented order: headers of the file itself first, then C, C++ and all others.\<close>

fun is_my_header :: "header_type \<Rightarrow> bool" where
  "is_my_header t = (t = LIKELY_MY_HEADER \<or> t = POSSIBLE_MY_HEADER)"

fun rank :: "header_type \<Rightarrow> int" where
  "rank C_SYS_HEADER = 2"
| "rank CPP_SYS_HEADER = 3"
| "rank _ = 4"

lemma next_section_late: "2 \<le> n \<Longrightarrow> n \<le> 4 \<Longrightarrow> next_section t n = max (rank t) n"
  by (cases t) auto

lemma misplaced_late: "2 \<le> n \<Longrightarrow> n \<le> 4 \<Longrightarrow> misplaced t n \<longleftrightarrow> rank t < n"
  by (cases t) auto

lemma check_order_late:
  assumes "inc_ok st" and "2 \<le> cur_section st"
  shows "\<exists>msgs st'. check_order ts st = Inr (msgs, st') \<and> length msgs = length ts \<and>
    (list_all (\<lambda>m. m = []) msgs \<longleftrightarrow> sorted (map rank ts) \<and> list_all (\<lambda>t. cur_section st \<le> rank t) ts)"
  using assms
proof (induction ts arbitrary: st)
  case (Cons t ts)
  have n: "cur_section st \<le> 4" using Cons.prems by (simp add: inc_ok_def section_defs)
  from CheckNextIncludeOrder_spec [OF Cons.prems(1), of t] obtain msg st1 where
    step: "CheckNextIncludeOrder t st = Inr (msg, st1)" "msg \<noteq> [] \<longleftrightarrow> rank t < cur_section st"
      "cur_section st1 = max (rank t) (cur_section st)"
    using n Cons.prems by (auto simp: next_section_late misplaced_late)
  have "inc_ok st1" using CheckNextIncludeOrder_ok [OF Cons.prems(1) step(1)] by simp
  moreover have "2 \<le> cur_section st1" using step(3) Cons.prems(2) by simp
  ultimately obtain msgs st' where rest: "check_order ts st1 = Inr (msgs, st')" "length msgs = length ts"
    "list_all (\<lambda>m. m = []) msgs \<longleftrightarrow> sorted (map rank ts) \<and> list_all (\<lambda>t. cur_section st1 \<le> rank t) ts"
    using Cons.IH by blast
  have "list_all (\<lambda>m. m = []) (msg # msgs) \<longleftrightarrow>
      sorted (map rank (t # ts)) \<and> list_all (\<lambda>t. cur_section st \<le> rank t) (t # ts)"
    using rest(3) step(2,3) by (fastforce simp: list_all_iff not_less max_def split: if_splits)
  with step(1) rest show ?case by auto
qed simp

lemma check_order_early:
  assumes "inc_ok st" and "cur_section st \<le> 1"
  shows "\<exists>msgs st'. check_order ts st = Inr (msgs, st') \<and> length msgs = length ts \<and>
    (list_all (\<lambda>m. m = []) msgs \<longleftrightarrow> sorted (map rank (dropWhile is_my_header ts)))"
  using assms
proof (induction ts arbitrary: st)
  case (Cons t ts)
  from CheckNextIncludeOrder_spec [OF Cons.prems(1), of t] obtain msg st1 where
    step: "CheckNextIncludeOrder t st = Inr (msg, st1)" "msg \<noteq> [] \<longleftrightarrow> misplaced t (cur_section st)"
      "cur_section st1 = next_section t (cur_section st)"
    by blast
  have ok1: "inc_ok st1" using CheckNextIncludeOrder_ok [OF Cons.prems(1) step(1)] by simp
  have msg: "msg = []" using step(2) Cons.prems(2) by (cases t) auto
  show ?case
  proof (cases "is_my_header t")
    case True
    then have "cur_section st1 \<le> 1" using step(3) Cons.prems(2) by auto
    from Cons.IH [OF ok1 this] step(1) msg True show ?thesis by fastforce
  next
    case False
    then have "cur_section st1 = rank t" "2 \<le> rank t"
      using step(3) Cons.prems(2) by (cases t; simp)+
    with check_order_late [OF ok1, of ts] obtain msgs st' where
      "check_order ts st1 = Inr (msgs, st')" "length msgs = length ts"
      "list_all (\<lambda>m. m = []) msgs \<longleftrightarrow> sorted (map rank ts) \<and> list_all (\<lambda>u. rank t \<le> rank u) ts"
      by auto
    with step(1) msg False show ?thesis by (auto simp: list_all_iff)
  qed
qed simp

section \<open>Properties\<close>

text \<open>C9: from a fresh \<open>_IncludeState\<close>, a sequence of calls of \<open>CheckNextIncludeOrder\<close> returns a message for every
  header, and all of them are empty exactly when the sequence is in the documented order: any number of the
  file's own headers, then C system headers, then C++ system headers, then the rest.  No sequence raises: the
  docstring of the class announces an \<open>_IncludeError\<close> for an illegal order, but the method reports it by its
  message.\<close>

theorem include_order_documented:
  "\<exists>msgs st. check_order ts init_include_state = Inr (msgs, st) \<and> length msgs = length ts \<and>
    (list_all (\<lambda>m. m = []) msgs \<longleftrightarrow> sorted (map rank (dropWhile is_my_header ts)))"
  by (rule check_order_early [OF init_include_ok]) (simp add: init_include_state_def section_defs)

text \<open>C30: one step of the include-order machine moves the section forward only, stays within the five
  sections, leaves the recorded includes alone, and keeps the invariant of the state.\<close>

theorem include_section_monotone:
  assumes "inc_ok st"
  shows "\<exists>msg st'. CheckNextIncludeOrder t st = Inr (msg, st') \<and> inc_ok st'
    \<and> cur_section st \<le> cur_section st' \<and> include_list st' = include_list st"
  using CheckNextIncludeOrder_spec [OF assms, of t] CheckNextIncludeOrder_ok [OF assms, of t] by blast

theorem include_section_monotone_witness:
  "\<exists>msg st'. CheckNextIncludeOrder CPP_SYS_HEADER init_include_state = Inr (msg, st') \<and> inc_ok st'
    \<and> cur_section init_include_state \<le> cur_section st'
    \<and> include_list st' = include_list init_include_state"
  by (rule include_section_monotone) (rule init_include_ok)

text \<open>C31: \<open>FindHeader\<close> reports a header at the line of its first registration, whatever is registered
  after it (\<open>CheckIncludeLine\<close> names that line in its duplicate warning).\<close>

theorem FindHeader_first_line:
  assumes "inc_ok st" and "FindHeader h st = -1" and "0 \<le> n" and "list_all (\<lambda>e. 0 \<le> snd e) hs"
  shows "\<exists>st'. headers.register_all ((h, n) # hs) st = Inr st' \<and> FindHeader h st' = n"
  using assms by (intro headers.registered_stays) simp_all

theorem FindHeader_first_line_witness:
  "\<exists>st'. headers.register_all ((''a/b.h'', 3) # [(''c.h'', 4), (''a/b.h'', 9)]) init_include_state = Inr st'
    \<and> FindHeader ''a/b.h'' st' = 3"
  by (rule FindHeader_first_line [OF init_include_ok]) (simp_all add: FindHeader_def init_include_state_def)

end
