(* ===== verification/Cleanse.thy ===== *)
theory Cleanse
  imports Lint_State
begin

text \<open>
  Preprocessing of the source lines: \<open>IsCppString\<close>, \<open>CleanseRawStrings\<close>, the removal of multi-line and
  single-line comments, and the class \<open>CleansedLines\<close> with \<open>_CollapseStrings\<close>.  The two \<open>while\<close> loops that
  rescan a line are functions with a termination proof, which rests on what the patterns consume.
\<close>

section \<open>Quotes\<close>

definition IsCppString :: "string \<Rightarrow> bool" where
  "IsCppString line =
     (let line = replace_str line [bslash, bslash] ''XX''
      in (count_str line [dquote] - count_str line [bslash, dquote]
            - count_str line [squote, dquote, squote]) mod 2 = 1)"

section \<open>Raw strings\<close>

definition RAW_START :: string where
  \<open>RAW_START = rx ''^(.*?)`b(?:R|u8R|uR|UR|LR)"([^`s``()]*)`((.*)$''\<close>

definition LINE_COMMENT_PREFIX :: string where
  \<open>LINE_COMMENT_PREFIX = rx ''^([^`'"]|`'(``.|[^`'])*`'|"(``.|[^"])*")*//''\<close>

definition raw_delimiter :: "mobj \<Rightarrow> string" where
  "raw_delimiter m = '')'' @ grp m 2 @ [dquote]"

definition starts_raw :: "mobj option \<Rightarrow> bool" where
  "starts_raw matched = (case matched of None \<Rightarrow> False | Some m \<Rightarrow> \<not> matches LINE_COMMENT_PREFIX (grp m 1))"

text \<open>The inner loop, entered with no delimiter pending: the line and the delimiter it leaves open.\<close>

function raw_starts :: "string \<Rightarrow> string \<times> string option" where
  "raw_starts line =
     (let matched = Match RAW_START line in
      if starts_raw matched then
        let m = the matched; delimiter = raw_delimiter m; e = find_str (grp m 3) delimiter in
        if e \<ge> 0
        then raw_starts (grp m 1 @ [dquote, dquote] @ slice_from (grp m 3) (e + int (length delimiter)))
        else (grp m 1 @ [dquote, dquote], Some delimiter)
      else (line, None))"
  by pat_completeness auto

definition raw_prefix_regex :: regex where
  "raw_prefix_regex =
     RAlt (RChar CHR ''R'') (RAlt (RSeq (RChar CHR ''u'') (RSeq (RChar CHR ''8'') (RChar CHR ''R'')))
       (RAlt (RSeq (RChar CHR ''u'') (RChar CHR ''R'')) (RAlt (RSeq (RChar CHR ''U'') (RChar CHR ''R''))
         (RSeq (RChar CHR ''L'') (RChar CHR ''R'')))))"

definition raw_body_regex :: regex where
  "raw_body_regex =
     RSeq (RChar dquote) (RSeq
       (RGroup 2 (RRep True 0 None (RSet True
         [(tab, cr), (CHR '' '', CHR '' ''), (bslash, bslash), (CHR ''('', CHR ''(''), (CHR '')'', CHR '')'')])))
       (RSeq (RChar CHR ''('') (RSeq (RGroup 3 (RRep True 0 None RAny)) REol)))"

lemma raw_start_compiled:
  "compiled RAW_START = RSeq RBol (RSeq (RGroup 1 (RRep False 0 None RAny))
     (RSeq RWordB (RSeq raw_prefix_regex raw_body_regex)))"
  by code_simp

lemma raw_prefix_mem:
  "s' \<in> set (ml raw_prefix_regex s) \<Longrightarrow> caps s' = caps s \<and> length (after s') < length (after s)"
  by (auto simp: raw_prefix_regex_def step_char_Some)

lemma raw_body_mem:
  "s' \<in> set (ml raw_body_regex s) \<Longrightarrow>
     \<exists>i t w. length t + 2 \<le> length (after s) \<and> caps s' = (3, i, t) # (2, w) # caps s"
  by (auto simp: raw_body_regex_def ml_mem split: if_splits)

lemma raw_start_groups:
  assumes "Match RAW_START line = Some m"
  shows "length (grp m 1) + length (grp m 3) + 3 \<le> length line"
proof -
  from assms obtain st where st: "st \<in> set (ml (compiled RAW_START) (MSt [] line []))"
    and caps: "m_caps m = caps st" by (elim Match_Some)
  from st obtain u v s where "line = u @ v" "s \<in> set (ml raw_prefix_regex (MSt (rev u) v [(1, 0, u)]))"
      "st \<in> set (ml raw_body_regex s)"
    by (fastforce simp: raw_start_compiled mem_rep_any split: if_splits)
  with raw_prefix_mem [of s] raw_body_mem [of st s] caps show ?thesis
    by (fastforce simp: grp_def group_def)
qed

lemma find_at_bound: "0 \<le> find_at sub i s \<Longrightarrow>
    int i \<le> find_at sub i s \<and> find_at sub i s + int (length sub) \<le> int i + int (length s)"
proof (induction s arbitrary: i)
  case (Cons c s)
  show ?case
  proof (cases "prefix sub (c # s)")
    case True
    with prefix_length_le [OF True] show ?thesis by simp
  next
    case False
    with Cons show ?thesis by force
  qed
qed (simp split: if_splits)

lemma find_str_bound: "0 \<le> find_str s sub \<Longrightarrow> find_str s sub + int (length sub) \<le> int (length s)"
  using find_at_bound [of sub 0 s] by (simp add: find_str_def)

termination raw_starts
proof (relation "measure length", goal_cases)
  case (2 line matched m delimiter e)
  then have "Match RAW_START line = Some m"
    by (auto simp: starts_raw_def split: option.splits)
  from raw_start_groups [OF this] show ?case
    by (simp add: slice_from_def)
qed simp

declare raw_starts.simps [simp del]

definition resume_raw :: "string \<Rightarrow> string \<Rightarrow> (string \<times> string option) result" where
  "resume_raw delimiter line =
     (let e = find_str line delimiter
      in if e \<ge> 0
         then case Match (rx ''^(`s*)`S'') line of
             None \<Rightarrow> Inl AttributeError
           | Some leading_space \<Rightarrow>
               Inr (grp leading_space 1 @ [dquote, dquote] @ slice_from line (e + int (length delimiter)), None)
         else Inr ([dquote, dquote], Some delimiter))"

definition raw_line :: "string option \<Rightarrow> string \<Rightarrow> (string \<times> string option) result" where
  "raw_line delimiter line =
     bind_r (case delimiter of None \<Rightarrow> Inr (line, None) | Some d \<Rightarrow> resume_raw d line)
       (\<lambda>(line, delimiter). case delimiter of None \<Rightarrow> Inr (raw_starts line) | Some d \<Rightarrow> Inr (line, Some d))"

fun raw_lines_loop :: "string option \<Rightarrow> string list \<Rightarrow> string list result" where
  "raw_lines_loop delimiter [] = Inr []"
| "raw_lines_loop delimiter (line # raw_lines) =
     bind_r (raw_line delimiter line) (\<lambda>(line', delimiter').
       bind_r (raw_lines_loop delimiter' raw_lines) (\<lambda>rest. Inr (line' # rest)))"

definition CleanseRawStrings :: "string list \<Rightarrow> string list result" where
  "CleanseRawStrings raw_lines = raw_lines_loop None raw_lines"

section \<open>Multi-line comments\<close>

definition opens_comment :: "string \<Rightarrow> bool" where
  "opens_comment line \<longleftrightarrow> startswith (strip line) ''/*'' \<and> find_from (strip line) ''*/'' 2 < 0"

definition closes_comment :: "string \<Rightarrow> bool" where
  "closes_comment line \<longleftrightarrow> endswith (strip line) ''*/''"

function FindNextMultiLineCommentStart :: "string list \<Rightarrow> nat \<Rightarrow> nat" where
  "FindNextMultiLineCommentStart ls lineix =
     (if lineix < length ls
      then if opens_comment (ls ! lineix) then lineix
           else FindNextMultiLineCommentStart ls (lineix + 1)
      else length ls)"
  by pat_completeness auto
termination by (relation "measure (\<lambda>(ls, i). length ls - i)") auto

function FindNextMultiLineCommentEnd :: "string list \<Rightarrow> nat \<Rightarrow> nat" where
  "FindNextMultiLineCommentEnd ls lineix =
     (if lineix < length ls
      then if closes_comment (ls ! lineix) then lineix
           else FindNextMultiLineCommentEnd ls (lineix + 1)
      else length ls)"
  by pat_completeness auto
termination by (relation "measure (\<lambda>(ls, i). length ls - i)") auto

declare FindNextMultiLineCommentStart.simps [simp del] FindNextMultiLineCommentEnd.simps [simp del]

definition RemoveMultiLineCommentsFromRange :: "string list \<Rightarrow> nat \<Rightarrow> nat \<Rightarrow> string list result" where
  "RemoveMultiLineCommentsFromRange ls b e =
     (if b < e \<and> length ls < e then Inl IndexError
      else Inr (foldl (\<lambda>ls i. ls[i := ''/**/'']) ls [b..<e]))"

lemma RemoveMultiLineCommentsFromRange_length:
  "RemoveMultiLineCommentsFromRange ls b e = Inr ls' \<Longrightarrow> length ls' = length ls"
proof -
  have "length (foldl (\<lambda>ls i. ls[i := x]) ls is) = length ls" for x and ls :: "string list" and "is"
    by (induction "is" arbitrary: ls) simp_all
  then show "RemoveMultiLineCommentsFromRange ls b e = Inr ls' \<Longrightarrow> length ls' = length ls"
    by (auto simp: RemoveMultiLineCommentsFromRange_def split: if_splits)
qed

lemma FindNextMultiLineCommentStart_ge: "i \<le> length ls \<Longrightarrow> i \<le> FindNextMultiLineCommentStart ls i"
  by (induction ls i rule: FindNextMultiLineCommentStart.induct)
    (subst FindNextMultiLineCommentStart.simps, auto)

lemma FindNextMultiLineCommentEnd_ge: "i \<le> length ls \<Longrightarrow> i \<le> FindNextMultiLineCommentEnd ls i"
  by (induction ls i rule: FindNextMultiLineCommentEnd.induct)
    (subst FindNextMultiLineCommentEnd.simps, auto)

function remove_comments_from :: "string \<Rightarrow> error_fn \<Rightarrow> string list \<Rightarrow> nat \<Rightarrow> (lint, string list) py" where
  "remove_comments_from filename error ls lineix =
     (if lineix < length ls then
        let lineix_begin = FindNextMultiLineCommentStart ls lineix in
        if length ls \<le> lineix_begin then ret ls
        else
          let lineix_end = FindNextMultiLineCommentEnd ls lineix_begin in
          if length ls \<le> lineix_end
          then seq (error filename (int lineix_begin + 1) ''readability/multiline_comment'' 5
                 ''Could not find end of multi-line comment'') (ret ls)
          else let_r (RemoveMultiLineCommentsFromRange ls lineix_begin (lineix_end + 1)) (\<lambda>ls'.
                 remove_comments_from filename error ls' (lineix_end + 1))
      else ret ls)"
  by pat_completeness auto
termination
proof (relation "measure (\<lambda>(_, _, ls, i). length ls - i)", goal_cases)
  case (2 filename error ls i b e ls')
  then have "length ls' = length ls" "i \<le> b" "b \<le> e"
    by (auto intro: RemoveMultiLineCommentsFromRange_length FindNextMultiLineCommentStart_ge
        FindNextMultiLineCommentEnd_ge)
  with 2 show ?case by simp
qed simp

declare remove_comments_from.simps [simp del]

definition RemoveMultiLineComments :: "string \<Rightarrow> string list \<Rightarrow> error_fn \<Rightarrow> (lint, string list) py" where
  "RemoveMultiLineComments filename ls error = remove_comments_from filename error ls 0"

section \<open>Comments and strings within a line\<close>

definition CLEANSE_LINE_ESCAPES :: string where
  \<open>CLEANSE_LINE_ESCAPES = rx ''``([abfnrtv?"```']|`d+|x[0-9a-fA-F]+)''\<close>

definition C_COMMENTS :: string where
  "C_COMMENTS = rx ''/`*(?:[^*]|`*(?!/))*`*/''"

definition CLEANSE_LINE_C_COMMENTS :: string where
  "CLEANSE_LINE_C_COMMENTS =
     rx ''(`s*'' @ C_COMMENTS @ rx ''`s*$|'' @ C_COMMENTS @ rx ''`s+|'' @
     rx ''`s+'' @ C_COMMENTS @ rx ''(?=`W)|'' @ C_COMMENTS @ '')''"

definition CleanseComments :: "string \<Rightarrow> string" where
  "CleanseComments line =
     (let commentpos = find_str line ''//'';
          line = (if commentpos \<noteq> -1 \<and> \<not> IsCppString (slice_to line commentpos)
                  then rstrip (slice_to line commentpos) else line)
      in ReplaceAll CLEANSE_LINE_C_COMMENTS [] line)"

definition PATTERN_INCLUDE :: string where
  \<open>PATTERN_INCLUDE = rx ''^`s*#`s*include`s*([<"])([^>"]*)[>"].*$''\<close>

definition FIRST_QUOTE :: string where
  \<open>FIRST_QUOTE = rx ''^([^`'"]*)([`'"])(.*)$''\<close>

definition NUMBER_BEFORE :: string where
  "NUMBER_BEFORE = rx ''`b(?:0[bBxX]?|[1-9])[0-9a-fA-F]*$''"

definition DIGITS_AFTER :: string where
  \<open>DIGITS_AFTER = rx ''^((?:`'?[0-9a-zA-Z_])*)(.*)$''\<close>

lemma first_quote_compiled:
  "compiled FIRST_QUOTE = RSeq RBol (RSeq
     (RGroup 1 (RRep True 0 None (RSet True [(squote, squote), (dquote, dquote)])))
     (RSeq (RGroup 2 (RSet False [(squote, squote), (dquote, dquote)]))
       (RSeq (RGroup 3 (RRep True 0 None RAny)) REol)))"
  by code_simp

definition plain :: "string \<Rightarrow> bool" where
  "plain s \<longleftrightarrow> squote \<notin> set s \<and> dquote \<notin> set s"

lemma not_quote: "list_all (in_set True [(squote, squote), (dquote, dquote)]) s \<longleftrightarrow> plain s"
  by (auto simp: list_all_iff in_set_def plain_def)

lemma first_quote_Some:
  assumes "Match FIRST_QUOTE s = Some m"
  obtains q e where "grp m 2 = [q]" "s = grp m 1 @ q # grp m 3 @ e" "q = squote \<or> q = dquote"
    "e = [] \<or> e = [nl]" "plain (grp m 1)" "nl \<notin> set (grp m 3)"
proof -
  from assms obtain st where "st \<in> set (ml (compiled FIRST_QUOTE) (MSt [] s []))"
    and caps: "m_caps m = caps st" by (elim Match_Some)
  then obtain h q t e where "s = h @ q # t @ e" "in_set False [(squote, squote), (dquote, dquote)] q"
      "e = [] \<or> e = [nl]" "plain h" "list_all (\<lambda>d. d \<noteq> nl) t"
      "caps st = [(3, Suc (length h), t), (2, length h, [q]), (1, 0, h)]"
    unfolding first_quote_compiled seq_mem not_quote by auto
  with caps show thesis
    by (intro that [of q e]) (auto simp: grp_def group_def in_set_def list_all_iff)
qed

lemma number_before_nonempty: "found NUMBER_BEFORE h \<Longrightarrow> h \<noteq> []"
proof -
  have "Search NUMBER_BEFORE [] = None" by code_simp
  then show "found NUMBER_BEFORE h \<Longrightarrow> h \<noteq> []" by auto
qed

definition digit_item :: regex where
  "digit_item = RSeq (RRep True 0 (Some 1) (RChar squote)) (RSet False
     [(CHR ''0'', CHR ''9''), (CHR ''a'', CHR ''z''), (CHR ''A'', CHR ''Z''), (CHR ''_'', CHR ''_'')])"

lemma digits_after_compiled:
  "compiled DIGITS_AFTER = RSeq RBol (RSeq (RGroup 1 (RRep True 0 None digit_item))
     (RSeq (RGroup 2 (RRep True 0 None RAny)) REol))"
  by code_simp

lemma digit_item_caps: "st' \<in> set (ml digit_item st) \<Longrightarrow> caps st' = caps st"
  by (auto simp: digit_item_def step_char_Some)

lemma digits_after_Some:
  assumes "Match DIGITS_AFTER s = Some m"
  obtains e where "s = grp m 1 @ grp m 2 @ e" "e = [] \<or> e = [nl]"
proof -
  from assms obtain st where "st \<in> set (ml (compiled DIGITS_AFTER) (MSt [] s []))"
    and caps: "m_caps m = caps st" by (elim Match_Some)
  then obtain x where x: "x \<in> set (ml (RRep True 0 None digit_item) (MSt [] s []))"
    and st: "st \<in> set (ml (RSeq (RGroup 2 (RRep True 0 None RAny)) REol) (close_group 1 (MSt [] s []) x))"
    by (auto simp: digits_after_compiled)
  from ml_moves [OF x] obtain t where t: "s = t @ after x" "before x = rev t"
    by (auto simp: moves_def)
  from t have cg: "close_group 1 (MSt [] s []) x = MSt (rev t) (after x) ((1, 0, t) # caps x)"
    by (simp add: close_group_def)
  from st obtain u e where "after x = u @ e" "e = [] \<or> e = [nl]" "caps st = (2, length t, u) # (1, 0, t) # caps x"
    unfolding cg seq_mem by auto
  with caps t(1) show thesis by (intro that [of e]) (auto simp: grp_def group_def)
qed

lemma mem_rep_zero: "st \<in> set (ml (RRep True 0 mx r) st)"
  by (simp add: ml.simps(10))

lemma digits_after_total:
  assumes "nl \<notin> set s"
  shows "\<exists>m. Match DIGITS_AFTER s = Some m \<and> s = grp m 1 @ grp m 2"
proof -
  have "MSt (rev s) [] [(2, 0, s), (1, 0, [])] \<in>
      set (ml (RSeq (RGroup 2 (RRep True 0 None RAny)) REol) (close_group 1 (MSt [] s []) (MSt [] s [])))"
    using assms by (auto simp: seq_mem close_group_def list_all_iff simp del: ml.simps(8))
  then have "MSt (rev s) [] [(2, 0, s), (1, 0, [])] \<in> set (ml (compiled DIGITS_AFTER) (MSt [] s []))"
    using mem_rep_zero [of "MSt [] s []" None digit_item]
    by (auto simp: digits_after_compiled simp del: ml.simps(8) simp: mem_seq)
  then obtain m where m: "Match DIGITS_AFTER s = Some m" by (blast dest: MatchI)
  moreover from m obtain e where "s = grp m 1 @ grp m 2 @ e" "e = [] \<or> e = [nl]"
    by (rule digits_after_Some)
  ultimately show ?thesis using assms by auto
qed

function collapse_from :: "string \<Rightarrow> string \<Rightarrow> string result" where
  "collapse_from collapsed elided =
     (case Match FIRST_QUOTE elided of
        None \<Rightarrow> Inr (collapsed @ elided)
      | Some m \<Rightarrow>
          let head = grp m 1; quote = grp m 2; tail = grp m 3 in
          if quote = [dquote] then
            let second_quote = find_str tail [dquote] in
            if second_quote \<ge> 0
            then collapse_from (collapsed @ head @ [dquote, dquote]) (slice_from tail (second_quote + 1))
            else Inr (collapsed @ elided)
          else if found NUMBER_BEFORE head then
            case Match DIGITS_AFTER (squote # tail) of
              None \<Rightarrow> Inl AttributeError
            | Some match_literal \<Rightarrow>
                collapse_from (collapsed @ head @ replace_str (grp match_literal 1) [squote] [])
                  (grp match_literal 2)
          else
            let second_quote = find_str tail [squote] in
            if second_quote \<ge> 0
            then collapse_from (collapsed @ head @ [squote, squote]) (slice_from tail (second_quote + 1))
            else Inr (collapsed @ elided))"
  by pat_completeness auto
termination
proof (relation "measure (\<lambda>(_, elided). length elided)", goal_cases)
  case (2 collapsed elided m head quote tail second)
  then obtain q e where "elided = head @ q # tail @ e" using first_quote_Some by metis
  then show ?case by (simp add: slice_from_def)
next
  case (3 collapsed elided m head quote tail m')
  then obtain q e where "elided = head @ q # tail @ e" using first_quote_Some by metis
  moreover from 3 obtain e' where "squote # tail = grp m' 1 @ grp m' 2 @ e'"
    using digits_after_Some by metis
  then have "length (squote # tail) = length (grp m' 1 @ grp m' 2 @ e')" by (rule arg_cong)
  moreover have "head \<noteq> []" using 3 number_before_nonempty by blast
  ultimately show ?case by (cases head) simp_all
next
  case (4 collapsed elided m head quote tail second)
  then obtain q e where "elided = head @ q # tail @ e" using first_quote_Some by metis
  then show ?case by (simp add: slice_from_def)
qed simp

declare collapse_from.simps [simp del]

definition CollapseStrings :: "string \<Rightarrow> string result" where
  "CollapseStrings elided =
     (if matches PATTERN_INCLUDE elided then Inr elided
      else collapse_from [] (ReplaceAll CLEANSE_LINE_ESCAPES [] elided))"

section \<open>CleansedLines\<close>

record cleansed_lines =
  elided :: "string list"
  lines :: "string list"
  raw_lines :: "string list"
  num_lines :: int
  lines_without_raw_strings :: "string list"

fun map_r :: "('a \<Rightarrow> 'b result) \<Rightarrow> 'a list \<Rightarrow> 'b list result" where
  "map_r f [] = Inr []"
| "map_r f (x # xs) = bind_r (f x) (\<lambda>y. bind_r (map_r f xs) (\<lambda>ys. Inr (y # ys)))"

definition CleansedLines :: "string list \<Rightarrow> cleansed_lines result" where
  "CleansedLines ls =
     bind_r (CleanseRawStrings ls) (\<lambda>without_raw.
       bind_r (map_r CollapseStrings without_raw) (\<lambda>collapsed.
         Inr \<lparr>elided = map CleanseComments collapsed, lines = map CleanseComments without_raw,
           raw_lines = ls, num_lines = int (length ls), lines_without_raw_strings = without_raw\<rparr>))"

definition NumLines :: "cleansed_lines \<Rightarrow> int" where
  "NumLines c = num_lines c"

text \<open>The class invariant: the four copies have \<open>num_lines\<close> lines each.\<close>

definition cl_ok :: "cleansed_lines \<Rightarrow> bool" where
  "cl_ok c \<longleftrightarrow> int (length (elided c)) = num_lines c \<and> int (length (lines c)) = num_lines c
     \<and> int (length (raw_lines c)) = num_lines c \<and> int (length (lines_without_raw_strings c)) = num_lines c"

definition in_file :: "cleansed_lines \<Rightarrow> int \<Rightarrow> bool" where
  "in_file c linenum \<longleftrightarrow> cl_ok c \<and> 0 \<le> linenum \<and> linenum < num_lines c"

lemma in_file_index [simp]:
  assumes "in_file c linenum"
  shows "py_index (elided c) linenum = Inr (elided c ! nat linenum)"
    "py_index (lines c) linenum = Inr (lines c ! nat linenum)"
    "py_index (raw_lines c) linenum = Inr (raw_lines c ! nat linenum)"
    "py_index (lines_without_raw_strings c) linenum = Inr (lines_without_raw_strings c ! nat linenum)"
  using assms by (simp_all add: in_file_def cl_ok_def)

lemma safe_line [safe_intros]:
  assumes "in_file c linenum"
  shows "safe I Q (f (elided c ! nat linenum)) \<Longrightarrow> safe I Q (let_r (py_index (elided c) linenum) f)"
    "safe I Q (f (lines c ! nat linenum)) \<Longrightarrow> safe I Q (let_r (py_index (lines c) linenum) f)"
    "safe I Q (f (raw_lines c ! nat linenum)) \<Longrightarrow> safe I Q (let_r (py_index (raw_lines c) linenum) f)"
    "safe I Q (f (lines_without_raw_strings c ! nat linenum)) \<Longrightarrow>
      safe I Q (let_r (py_index (lines_without_raw_strings c) linenum) f)"
  using assms by simp_all

section \<open>The quote automaton\<close>

text \<open>One pass over the line: skip an escaped backslash, an escaped double quote and the character
  literal of a double quote, and flip the state at every other double quote.\<close>

fun inside_string :: "bool \<Rightarrow> string \<Rightarrow> bool" where
  "inside_string b [] = b"
| "inside_string b (c # cs) =
     (if c = bslash \<and> cs \<noteq> [] \<and> hd cs \<in> {bslash, dquote} then inside_string b (tl cs)
      else if c = squote \<and> prefix [dquote, squote] cs then inside_string b (drop 2 cs)
      else if c = dquote then inside_string (\<not> b) cs
      else inside_string b cs)"

abbreviation unescaped :: "string \<Rightarrow> string" where
  "unescaped line \<equiv> replace_str line [bslash, bslash] ''XX''"

lemma unescaped_hd:
  "unescaped cs \<noteq> [] \<Longrightarrow> hd (unescaped cs) \<noteq> CHR ''X'' \<Longrightarrow> cs \<noteq> [] \<and> hd (unescaped cs) = hd cs"
  by (cases cs) (auto split: if_splits)

lemma unescaped_bslash: "cs = [] \<or> hd cs \<noteq> bslash \<Longrightarrow> unescaped (bslash # cs) = bslash # unescaped cs"
  by (cases cs) auto

lemma unescaped_other: "c \<noteq> bslash \<Longrightarrow> unescaped (c # cs) = c # unescaped cs"
  by auto

lemma prefix1: "prefix [c] s \<longleftrightarrow> s \<noteq> [] \<and> hd s = c"
  by (cases s) auto

lemma unescaped_prefix1: "c \<noteq> CHR ''X'' \<Longrightarrow> prefix [c] (unescaped cs) \<Longrightarrow> prefix [c] cs"
  using unescaped_hd [of cs] by (auto simp: prefix1)

lemma unescaped_quote_char:
  "prefix [dquote, squote] (unescaped cs) \<Longrightarrow> prefix [dquote, squote] cs"
proof (cases cs)
  case (Cons d ds)
  assume p: "prefix [dquote, squote] (unescaped cs)"
  then have "prefix [dquote] (unescaped cs)" by (auto simp: prefix_def)
  then have "d = dquote" using unescaped_prefix1 [of dquote cs] Cons by simp
  with p Cons show ?thesis using unescaped_prefix1 [of squote ds] by simp
qed simp

lemma IsCppString_counts:
  "(count_str (unescaped line) [dquote] - count_str (unescaped line) [bslash, dquote]
      - count_str (unescaped line) [squote, dquote, squote]) mod 2 =
    (if inside_string b line = b then 0 else 1)"
proof (induction b line rule: inside_string.induct)
  case (2 b c cs)
  consider (esc) "c = bslash" "prefix [bslash] cs" | (escq) "c = bslash" "prefix [dquote] cs"
    | (bs) "c = bslash" "\<not> prefix [bslash] cs" "\<not> prefix [dquote] cs"
    | (lit) "c = squote" "prefix [dquote, squote] cs" | (sq) "c = squote" "\<not> prefix [dquote, squote] cs"
    | (dq) "c = dquote" | (other) "c \<noteq> bslash" "c \<noteq> squote" "c \<noteq> dquote" by blast
  then show ?case
  proof cases
    case esc
    then obtain cs' where "cs = bslash # cs'" by (auto simp: prefix_def)
    with esc 2(1) show ?thesis by simp
  next
    case escq
    then obtain cs' where "cs = dquote # cs'" by (auto simp: prefix_def)
    with escq 2(1) show ?thesis by simp
  next
    case bs
    then have "unescaped (c # cs) = bslash # unescaped cs" "\<not> prefix [dquote] (unescaped cs)"
      using unescaped_bslash [of cs] unescaped_prefix1 [of dquote cs] by (auto simp: prefix1)
    moreover have no: "\<not> (c = bslash \<and> cs \<noteq> [] \<and> hd cs \<in> {bslash, dquote})"
      using bs by (auto simp: prefix1)
    then have "inside_string b (c # cs) = inside_string b cs" using bs(1) by auto
    ultimately show ?thesis using 2(4) [OF no] bs(1) by simp
  next
    case lit
    then obtain cs' where "cs = dquote # squote # cs'" by (auto simp: prefix_def)
    with lit 2(2) show ?thesis by (simp add: algebra_simps)
  next
    case sq
    with 2(4) unescaped_quote_char [of cs] show ?thesis by (auto simp: unescaped_other simp del: replace_str.simps)
  next
    case dq
    have flip: "(1 + x - y - z) mod 2 = (if b' = b then 0 else 1)"
      if "(x - y - z) mod 2 = (if b' = (\<not> b) then 0 else 1)" for x y z :: int and b'
      using that by (cases "b' = b") (simp_all, presburger+)
    from dq 2(3) show ?thesis by (simp add: unescaped_other flip del: replace_str.simps)
  next
    case other
    with 2(4) show ?thesis by (simp add: unescaped_other del: replace_str.simps)
  qed
qed simp

section \<open>The cleansing functions are total\<close>

lemma find_at_Some:
  "0 \<le> find_at sub i s \<Longrightarrow> \<exists>u v. s = u @ sub @ v \<and> find_at sub i s = int i + int (length u)"
proof (induction s arbitrary: i)
  case (Cons c s)
  show ?case
  proof (cases "prefix sub (c # s)")
    case True
    then obtain v where "c # s = sub @ v" by (auto simp: prefix_def)
    with True show ?thesis
      by (metis append_Nil find_at.simps(2) list.size(3) of_nat_0 add_0_right)
  next
    case False
    with Cons obtain u v where "s = u @ sub @ v" "find_at sub (Suc i) s = int (Suc i) + int (length u)" by fastforce
    with False show ?thesis by (intro exI [of _ "c # u"] exI [of _ v]) simp
  qed
qed (simp split: if_splits)

lemma find_str_Some:
  assumes "0 \<le> find_str s sub"
  obtains u v where "s = u @ sub @ v" "find_str s sub = int (length u)"
  using find_at_Some [of sub 0 s] assms by (auto simp: find_str_def)

lemma leading_space_total:
  assumes "c \<in> set line" "in_set True [(CHR '' '', CHR '' ''), (tab, cr)] c"
  shows "\<exists>m. Match (rx ''^(`s*)`S'') line = Some m"
proof -
  have comp: "compiled (rx ''^(`s*)`S'') = RSeq RBol (RSeq
      (RGroup 1 (RRep True 0 None (RSet False [(CHR '' '', CHR '' ''), (tab, cr)])))
      (RSet True [(CHR '' '', CHR '' ''), (tab, cr)]))"
    by code_simp
  let ?P = "in_set True [(CHR '' '', CHR '' ''), (tab, cr)]"
  from split_list_first_prop [of line ?P] assms obtain u d v
    where uv: "line = u @ d # v" "?P d" "\<forall>x\<in>set u. \<not> ?P x" by blast
  then have "list_all (in_set False [(CHR '' '', CHR '' ''), (tab, cr)]) u"
    by (auto simp: list_all_iff in_set_def)
  with uv have "MSt (d # rev u) v [(1, 0, u)] \<in> set (ml (compiled (rx ''^(`s*)`S'')) (MSt [] line []))"
    unfolding comp seq_mem by auto
  then show ?thesis by (rule MatchI)
qed

definition closing :: "string \<Rightarrow> bool" where
  "closing d \<longleftrightarrow> (\<exists>t. d = '')'' @ t)"

lemma raw_starts_closing: "raw_starts line = (line', Some d) \<Longrightarrow> closing d"
proof (induction line rule: raw_starts.induct)
  case (1 line)
  from "1.prems" show ?case
    by (subst (asm) raw_starts.simps)
      (auto simp: Let_def raw_delimiter_def closing_def split: if_splits dest: "1.IH" [OF refl _ refl refl refl])
qed

lemma resume_raw_total: "closing d \<Longrightarrow> \<exists>r. resume_raw d line = Inr r \<and> (\<forall>d'. snd r = Some d' \<longrightarrow> closing d')"
proof (cases "0 \<le> find_str line d")
  case True
  assume "closing d"
  with True have "CHR '')'' \<in> set line"
    by (elim find_str_Some) (auto simp: closing_def)
  moreover have "in_set True [(CHR '' '', CHR '' ''), (tab, cr)] CHR '')''" by code_simp
  ultimately obtain m where "Match (rx ''^(`s*)`S'') line = Some m" using leading_space_total by blast
  with True show ?thesis by (simp add: resume_raw_def Let_def)
qed (simp add: resume_raw_def)

lemma raw_line_total:
  assumes "\<And>d. delimiter = Some d \<Longrightarrow> closing d"
  shows "\<exists>r. raw_line delimiter line = Inr r \<and> (\<forall>d'. snd r = Some d' \<longrightarrow> closing d')"
proof -
  obtain r where r: "(case delimiter of None \<Rightarrow> Inr (line, None) | Some d \<Rightarrow> resume_raw d line) = Inr r"
      "\<And>d'. snd r = Some d' \<Longrightarrow> closing d'"
    using resume_raw_total assms by (cases delimiter) force+
  show ?thesis
  proof (cases "snd r")
    case None
    with r(1) have "raw_line delimiter line = Inr (raw_starts (fst r))"
      by (cases r) (simp add: raw_line_def)
    moreover have "closing d'" if "snd (raw_starts (fst r)) = Some d'" for d'
      using that by (cases "raw_starts (fst r)") (auto dest: raw_starts_closing)
    ultimately show ?thesis by blast
  next
    case (Some d)
    with r show ?thesis by (cases r) (simp add: raw_line_def)
  qed
qed

lemma raw_lines_loop_total:
  "(\<And>d. delimiter = Some d \<Longrightarrow> closing d) \<Longrightarrow> \<exists>out. raw_lines_loop delimiter ls = Inr out \<and> length out = length ls"
proof (induction ls arbitrary: delimiter)
  case (Cons l ls)
  from raw_line_total [OF Cons.prems] obtain l' d' where "raw_line delimiter l = Inr (l', d')"
    "\<And>d. d' = Some d \<Longrightarrow> closing d" by force
  moreover with Cons.IH [of d'] obtain out where "raw_lines_loop d' ls = Inr out" "length out = length ls" by blast
  ultimately show ?case by simp
qed simp

lemma CleanseRawStrings_total: "\<exists>out. CleanseRawStrings ls = Inr out \<and> length out = length ls"
  unfolding CleanseRawStrings_def by (rule raw_lines_loop_total) simp

lemma subseq_take: "subseq (take n s) s"
  using list_emb_append2 [of "(=)" "take n s" "take n s" "drop n s"]
  by (metis append_take_drop_id prefix_imp_subseq take_is_prefix)

lemma rstrip_prefix: "prefix (rstrip s) s"
  by (metis rstrip_def rev_rev_ident suffix_dropWhile suffix_to_prefix)

lemma rstrip_subseq: "subseq (rstrip s) s"
  by (rule prefix_imp_subseq) (rule rstrip_prefix)

lemma CleanseComments_subseq: "subseq (CleanseComments line) line"
proof -
  have "subseq (rstrip (slice_to line i)) line" for i
    by (rule subseq_order.order_trans [OF rstrip_subseq]) (simp add: slice_to_def subseq_take)
  then show ?thesis
    unfolding CleanseComments_def ReplaceAll_def Let_def
    by (auto intro: subseq_order.order_trans [OF re_sub_delete_subseq])
qed

lemma subseq_replace_squote: "subseq (replace_str s [squote] []) s"
  by (induction s) auto

lemma slice_from_after:
  assumes "0 \<le> find_str t [q]"
  shows "\<exists>u v. t = u @ q # v \<and> slice_from t (find_str t [q] + 1) = v"
proof -
  from assms obtain u v where uv: "t = u @ [q] @ v" "find_str t [q] = int (length u)" by (rule find_str_Some)
  then have "slice_from t (int (Suc (length u))) = v" by (simp only: slice_from_nat) simp
  then show ?thesis using uv by (intro exI [of _ u] exI [of _ v]) (simp add: add.commute)
qed

lemma collapse_from_subseq:
  "\<exists>out. collapse_from collapsed txt0 = Inr (collapsed @ out) \<and> subseq out txt0"
proof (induction collapsed txt0 rule: collapse_from.induct)
  case (1 collapsed txt0)
  show ?case
  proof (cases "Match FIRST_QUOTE txt0")
    case None
    then show ?thesis by (subst collapse_from.simps) simp
  next
    case (Some m)
    let ?h = "grp m 1" and ?t = "grp m 3"
    from Some obtain q e where q: "grp m 2 = [q]" "txt0 = ?h @ q # ?t @ e" "q = squote \<or> q = dquote" "nl \<notin> set ?t"
      by (rule first_quote_Some)
    note IH = "1.IH" [OF Some refl refl refl]
    have shorten: "subseq (?h @ [q, q] @ out) txt0"
      if "0 \<le> find_str ?t [q]" "subseq out (slice_from ?t (find_str ?t [q] + 1))" for out
    proof -
      from slice_from_after [OF that(1)] that(2) obtain u v where "?t = u @ q # v" "subseq out v" by auto
      then have "subseq ([q, q] @ out) (q # ?t @ e)"
        by (auto intro: list_emb_append2 list_emb_prefix)
      then show ?thesis unfolding q(2) by (intro list_emb_append_mono) auto
    qed
    consider (dq) "q = dquote" | (num) "q = squote" "found NUMBER_BEFORE ?h"
      | (sq) "q = squote" "\<not> found NUMBER_BEFORE ?h" using q(3) by blast
    then show ?thesis
    proof cases
      case dq
      show ?thesis
      proof (cases "0 \<le> find_str ?t [dquote]")
        case True
        with IH(1) q(1) dq obtain out where "collapse_from (collapsed @ ?h @ [dquote, dquote])
            (slice_from ?t (find_str ?t [dquote] + 1)) = Inr ((collapsed @ ?h @ [dquote, dquote]) @ out)"
            "subseq out (slice_from ?t (find_str ?t [dquote] + 1))" by blast
        with shorten True dq q(1) Some show ?thesis
          by (subst collapse_from.simps) simp
      qed (use Some dq q(1) in \<open>subst collapse_from.simps, simp\<close>)
    next
      case num
      from digits_after_total [of "squote # ?t"] q(4) obtain m' where
        m': "Match DIGITS_AFTER (squote # ?t) = Some m'" "squote # ?t = grp m' 1 @ grp m' 2" by auto
      with IH(2) q(1) num obtain out where "collapse_from
          (collapsed @ ?h @ replace_str (grp m' 1) [squote] []) (grp m' 2) =
            Inr ((collapsed @ ?h @ replace_str (grp m' 1) [squote] []) @ out)" "subseq out (grp m' 2)" by fastforce
      moreover have "txt0 = ?h @ (grp m' 1 @ grp m' 2) @ e" using q(2) num(1) m'(2) by (metis append_Cons)
      then have "subseq (?h @ replace_str (grp m' 1) [squote] [] @ out) txt0"
        using list_emb_append_mono [OF subseq_replace_squote subseq_rev_drop_many [OF calculation(2)], of "grp m' 1" e]
        by (simp add: subseq_append')
      ultimately show ?thesis using num q(1) Some m'(1)
        by (subst collapse_from.simps) simp
    next
      case sq
      show ?thesis
      proof (cases "0 \<le> find_str ?t [squote]")
        case True
        with IH(3) q(1) sq obtain out where "collapse_from (collapsed @ ?h @ [squote, squote])
            (slice_from ?t (find_str ?t [squote] + 1)) = Inr ((collapsed @ ?h @ [squote, squote]) @ out)"
            "subseq out (slice_from ?t (find_str ?t [squote] + 1))" by fastforce
        with shorten True sq q(1) Some show ?thesis
          by (subst collapse_from.simps) simp
      qed (use Some sq q(1) in \<open>subst collapse_from.simps, simp\<close>)
    qed
  qed
qed

lemma CollapseStrings_total: "\<exists>out. CollapseStrings line = Inr out \<and> subseq out line"
proof (cases "matches PATTERN_INCLUDE line")
  case True
  then show ?thesis by (auto simp: CollapseStrings_def)
next
  case False
  from collapse_from_subseq [of "[]" "ReplaceAll CLEANSE_LINE_ESCAPES [] line"] obtain out where
    "collapse_from [] (ReplaceAll CLEANSE_LINE_ESCAPES [] line) = Inr out"
    "subseq out (ReplaceAll CLEANSE_LINE_ESCAPES [] line)" by auto
  moreover have "subseq (ReplaceAll CLEANSE_LINE_ESCAPES [] line) line"
    by (simp add: ReplaceAll_def re_sub_delete_subseq)
  ultimately show ?thesis using False by (auto simp: CollapseStrings_def intro: subseq_order.order_trans)
qed

lemma map_r_total:
  "(\<And>x. \<exists>y. f x = Inr y \<and> Q x y) \<Longrightarrow> \<exists>ys. map_r f xs = Inr ys \<and> list_all2 Q xs ys"
proof (induction xs)
  case (Cons x xs)
  then show ?case by (metis bind_r_simps(1) list_all2_Cons map_r.simps(2))
qed simp

lemma CleansedLines_result:
  "\<exists>c. CleansedLines ls = Inr c \<and> raw_lines c = ls \<and> num_lines c = int (length ls)
     \<and> length (lines_without_raw_strings c) = length ls
     \<and> list_all2 subseq (lines c) (lines_without_raw_strings c)
     \<and> list_all2 subseq (elided c) (lines_without_raw_strings c)"
proof -
  from CleanseRawStrings_total [of ls] obtain w where w: "CleanseRawStrings ls = Inr w" "length w = length ls" by blast
  from map_r_total [of CollapseStrings "\<lambda>x y. subseq y x" w] CollapseStrings_total
  obtain ys where ys: "map_r CollapseStrings w = Inr ys" "list_all2 (\<lambda>x y. subseq y x) w ys" by blast
  from ys(2) have "list_all2 subseq (map CleanseComments ys) w"
    by (auto simp: list_all2_conv_all_nth intro: subseq_order.order_trans [OF CleanseComments_subseq])
  moreover have "list_all2 subseq (map CleanseComments w) w"
    by (simp add: list_all2_conv_all_nth CleanseComments_subseq)
  ultimately show ?thesis using w ys by (simp add: CleansedLines_def)
qed

lemma CleansedLines_ok: "\<exists>c. CleansedLines ls = Inr c \<and> cl_ok c \<and> raw_lines c = ls"
  using CleansedLines_result [of ls] by (auto simp: cl_ok_def dest!: list_all2_lengthD)

section \<open>Multi-line comments in one pass\<close>

text \<open>The reference: a comment runs from a line that opens one to the first line, that one
  included, that closes one; its lines are blanked.  The second component is the line of an
  unterminated comment, whose text stays.\<close>

fun strip_comments :: "nat \<Rightarrow> string list \<Rightarrow> string list \<times> nat option" where
  "strip_comments n [] = ([], None)"
| "strip_comments n (l # ls) =
     (if opens_comment l then
        (let k = length (takeWhile (\<lambda>x. \<not> closes_comment x) (l # ls)) in
         if k \<le> length ls
         then apfst (\<lambda>rest. replicate (Suc k) ''/**/'' @ rest) (strip_comments (n + Suc k) (drop k ls))
         else (l # ls, Some n))
      else apfst (Cons l) (strip_comments (Suc n) ls))"

lemma blank_range:
  "b \<le> e \<Longrightarrow> e \<le> length ls \<Longrightarrow>
    foldl (\<lambda>ls i. ls[i := x]) ls [b..<e] = take b ls @ replicate (e - b) x @ drop e ls"
proof (induction e)
  case (Suc e)
  show ?case
  proof (cases "b = Suc e")
    case False
    with Suc have "foldl (\<lambda>ls i. ls[i := x]) ls [b..<e] = take b ls @ replicate (e - b) x @ drop e ls" "b \<le> e"
      by auto
    moreover have "drop e ls = ls ! e # drop (Suc e) ls" using Suc.prems by (simp add: Cons_nth_drop_Suc)
    ultimately show ?thesis using Suc.prems
      by (simp add: list_update_append Suc_diff_le replicate_append_same [symmetric])
  qed simp
qed simp

lemma FindNextMultiLineCommentStart_eq:
  "FindNextMultiLineCommentStart ls i =
     (if i \<le> length ls then i + length (takeWhile (\<lambda>x. \<not> opens_comment x) (drop i ls)) else length ls)"
proof (induction ls i rule: FindNextMultiLineCommentStart.induct)
  case (1 ls i)
  show ?case
  proof (cases "i < length ls")
    case True
    then have "drop i ls = ls ! i # drop (Suc i) ls" by (simp add: Cons_nth_drop_Suc)
    with 1 True show ?thesis by (subst FindNextMultiLineCommentStart.simps) simp
  qed (subst FindNextMultiLineCommentStart.simps, simp)
qed

lemma FindNextMultiLineCommentEnd_eq:
  "FindNextMultiLineCommentEnd ls i =
     (if i \<le> length ls then i + length (takeWhile (\<lambda>x. \<not> closes_comment x) (drop i ls)) else length ls)"
proof (induction ls i rule: FindNextMultiLineCommentEnd.induct)
  case (1 ls i)
  show ?case
  proof (cases "i < length ls")
    case True
    then have "drop i ls = ls ! i # drop (Suc i) ls" by (simp add: Cons_nth_drop_Suc)
    with 1 True show ?thesis by (subst FindNextMultiLineCommentEnd.simps) simp
  qed (subst FindNextMultiLineCommentEnd.simps, simp)
qed

lemma strip_comments_skip:
  "strip_comments n ls =
     (let k = length (takeWhile (\<lambda>x. \<not> opens_comment x) ls)
      in apfst (append (take k ls)) (strip_comments (n + k) (drop k ls)))"
  by (induction ls arbitrary: n) (auto simp: Let_def apfst_def map_prod_def split: prod.splits)

definition comments_outcome :: "string \<Rightarrow> error_fn \<Rightarrow> string list \<times> nat option \<Rightarrow> (lint, string list) py" where
  "comments_outcome filename error r =
     (case r of
        (ls, None) \<Rightarrow> ret ls
      | (ls, Some n) \<Rightarrow>
          seq (error filename (int n + 1) ''readability/multiline_comment'' 5
                 ''Could not find end of multi-line comment'') (ret ls))"

lemma remove_comments_from_eq:
  "i \<le> length ls \<Longrightarrow> remove_comments_from filename error ls i =
     comments_outcome filename error (apfst (append (take i ls)) (strip_comments i (drop i ls)))"
proof (induction filename error ls i rule: remove_comments_from.induct)
  case (1 filename error ls i)
  define k where "k = length (takeWhile (\<lambda>x. \<not> opens_comment x) (drop i ls))"
  define b where "b = i + k"
  have kle: "k \<le> length (drop i ls)" unfolding k_def by (rule length_takeWhile_le)
  have "take i ls @ take k (drop i ls) = take b ls" by (simp add: b_def take_add)
  then have rhs: "apfst (append (take i ls)) (strip_comments i (drop i ls)) =
      apfst (append (take b ls)) (strip_comments b (drop b ls))"
    using strip_comments_skip [of i "drop i ls"]
    by (simp add: k_def [symmetric] b_def add.commute apfst_def map_prod_def append_assoc [symmetric]
        split: prod.splits del: append_assoc)
  have start: "FindNextMultiLineCommentStart ls i = b"
    using "1.prems" by (simp add: FindNextMultiLineCommentStart_eq b_def k_def)
  show ?case
  proof (cases "b < length ls")
    case False
    with rhs start "1.prems" show ?thesis
      by (subst remove_comments_from.simps) (auto simp: comments_outcome_def Let_def)
  next
    case True
    have ib: "i < length ls" using True by (simp add: b_def)
    have d: "drop b ls = ls ! b # drop (Suc b) ls" using True by (simp add: Cons_nth_drop_Suc)
    have op: "opens_comment (ls ! b)"
      using True nth_length_takeWhile [of "\<lambda>x. \<not> opens_comment x" "drop i ls"]
      by (simp add: b_def k_def [symmetric])
    define j where "j = length (takeWhile (\<lambda>x. \<not> closes_comment x) (drop b ls))"
    have fin: "FindNextMultiLineCommentEnd ls b = b + j"
      using True by (simp add: FindNextMultiLineCommentEnd_eq j_def)
    show ?thesis
    proof (cases "b + j < length ls")
      case False
      then have "strip_comments b (drop b ls) = (drop b ls, Some b)"
        using op d True by (simp add: Let_def j_def)
      with rhs start fin True False ib show ?thesis
        by (subst remove_comments_from.simps) (simp add: comments_outcome_def Let_def)
    next
      case jl: True
      let ?ls = "take b ls @ replicate (Suc j) ''/**/'' @ drop (Suc (b + j)) ls"
      have rm: "RemoveMultiLineCommentsFromRange ls b (b + j + 1) = Inr ?ls"
        using jl blank_range [of b "b + j + 1" ls "''/**/''"]
        by (simp add: RemoveMultiLineCommentsFromRange_def del: upt_Suc)
      have "remove_comments_from filename error ?ls (b + j + 1) = comments_outcome filename error
          (apfst (append (take (b + j + 1) ?ls)) (strip_comments (b + j + 1) (drop (b + j + 1) ?ls)))"
        by (rule "1.IH" [OF ib start [symmetric] _ fin [symmetric] _ rm]) (use True jl in auto)
      moreover have "take (b + j + 1) ?ls = take b ls @ replicate (Suc j) ''/**/''"
        "drop (b + j + 1) ?ls = drop (Suc (b + j)) ls" using jl True by (simp_all add: min_def)
      moreover have "strip_comments b (drop b ls) =
          apfst (append (replicate (Suc j) ''/**/'')) (strip_comments (b + Suc j) (drop (Suc (b + j)) ls))"
      proof -
        have "j \<le> length (drop (Suc b) ls)" using jl by simp
        then show ?thesis using op unfolding d
          by (simp only: strip_comments.simps j_def [symmetric, unfolded d] Let_def if_True drop_drop) (simp add: add.commute)
      qed
      ultimately show ?thesis using rhs start fin ib True jl rm
        by (subst remove_comments_from.simps)
          (simp add: Let_def apfst_def map_prod_def split: prod.splits)
    qed
  qed
qed

lemma blank_not_open: "\<not> opens_comment ''/**/''"
  by code_simp

lemma strip_comments_length: "length (fst (strip_comments n ls)) = length ls"
proof (induction n ls rule: strip_comments.induct)
  case (2 n l ls)
  then show ?case by (auto simp: Let_def min_def)
qed simp

lemma strip_comments_append:
  "snd (strip_comments n pre) = None \<Longrightarrow>
     strip_comments n (pre @ ls) = apfst (append (fst (strip_comments n pre))) (strip_comments (n + length pre) ls)"
proof (induction n pre rule: strip_comments.induct)
  case (2 n l pre)
  show ?case
  proof (cases "opens_comment l")
    case True
    define k where "k = length (takeWhile (\<lambda>x. \<not> closes_comment x) (l # pre))"
    with True "2.prems" have k: "k \<le> length pre" by (auto simp: Let_def split: if_splits)
    have "\<not> list_all (\<lambda>x. \<not> closes_comment x) (l # pre)"
    proof
      assume "list_all (\<lambda>x. \<not> closes_comment x) (l # pre)"
      then have "takeWhile (\<lambda>x. \<not> closes_comment x) (l # pre) = l # pre" unfolding list_all_iff takeWhile_eq_all_conv .
      with k show False by (simp add: k_def)
    qed
    then have "takeWhile (\<lambda>x. \<not> closes_comment x) ((l # pre) @ ls) = takeWhile (\<lambda>x. \<not> closes_comment x) (l # pre)"
      by (simp only: takeWhile_append list_all_iff) auto
    then have tw: "length (takeWhile (\<lambda>x. \<not> closes_comment x) (l # pre @ ls)) = k" by (simp add: k_def)
    have "snd (strip_comments (n + Suc k) (drop k pre)) = None"
      using True k "2.prems" by (simp add: k_def [symmetric] Let_def del: takeWhile.simps)
    from "2.IH"(1) [OF True k_def k this] k True tw show ?thesis
      by (simp add: k_def [symmetric] Let_def apfst_def map_prod_def split_beta del: takeWhile.simps)
  next
    case False
    with 2 show ?thesis by (simp add: apfst_def map_prod_def split_beta)
  qed
qed (simp add: apfst_def map_prod_def)

lemma strip_comment:
  assumes "opens_comment a" "list_all (\<lambda>l. \<not> closes_comment l) (a # body)" "closes_comment z"
  shows "strip_comments n (a # body @ z # rest) =
    apfst (append (replicate (length body + 2) ''/**/'')) (strip_comments (n + length body + 2) rest)"
proof -
  have "takeWhile (\<lambda>x. \<not> closes_comment x) (a # body @ z # rest) = a # body"
    using assms(2,3) by (simp add: list_all_iff takeWhile_append2)
  then show ?thesis using assms(1) by (simp add: Let_def apfst_def map_prod_def del: takeWhile.simps)
qed

lemma takeWhile_full: "length xs \<le> length (takeWhile P xs) \<Longrightarrow> list_all P xs"
  by (induction xs) (auto split: if_splits)

lemma strip_comments_result:
  "case strip_comments n ls of
     (out, None) \<Rightarrow> list_all (\<lambda>l. \<not> opens_comment l) out
   | (out, Some k) \<Rightarrow> n \<le> k \<and> k < n + length ls \<and> opens_comment (ls ! (k - n))
       \<and> list_all (\<lambda>l. \<not> closes_comment l) (drop (k - n) ls)"
proof (induction n ls rule: strip_comments.induct)
  case (2 n l ls)
  define k where "k = length (takeWhile (\<lambda>x. \<not> closes_comment x) (l # ls))"
  consider (plain) "\<not> opens_comment l" | (closed) "opens_comment l" "k \<le> length ls"
    | (unclosed) "opens_comment l" "length ls < k" by linarith
  then show ?case
  proof cases
    case plain
    with "2.IH"(2) show ?thesis
      by (auto simp: Suc_diff_le drop_Cons' split: prod.splits option.splits)
  next
    case closed
    then have eq: "strip_comments n (l # ls) = apfst (append (replicate (Suc k) ''/**/'')) (strip_comments (n + Suc k) (drop k ls))"
      by (simp only: strip_comments.simps k_def [symmetric] Let_def if_True)
    have "l # ls = take (Suc k) (l # ls) @ drop k ls" by simp
    with closed "2.IH"(1) [OF closed(1) k_def] show ?thesis unfolding eq
      by (auto simp: blank_not_open list_all_iff nth_Cons' drop_Cons' add.commute split: prod.splits option.splits)
  next
    case unclosed
    then have "list_all (\<lambda>x. \<not> closes_comment x) (l # ls)"
      by (intro takeWhile_full) (simp only: k_def length_Cons Suc_le_eq)
    with unclosed show ?thesis by (simp add: k_def)
  qed
qed simp

section \<open>String literals\<close>

lemma first_quote_unique:
  assumes "plain h" "plain h'" "h @ q # t = h' @ q' # t'" "\<not> plain [q]" "\<not> plain [q']"
  shows "h = h' \<and> q = q' \<and> t = t'"
proof -
  have "takeWhile (\<lambda>c. plain [c]) (u @ c # v) = u" if "plain u" "\<not> plain [c]" for u c v
    using that by (subst takeWhile_append2) (auto simp: plain_def)
  from this [OF assms(1,4)] this [OF assms(2,5)] have "h = h'"
    using assms(3) by metis
  with assms(3) show ?thesis by simp
qed

lemma first_quote_at:
  assumes "plain h" "q = squote \<or> q = dquote" "nl \<notin> set t"
  shows "\<exists>m. Match FIRST_QUOTE (h @ q # t) = Some m \<and> grp m 1 = h \<and> grp m 2 = [q] \<and> grp m 3 = t"
proof -
  have "MSt (rev t @ q # rev h) [] [(3, Suc (length h), t), (2, length h, [q]), (1, 0, h)]
      \<in> set (ml (compiled FIRST_QUOTE) (MSt [] (h @ q # t) []))"
    unfolding first_quote_compiled seq_mem not_quote
    using assms by (auto simp: in_set_def list_all_iff intro!: exI [of _ h])
  then obtain m where m: "Match FIRST_QUOTE (h @ q # t) = Some m" by (blast dest: MatchI)
  then obtain q' e where "grp m 2 = [q']" "h @ q # t = grp m 1 @ q' # grp m 3 @ e" "q' = squote \<or> q' = dquote"
      "e = [] \<or> e = [nl]" "plain (grp m 1)" by (rule first_quote_Some)
  with first_quote_unique [of h "grp m 1" q t q' "grp m 3 @ e"] assms m show ?thesis
    by (auto simp: plain_def)
qed

lemma find_str_first: "c \<notin> set u \<Longrightarrow> find_str (u @ c # v) [c] = int (length u)"
proof -
  have "find_at [c] i (u @ c # v) = int i + int (length u)" if "c \<notin> set u" for i
    using that by (induction u arbitrary: i) auto
  then show "c \<notin> set u \<Longrightarrow> find_str (u @ c # v) [c] = int (length u)" by (simp add: find_str_def)
qed

lemma collapse_from_literal:
  assumes "plain head" "dquote \<notin> set content" "nl \<notin> set content" "nl \<notin> set rest"
  shows "collapse_from acc (head @ dquote # content @ dquote # rest) = collapse_from (acc @ head @ [dquote, dquote]) rest"
proof -
  from first_quote_at [of head dquote "content @ dquote # rest"] assms obtain m where
    "Match FIRST_QUOTE (head @ dquote # content @ dquote # rest) = Some m" "grp m 1 = head"
    "grp m 2 = [dquote]" "grp m 3 = content @ dquote # rest" by auto
  moreover have "find_str (content @ dquote # rest) [dquote] + 1 = int (Suc (length content))"
    using assms(2) by (simp add: find_str_first)
  then have "slice_from (content @ dquote # rest) (find_str (content @ dquote # rest) [dquote] + 1) = rest"
    by (simp only: slice_from_nat) simp
  ultimately show ?thesis using assms(2)
    by (subst collapse_from.simps) (simp add: find_str_first)
qed

lemma escapes_none:
  assumes "bslash \<notin> set s"
  shows "ReplaceAll CLEANSE_LINE_ESCAPES [] s = s"
proof (rule ReplaceAll_id)
  have "\<exists>r. compiled CLEANSE_LINE_ESCAPES = RSeq (RChar bslash) r" by (rule exI) code_simp
  then obtain r where r: "compiled CLEANSE_LINE_ESCAPES = RSeq (RChar bslash) r" by blast
  have "run_at (RSeq (RChar bslash) r) b v = None" if "bslash \<notin> set v" for b v
    using that by (cases v) (auto simp: run_at_None opt_list_def)
  then show "\<not> found CLEANSE_LINE_ESCAPES s"
    using assms by (auto simp: Search_def re_search_def r search_from_None)
qed

section \<open>Properties\<close>

text \<open>C10: \<open>IsCppString\<close>, which counts substrings after rewriting the line, computes what its
  documentation promises in one pass over the line: whether the next character is inside a string
  constant, where escaped backslashes, escaped quotes and the character literal of a double quote
  do not open or close a string.\<close>

theorem IsCppString_automaton: "IsCppString line = inside_string False line"
  using IsCppString_counts [of line False] by (simp add: IsCppString_def Let_def split: if_splits)

text \<open>C11: preprocessing a file never raises, whatever its lines are; the four copies of the lines have
  the same length, as the class comment says, and a line of the copies without comments or without
  strings and comments only drops characters of the line without raw strings.\<close>

theorem CleansedLines_aligned:
  "\<exists>c. CleansedLines ls = Inr c \<and> raw_lines c = ls \<and> NumLines c = int (length ls)
     \<and> length (lines_without_raw_strings c) = length ls \<and> length (lines c) = length ls \<and> length (elided c) = length ls
     \<and> list_all2 subseq (lines c) (lines_without_raw_strings c)
     \<and> list_all2 subseq (elided c) (lines_without_raw_strings c)"
proof -
  from CleansedLines_result [of ls] obtain c where c: "CleansedLines ls = Inr c" "raw_lines c = ls"
    "num_lines c = int (length ls)" "length (lines_without_raw_strings c) = length ls"
    "list_all2 subseq (lines c) (lines_without_raw_strings c)"
    "list_all2 subseq (elided c) (lines_without_raw_strings c)" by blast
  from c(5,6) have "length (lines c) = length ls" "length (elided c) = length ls"
    using c(4) by (auto dest: list_all2_lengthD)
  with c show ?thesis by (auto simp: NumLines_def)
qed

text \<open>C6: \<open>RemoveMultiLineComments\<close> always returns; it blanks exactly the lines of the multi-line comments
  that a single pass over the lines finds, keeps the number of lines, and leaves no line that
  opens a multi-line comment, unless a comment is unterminated: then the text from that comment on is kept
  and the one error is reported at \<open>k + 1\<close>, where \<open>k\<close> is the position of the line that opens the comment.  In
  \<open>ProcessFileData\<close> positions are line numbers, because a marker line comes first, so that the report names
  the line after the one that opens the comment.\<close>

theorem RemoveMultiLineComments_reference:
  "length (fst (strip_comments 0 ls)) = length ls
   \<and> (case strip_comments 0 ls of
        (out, None) \<Rightarrow> RemoveMultiLineComments filename ls error = ret out \<and> list_all (\<lambda>l. \<not> opens_comment l) out
      | (out, Some k) \<Rightarrow>
          RemoveMultiLineComments filename ls error =
            seq (error filename (int k + 1) ''readability/multiline_comment'' 5 ''Could not find end of multi-line comment'') (ret out)
          \<and> k < length ls \<and> opens_comment (ls ! k) \<and> list_all (\<lambda>l. \<not> closes_comment l) (drop k ls))"
  using remove_comments_from_eq [of 0 ls filename error] strip_comments_result [of 0 ls]
  by (simp add: RemoveMultiLineComments_def comments_outcome_def strip_comments_length split: prod.splits option.splits)

text \<open>C16: on a line without escapes that is not an \<open>#include\<close>, a string literal that has no quote of either kind before
  it leaves nothing of its contents in the elided line: \<open>_CollapseStrings\<close> replaces the literal by an empty one and goes on
  after its closing quote.\<close>

theorem CollapseStrings_erases_literal:
  assumes "plain head" and "dquote \<notin> set content"
    and "{nl, bslash} \<inter> set (head @ content @ rest) = {}"
    and "Match PATTERN_INCLUDE (head @ dquote # content @ dquote # rest) = None"
  shows "CollapseStrings (head @ dquote # content @ dquote # rest) = collapse_from (head @ [dquote, dquote]) rest"
  using assms collapse_from_literal [of head content rest "[]"]
  by (simp add: CollapseStrings_def escapes_none)

theorem CollapseStrings_erases_literal_witness:
  "CollapseStrings (''x = '' @ dquote # ''a // b'' @ dquote # ''; // c'') = Inr (''x = '' @ [dquote, dquote] @ ''; // c'')"
proof -
  have "CollapseStrings (''x = '' @ dquote # ''a // b'' @ dquote # ''; // c'') =
      collapse_from (''x = '' @ [dquote, dquote]) ''; // c''"
    by (rule CollapseStrings_erases_literal) (simp_all add: plain_def, code_simp)
  also have "\<dots> = Inr (''x = '' @ [dquote, dquote] @ ''; // c'')" by code_simp
  finally show ?thesis .
qed

end
