(* ===== verification/Expressions.thy ===== *)
theory Expressions
  imports Cleanse
begin

text \<open>
  Matching of brackets: \<open>FindEndOfExpressionInLine\<close> and \<open>CloseExpression\<close> scan forward,
  \<open>FindStartOfExpressionInLine\<close> and \<open>ReverseCloseExpression\<close> backward, both over several lines and with
  heuristics that tell template brackets from operators.  The nesting stack is a string with its top
  first.  The locale \<open>bracket_scan\<close> states what scanning for a matching bracket means on a
  text without template brackets, once for both directions.
\<close>

section \<open>Scanning forward\<close>

text \<open>What one character does: go on with a stack, or return a position with \<open>None\<close>.\<close>

datatype scan_step = Cont string | Done int

abbreviation pop_char :: "char \<Rightarrow> string \<Rightarrow> string" where
  "pop_char c stack \<equiv> dropWhile (\<lambda>x. x = c) stack"

definition pairs :: "char \<Rightarrow> char \<Rightarrow> bool" where
  "pairs opn cls \<longleftrightarrow> (opn = CHR ''('' \<and> cls = CHR '')'') \<or> (opn = CHR ''['' \<and> cls = CHR '']'')
     \<or> (opn = CHR ''{'' \<and> cls = CHR ''}'')"

definition ends_with_operator :: "string \<Rightarrow> bool" where
  "ends_with_operator s = found (rx ''`boperator`s*$'') s"

definition end_step :: "string \<Rightarrow> int \<Rightarrow> char \<Rightarrow> string \<Rightarrow> scan_step" where
  "end_step line i c stack =
     (if c \<in> set ''([{'' then Cont (c # stack)
      else if c = CHR ''<'' then
        if i > 0 \<and> line ! nat (i - 1) = CHR ''<'' then
          (case stack of
             [] \<Rightarrow> Cont stack
           | tos # rest \<Rightarrow>
               if tos = CHR ''<'' then (if rest = [] then Done (-1) else Cont rest) else Cont stack)
        else if i > 0 \<and> ends_with_operator (py_slice line 0 i) then Cont stack
        else Cont (CHR ''<'' # stack)
      else if c \<in> set '')]}'' then
        (case pop_char (CHR ''<'') stack of
           [] \<Rightarrow> Done (-1)
         | tos # rest \<Rightarrow>
             if pairs tos c then (if rest = [] then Done (i + 1) else Cont rest) else Done (-1))
      else if c = CHR ''>'' then
        if i > 0 \<and> (line ! nat (i - 1) = CHR ''-'' \<or> ends_with_operator (py_slice line 0 (i - 1)))
        then Cont stack
        else
          (case stack of
             [] \<Rightarrow> Cont stack
           | tos # rest \<Rightarrow>
               if tos = CHR ''<'' then (if rest = [] then Done (i + 1) else Cont rest) else Cont stack)
      else if c = CHR '';'' then
        (if pop_char (CHR ''<'') stack = [] then Done (-1) else Cont (pop_char (CHR ''<'') stack))
      else Cont stack)"

text \<open>The loop over the positions of the line.\<close>

fun find_end :: "string \<Rightarrow> int list \<Rightarrow> string \<Rightarrow> (int \<times> string option) result" where
  "find_end line [] stack = Inr (-1, Some stack)"
| "find_end line (i # is) stack =
     bind_r (py_index line i) (\<lambda>c.
       case end_step line i c stack of
         Cont stack' \<Rightarrow> find_end line is stack'
       | Done p \<Rightarrow> Inr (p, None))"

definition FindEndOfExpressionInLine :: "string \<Rightarrow> int \<Rightarrow> string \<Rightarrow> (int \<times> string option) result" where
  "FindEndOfExpressionInLine line startpos stack = find_end line [startpos..int (length line) - 1] stack"

text \<open>The loop over the following lines, while the stack is neither \<open>None\<close> nor empty.\<close>

fun close_from :: "cleansed_lines \<Rightarrow> string \<Rightarrow> int list \<Rightarrow> string option \<Rightarrow> (string \<times> int \<times> int) result" where
  "close_from clean_lines line [] stack = Inr (line, NumLines clean_lines, -1)"
| "close_from clean_lines line (linenum # rest) stack =
     (case stack of
        None \<Rightarrow> Inr (line, NumLines clean_lines, -1)
      | Some st \<Rightarrow>
          if st = [] then Inr (line, NumLines clean_lines, -1)
          else bind_r (py_index (elided clean_lines) linenum) (\<lambda>line'.
            bind_r (FindEndOfExpressionInLine line' 0 st) (\<lambda>(end_pos, stack').
              if end_pos > -1 then Inr (line', linenum, end_pos)
              else close_from clean_lines line' rest stack')))"

definition CloseExpression :: "cleansed_lines \<Rightarrow> int \<Rightarrow> int \<Rightarrow> (string \<times> int \<times> int) result" where
  "CloseExpression clean_lines linenum pos =
     bind_r (py_index (elided clean_lines) linenum) (\<lambda>line.
       bind_r (py_index line pos) (\<lambda>c.
         if c \<notin> set ''({[<'' \<or> matches ''<[<=]'' (slice_from line pos)
         then Inr (line, NumLines clean_lines, -1)
         else bind_r (FindEndOfExpressionInLine line pos []) (\<lambda>(end_pos, stack).
           if end_pos > -1 then Inr (line, linenum, end_pos)
           else close_from clean_lines line [linenum + 1..NumLines clean_lines - 1] stack)))"

section \<open>Scanning backward\<close>

text \<open>A step also says whether the position moves back once more than the loop does.\<close>

datatype back_step = Back bool string | Found_start int

definition start_step :: "string \<Rightarrow> int \<Rightarrow> char \<Rightarrow> string \<Rightarrow> back_step" where
  "start_step line i c stack =
     (if c \<in> set '')]}'' then Back False (c # stack)
      else if c = CHR ''>'' then
        if i > 0 \<and> (line ! nat (i - 1) = CHR ''-'' \<or> matches (rx ''`s>=`s'') (slice_from line (i - 1))
             \<or> ends_with_operator (py_slice line 0 i))
        then Back True stack
        else Back False (CHR ''>'' # stack)
      else if c = CHR ''<'' then
        if i > 0 \<and> line ! nat (i - 1) = CHR ''<'' then Back True stack
        else
          (case stack of
             [] \<Rightarrow> Back False stack
           | tos # rest \<Rightarrow>
               if tos = CHR ''>'' then (if rest = [] then Found_start i else Back False rest)
               else Back False stack)
      else if c \<in> set ''([{'' then
        (case pop_char (CHR ''>'') stack of
           [] \<Rightarrow> Found_start (-1)
         | tos # rest \<Rightarrow>
             if pairs c tos then (if rest = [] then Found_start i else Back False rest) else Found_start (-1))
      else if c = CHR '';'' then
        (if pop_char (CHR ''>'') stack = [] then Found_start (-1) else Back False (pop_char (CHR ''>'') stack))
      else Back False stack)"

function FindStartOfExpressionInLine :: "string \<Rightarrow> int \<Rightarrow> string \<Rightarrow> (int \<times> string option) result" where
  "FindStartOfExpressionInLine line i stack =
     (if i \<ge> 0 then
        bind_r (py_index line i) (\<lambda>c.
          case start_step line i c stack of
            Back extra stack' \<Rightarrow> FindStartOfExpressionInLine line (if extra then i - 2 else i - 1) stack'
          | Found_start p \<Rightarrow> Inr (p, None))
      else Inr (-1, Some stack))"
  by pat_completeness auto
termination by (relation "measure (\<lambda>(_, i, _). nat (i + 1))") auto

declare FindStartOfExpressionInLine.simps [simp del]

fun reverse_close_from :: "cleansed_lines \<Rightarrow> string \<Rightarrow> int list \<Rightarrow> string option \<Rightarrow> (string \<times> int \<times> int) result" where
  "reverse_close_from clean_lines line [] stack = Inr (line, 0, -1)"
| "reverse_close_from clean_lines line (linenum # rest) stack =
     (case stack of
        None \<Rightarrow> Inr (line, 0, -1)
      | Some st \<Rightarrow>
          if st = [] then Inr (line, 0, -1)
          else bind_r (py_index (elided clean_lines) linenum) (\<lambda>line'.
            bind_r (FindStartOfExpressionInLine line' (int (length line') - 1) st) (\<lambda>(start_pos, stack').
              if start_pos > -1 then Inr (line', linenum, start_pos)
              else reverse_close_from clean_lines line' rest stack')))"

definition ReverseCloseExpression :: "cleansed_lines \<Rightarrow> int \<Rightarrow> int \<Rightarrow> (string \<times> int \<times> int) result" where
  "ReverseCloseExpression clean_lines linenum pos =
     bind_r (py_index (elided clean_lines) linenum) (\<lambda>line.
       bind_r (py_index line pos) (\<lambda>c.
         if c \<notin> set '')}]>'' then Inr (line, 0, -1)
         else bind_r (FindStartOfExpressionInLine line pos []) (\<lambda>(start_pos, stack).
           if start_pos > -1 then Inr (line, linenum, start_pos)
           else reverse_close_from clean_lines line (rev [0..linenum - 1]) stack)))"

section \<open>What a forward scan returns\<close>

definition closer :: "char \<Rightarrow> char \<Rightarrow> bool" where
  "closer opn cls \<longleftrightarrow> pairs opn cls \<or> (opn = CHR ''<'' \<and> cls = CHR ''>'')"

lemma last_dropWhile: "dropWhile P xs \<noteq> [] \<Longrightarrow> last (dropWhile P xs) = last xs"
  by (metis last_appendR takeWhile_dropWhile_id)

lemma end_step_open: "c \<in> set ''([{'' \<Longrightarrow> end_step line i c stack = Cont (c # stack)"
  by (simp add: end_step_def)

lemma end_step_close:
  "c \<in> set '')]}'' \<Longrightarrow> end_step line i c stack =
     (case pop_char (CHR ''<'') stack of
        [] \<Rightarrow> Done (-1)
      | tos # rest \<Rightarrow> if pairs tos c then (if rest = [] then Done (i + 1) else Cont rest) else Done (-1))"
  by (auto simp: end_step_def)

lemma end_step_semicolon:
  "end_step line i (CHR '';'') stack =
     (if pop_char (CHR ''<'') stack = [] then Done (-1) else Cont (pop_char (CHR ''<'') stack))"
  by (simp add: end_step_def)

lemma end_step_other: "c \<notin> set ''([{<)]}>;'' \<Longrightarrow> end_step line i c stack = Cont stack"
  by (simp add: end_step_def)

lemma end_step_less:
  "end_step line i (CHR ''<'') (tos # rest) \<in> {Cont (tos # rest), Cont (CHR ''<'' # tos # rest)}
     \<union> (if tos = CHR ''<'' then {if rest = [] then Done (-1) else Cont rest} else {})"
  by (simp add: end_step_def)

lemma end_step_greater:
  "end_step line i (CHR ''>'') (tos # rest) \<in> {Cont (tos # rest)}
     \<union> (if tos = CHR ''<'' then {if rest = [] then Done (i + 1) else Cont rest} else {})"
  by (simp add: end_step_def)

definition step_ok :: "char \<Rightarrow> int \<Rightarrow> char \<Rightarrow> scan_step \<Rightarrow> bool" where
  "step_ok opn i c r =
     (case r of
        Cont stack \<Rightarrow> stack \<noteq> [] \<and> last stack = opn
      | Done p \<Rightarrow> p = -1 \<or> (p = i + 1 \<and> closer opn c))"

lemma end_step_ok:
  assumes "stack \<noteq> []" and "last stack = opn"
  shows "step_ok opn i c (end_step line i c stack)"
proof -
  have pop: "last (pop_char d stack) = opn" if "pop_char d stack \<noteq> []" for d
    using that assms last_dropWhile [of "\<lambda>x. x = d" stack] by auto
  obtain tos rest where st: "stack = tos # rest" using assms(1) by (cases stack) auto
  consider "c \<in> set ''([{''" | "c \<in> set '')]}''" | "c = CHR ''<''" | "c = CHR ''>''" | "c = CHR '';''"
    | "c \<notin> set ''([{<)]}>;''" by auto
  then show ?thesis
  proof cases
    case 1
    with assms show ?thesis unfolding end_step_open [OF 1] by (simp add: step_ok_def)
  next
    case 2
    show ?thesis
    proof (cases "pop_char (CHR ''<'') stack")
      case Nil
      then show ?thesis by (simp only: end_step_close [OF 2]) (simp add: step_ok_def)
    next
      case (Cons t r)
      with pop [of "CHR ''<''"] have "last (t # r) = opn" by simp
      with Cons show ?thesis
        by (simp only: end_step_close [OF 2]) (cases "r = []", simp_all add: step_ok_def closer_def)
    qed
  next
    case 3
    with end_step_less [of line i tos rest] assms(2) show ?thesis
      by (auto simp: st step_ok_def split: if_splits)
  next
    case 4
    with end_step_greater [of line i tos rest] assms(2) show ?thesis
      by (auto simp: st step_ok_def closer_def split: if_splits)
  next
    case 5
    with pop show ?thesis by (simp add: end_step_semicolon step_ok_def)
  next
    case 6
    with assms show ?thesis unfolding end_step_other [OF 6] by (simp add: step_ok_def)
  qed
qed

lemma find_end_result:
  assumes "\<And>i. i \<in> set is \<Longrightarrow> 0 \<le> i \<and> i < int (length line)" and "stack \<noteq> []" and "last stack = opn"
  shows "\<exists>e st. find_end line is stack = Inr (e, st)
    \<and> (e = -1 \<or> (e - 1 \<in> set is \<and> closer opn (line ! nat (e - 1))))
    \<and> (case st of None \<Rightarrow> True | Some st' \<Rightarrow> e = -1 \<and> st' \<noteq> [] \<and> last st' = opn)"
  using assms
proof (induction "is" arbitrary: stack)
  case (Cons i "is")
  then have c: "py_index line i = Inr (line ! nat i)" by simp
  show ?case
  proof (cases "end_step line i (line ! nat i) stack")
    case (Cont stack')
    with end_step_ok [OF Cons.prems(2,3), of i "line ! nat i" line]
    have st': "stack' \<noteq> []" "last stack' = opn" by (auto simp: step_ok_def)
    have "\<exists>e st. find_end line is stack' = Inr (e, st)
        \<and> (e = -1 \<or> (e - 1 \<in> set is \<and> closer opn (line ! nat (e - 1))))
        \<and> (case st of None \<Rightarrow> True | Some st' \<Rightarrow> e = -1 \<and> st' \<noteq> [] \<and> last st' = opn)"
      using Cons.prems(1) st' by (intro Cons.IH) auto
    with Cont c show ?thesis by auto
  next
    case (Done p)
    with end_step_ok [OF Cons.prems(2,3), of i "line ! nat i" line] c show ?thesis by (auto simp: step_ok_def)
  qed
qed simp

text \<open>The result of a search: the give-up value, or a position just after a closer.\<close>

definition closed_at :: "cleansed_lines \<Rightarrow> char \<Rightarrow> int \<Rightarrow> string \<times> int \<times> int \<Rightarrow> bool" where
  "closed_at cl opn linenum r =
     (case r of (line, l, e) \<Rightarrow>
        (l = NumLines cl \<and> e = -1)
        \<or> (linenum \<le> l \<and> l < NumLines cl \<and> line = elided cl ! nat l
           \<and> 1 \<le> e \<and> e \<le> int (length line) \<and> closer opn (line ! nat (e - 1))))"

lemma close_from_result:
  assumes "length (elided cl) = nat (NumLines cl)"
    and "\<And>l. l \<in> set ls \<Longrightarrow> 0 \<le> l \<and> linenum \<le> l \<and> l < NumLines cl"
    and "\<And>st. stack = Some st \<Longrightarrow> st \<noteq> [] \<longrightarrow> last st = opn"
  shows "\<exists>r. close_from cl line ls stack = Inr r \<and> closed_at cl opn linenum r"
  using assms
proof (induction ls arbitrary: line stack)
  case (Cons l ls)
  show ?case
  proof (cases "stack = None \<or> stack = Some []")
    case True
    then show ?thesis by (auto simp: closed_at_def)
  next
    case False
    then obtain st where st: "stack = Some st" "st \<noteq> []" by auto
    with Cons.prems have last: "last st = opn" and l: "0 \<le> l" "linenum \<le> l" "l < NumLines cl" by auto
    then have ix: "py_index (elided cl) l = Inr (elided cl ! nat l)" using Cons.prems(1) by simp
    let ?line = "elided cl ! nat l"
    obtain e st' where r: "find_end ?line [0..int (length ?line) - 1] st = Inr (e, st')"
        "e = -1 \<or> (e - 1 \<in> set [0..int (length ?line) - 1] \<and> closer opn (?line ! nat (e - 1)))"
        "case st' of None \<Rightarrow> True | Some st'' \<Rightarrow> e = -1 \<and> st'' \<noteq> [] \<and> last st'' = opn"
      using find_end_result [of "[0..int (length ?line) - 1]" ?line st opn] st last by auto
    show ?thesis
    proof (cases "e > -1")
      case True
      with r ix st l show ?thesis
        by (auto simp: closed_at_def FindEndOfExpressionInLine_def)
    next
      case False
      have "\<exists>r. close_from cl ?line ls st' = Inr r \<and> closed_at cl opn linenum r"
        using Cons.prems(1,2) r(3) by (intro Cons.IH) auto
      with False r(1) ix st show ?thesis by (simp add: FindEndOfExpressionInLine_def)
    qed
  qed
qed (simp add: closed_at_def)

text \<open>The opener at the start of the search is pushed, unless it is an angle bracket that the
  heuristics take for an operator.\<close>

definition real_opener :: "string \<Rightarrow> int \<Rightarrow> char \<Rightarrow> bool" where
  "real_opener line pos c \<longleftrightarrow>
     c \<in> set ''([{'' \<or> (c = CHR ''<'' \<and> \<not> (pos > 0 \<and>
       (line ! nat (pos - 1) = CHR ''<'' \<or> ends_with_operator (py_slice line 0 pos))))"

lemma end_step_opener: "real_opener line pos c \<Longrightarrow> end_step line pos c [] = Cont [c]"
  by (auto simp: real_opener_def end_step_def)

lemma CloseExpression_result:
  assumes cl: "length (elided cl) = nat (NumLines cl)" and l: "0 \<le> linenum" "linenum < NumLines cl"
    and line: "line = elided cl ! nat linenum" and pos: "0 \<le> pos" "pos < int (length line)"
    and opener: "real_opener line pos (line ! nat pos)"
  shows "\<exists>r. CloseExpression cl linenum pos = Inr r \<and> closed_at cl (line ! nat pos) linenum r"
proof -
  let ?c = "line ! nat pos"
  have ix: "py_index (elided cl) linenum = Inr line" "py_index line pos = Inr ?c"
    using assms by simp_all
  have op: "?c \<in> set ''({[<''" using opener by (auto simp: real_opener_def)
  have up: "[pos..int (length line) - 1] = pos # [pos + 1..int (length line) - 1]"
    using pos by (simp add: upto_rec1)
  obtain e st where r: "find_end line [pos + 1..int (length line) - 1] [?c] = Inr (e, st)"
      "e = -1 \<or> (e - 1 \<in> set [pos + 1..int (length line) - 1] \<and> closer ?c (line ! nat (e - 1)))"
      "case st of None \<Rightarrow> True | Some st' \<Rightarrow> e = -1 \<and> st' \<noteq> [] \<and> last st' = ?c"
    using find_end_result [of "[pos + 1..int (length line) - 1]" line "[?c]" ?c] pos by auto
  then have fe: "FindEndOfExpressionInLine line pos [] = Inr (e, st)"
    using end_step_opener [OF opener] ix(2) by (simp add: FindEndOfExpressionInLine_def up)
  show ?thesis
  proof (cases "matches ''<[<=]'' (slice_from line pos)")
    case True
    with ix op show ?thesis by (simp add: CloseExpression_def closed_at_def)
  next
    case no: False
    show ?thesis
    proof (cases "e > -1")
      case True
      with fe no ix op r(2) l line pos show ?thesis by (auto simp: CloseExpression_def closed_at_def)
    next
      case False
      have "\<exists>r. close_from cl line [linenum + 1..NumLines cl - 1] st = Inr r \<and> closed_at cl ?c linenum r"
        using cl l r(3) by (intro close_from_result) auto
      with False fe no ix op show ?thesis by (auto simp: CloseExpression_def)
    qed
  qed
qed

section \<open>Matching brackets as a specification\<close>

text \<open>A text with every bracket matched, for a given pairing of brackets.\<close>

inductive balanced :: "(char \<Rightarrow> bool) \<Rightarrow> (char \<Rightarrow> bool) \<Rightarrow> (char \<Rightarrow> char \<Rightarrow> bool) \<Rightarrow> string \<Rightarrow> bool"
  for opens closes prs where
  Empty: "balanced opens closes prs []"
| Other: "\<not> opens c \<Longrightarrow> \<not> closes c \<Longrightarrow> balanced opens closes prs s \<Longrightarrow> balanced opens closes prs (c # s)"
| Block: "prs b c \<Longrightarrow> balanced opens closes prs u \<Longrightarrow> balanced opens closes prs v \<Longrightarrow>
    balanced opens closes prs (b # u @ c # v)"

datatype 'p outcome = Found_at 'p | Unbalanced | Pending string

text \<open>A scan over characters tagged with their positions, without template brackets.\<close>

fun scan :: "(char \<Rightarrow> bool) \<Rightarrow> (char \<Rightarrow> bool) \<Rightarrow> (char \<Rightarrow> char \<Rightarrow> bool) \<Rightarrow> ('p \<times> char) list \<Rightarrow> string \<Rightarrow> 'p outcome"
where
  "scan opens closes prs [] stack = Pending stack"
| "scan opens closes prs ((p, c) # xs) stack =
     (if opens c then scan opens closes prs xs (c # stack)
      else if closes c then
        (case stack of
           [] \<Rightarrow> Unbalanced
         | b # rest \<Rightarrow>
             if prs b c then (if rest = [] then Found_at p else scan opens closes prs xs rest) else Unbalanced)
      else if c = CHR '';'' \<and> stack = [] then Unbalanced
      else scan opens closes prs xs stack)"

lemma scan_append:
  "scan opens closes prs (xs @ ys) stack =
     (case scan opens closes prs xs stack of Pending st \<Rightarrow> scan opens closes prs ys st | r \<Rightarrow> r)"
proof (induction xs arbitrary: stack)
  case (Cons x xs)
  then show ?case by (cases x) (simp split: list.split)
qed simp

lemma scan_map: "scan opens closes prs (map (apfst f) xs) stack = map_outcome f (scan opens closes prs xs stack)"
proof (induction xs arbitrary: stack)
  case (Cons x xs)
  then show ?case by (cases x) (simp split: list.split)
qed simp

lemma balanced_append:
  "balanced opens closes prs u \<Longrightarrow> balanced opens closes prs v \<Longrightarrow> balanced opens closes prs (u @ v)"
  by (induction u rule: balanced.induct) (auto intro: balanced.intros)

locale bracket_scan =
  fixes opens closes :: "char \<Rightarrow> bool" and prs :: "char \<Rightarrow> char \<Rightarrow> bool"
  assumes opens_not_closes: "opens c \<Longrightarrow> \<not> closes c"
    and prs_brackets: "prs b c \<Longrightarrow> opens b \<and> closes c"
begin

lemma scan_balanced:
  "balanced opens closes prs t \<Longrightarrow> map snd xs = t \<Longrightarrow> stack \<noteq> [] \<Longrightarrow>
    scan opens closes prs (xs @ ys) stack = scan opens closes prs ys stack"
proof (induction t arbitrary: xs stack ys rule: balanced.induct)
  case (Other c s)
  then obtain p xs' where "xs = (p, c) # xs'" "map snd xs' = s" by auto
  with Other show ?case by simp
next
  case (Block b c u v)
  from Block.prems(1) obtain p q xu xv where xs: "xs = (p, b) # xu @ (q, c) # xv" "map snd xu = u" "map snd xv = v"
    by (auto simp: map_eq_append_conv map_eq_Cons_conv)
  from prs_brackets [OF Block.hyps(1)] have bc: "opens b" "closes c" "\<not> opens c"
    using opens_not_closes by auto
  have "scan opens closes prs (xs @ ys) stack = scan opens closes prs (xu @ (q, c) # xv @ ys) (b # stack)"
    using xs(1) bc by simp
  also have "\<dots> = scan opens closes prs ((q, c) # xv @ ys) (b # stack)"
    by (rule Block.IH(1)) (use xs in simp_all)
  also have "\<dots> = scan opens closes prs (xv @ ys) stack"
    using bc Block.hyps(1) Block.prems(2) by simp
  also have "\<dots> = scan opens closes prs ys stack"
    by (rule Block.IH(2)) (use xs Block.prems in simp_all)
  finally show ?case .
qed simp

primrec unwinds :: "string \<Rightarrow> string \<Rightarrow> bool" where
  "unwinds [] t \<longleftrightarrow> t = []"
| "unwinds (b # st) t \<longleftrightarrow> (\<exists>u c v. t = u @ c # v \<and> balanced opens closes prs u \<and> prs b c \<and> unwinds st v)"

lemma unwinds_prepend:
  "balanced opens closes prs w \<Longrightarrow> unwinds (b # st) t \<Longrightarrow> unwinds (b # st) (w @ t)"
  by (auto intro: balanced_append) (metis append_assoc balanced_append)

lemma scan_unwinds:
  "scan opens closes prs xs stack = Found_at p \<Longrightarrow> stack \<noteq> [] \<Longrightarrow>
    \<exists>us c vs. xs = us @ (p, c) # vs \<and> unwinds stack (map snd us @ [c])"
proof (induction xs arbitrary: stack)
  case (Cons x xs)
  obtain q d where x: "x = (q, d)" by (cases x)
  from Cons.prems(2) obtain b st where st: "stack = b # st" by (cases stack) auto
  consider (opn) "opens d" | (cls) "closes d" "\<not> opens d" | (other) "\<not> opens d" "\<not> closes d" by blast
  then show ?case
  proof cases
    case opn
    with Cons.prems x have "scan opens closes prs xs (d # stack) = Found_at p" by simp
    from Cons.IH [OF this] obtain us c vs where us: "xs = us @ (p, c) # vs"
      "unwinds (d # stack) (map snd us @ [c])" by blast
    then obtain u e v where t: "map snd us @ [c] = u @ e # v" "balanced opens closes prs u" "prs d e" "unwinds stack v"
      by auto
    have "balanced opens closes prs (d # u @ [e])"
      by (rule balanced.Block) (use t in \<open>auto intro: balanced.Empty\<close>)
    then have "unwinds stack ((d # u @ [e]) @ v)"
      using t(4) unfolding st by (rule unwinds_prepend)
    with us(1) t(1) x show ?thesis by (intro exI [of _ "x # us"]) auto
  next
    case cls
    with Cons.prems x st have "prs b d" by (auto split: if_splits)
    show ?thesis
    proof (cases "st = []")
      case True
      with Cons.prems cls x st have "p = q" by (auto split: if_splits)
      with \<open>prs b d\<close> st True x show ?thesis
        by (intro exI [of _ "[]"]) (auto intro: balanced.Empty)
    next
      case False
      with Cons.prems cls x st \<open>prs b d\<close> have "scan opens closes prs xs st = Found_at p" by simp
      from Cons.IH [OF this False] obtain us c vs where
        "xs = us @ (p, c) # vs" "unwinds st (map snd us @ [c])" by blast
      with \<open>prs b d\<close> x st show ?thesis
        by (intro exI [of _ "x # us"]) (auto intro!: exI [of _ "[]"] balanced.Empty)
    qed
  next
    case other
    with Cons.prems x have "scan opens closes prs xs stack = Found_at p" by simp
    from Cons.IH [OF this Cons.prems(2)] obtain us c vs where us: "xs = us @ (p, c) # vs"
      "unwinds stack (map snd us @ [c])" by blast
    have "unwinds stack ([d] @ (map snd us @ [c]))"
      unfolding st by (rule unwinds_prepend) (use other us st in \<open>auto intro: balanced.intros\<close>)
    with us(1) x show ?thesis by (intro exI [of _ "x # us"]) auto
  qed
qed simp

text \<open>The scan that starts at an opener finds its matching closer and nothing else.\<close>

lemma scan_match:
  assumes "opens b"
  shows "scan opens closes prs ((q, b) # xs) [] = Found_at p \<longleftrightarrow>
    (\<exists>us c vs. xs = us @ (p, c) # vs \<and> balanced opens closes prs (map snd us) \<and> prs b c)" (is "?l \<longleftrightarrow> ?r")
proof
  assume ?l
  with assms have "scan opens closes prs xs [b] = Found_at p" by simp
  from scan_unwinds [OF this] show ?r by auto
next
  assume ?r
  then obtain us c vs where r: "xs = us @ (p, c) # vs" "balanced opens closes prs (map snd us)" "prs b c" by blast
  then have "scan opens closes prs xs [b] = scan opens closes prs ((p, c) # vs) [b]"
    using scan_balanced by blast
  with r(3) prs_brackets [OF r(3)] opens_not_closes assms show ?l by auto
qed

end

definition is_open :: "char \<Rightarrow> bool" where "is_open c \<longleftrightarrow> c \<in> set ''([{''"
definition is_close :: "char \<Rightarrow> bool" where "is_close c \<longleftrightarrow> c \<in> set '')]}''"

abbreviation scan_forward :: "('p \<times> char) list \<Rightarrow> string \<Rightarrow> 'p outcome" where
  "scan_forward \<equiv> scan is_open is_close pairs"

abbreviation scan_backward :: "('p \<times> char) list \<Rightarrow> string \<Rightarrow> 'p outcome" where
  "scan_backward \<equiv> scan is_close is_open (\<lambda>c b. pairs b c)"

interpretation forward: bracket_scan is_open is_close pairs
  by unfold_locales (auto simp: pairs_def is_open_def is_close_def)

interpretation backward: bracket_scan is_close is_open "\<lambda>c b. pairs b c"
  by unfold_locales (auto simp: pairs_def is_open_def is_close_def)

lemma balanced_rev:
  "balanced is_open is_close pairs u \<Longrightarrow> balanced is_close is_open (\<lambda>c b. pairs b c) (rev u)"
proof (induction u rule: balanced.induct)
  case (Other c s)
  then show ?case by (simp only: rev.simps) (intro balanced_append balanced.intros; simp)
next
  case (Block b c u v)
  have "balanced is_close is_open (\<lambda>c b. pairs b c) (c # rev u @ b # [])"
    by (rule balanced.Block) (use Block in \<open>auto intro: balanced.Empty\<close>)
  from balanced_append [OF Block.IH(2) this] show ?case by simp
qed (simp add: balanced.Empty)

section \<open>The scanners meet the specification\<close>

definition angle_free :: "string \<Rightarrow> bool" where
  "angle_free s \<longleftrightarrow> CHR ''<'' \<notin> set s \<and> CHR ''>'' \<notin> set s"

definition char_at :: "string \<Rightarrow> int \<Rightarrow> int \<times> char" where
  "char_at line i = (i, line ! nat i)"

lemma pop_char_id: "c \<notin> set st \<Longrightarrow> pop_char c st = st"
  by (cases st) auto

lemma find_end_scan:
  assumes "\<And>i. i \<in> set is \<Longrightarrow> 0 \<le> i \<and> i < int (length line)" "angle_free line" "angle_free stack"
  shows "find_end line is stack = Inr (case scan_forward (map (char_at line) is) stack of
      Found_at i \<Rightarrow> (i + 1, None) | Unbalanced \<Rightarrow> (-1, None) | Pending st \<Rightarrow> (-1, Some st))
    \<and> (\<forall>st. scan_forward (map (char_at line) is) stack = Pending st \<longrightarrow> angle_free st)"
  using assms
proof (induction "is" arbitrary: stack)
  case (Cons i "is")
  let ?c = "line ! nat i"
  from Cons.prems have ix: "py_index line i = Inr ?c" and free: "?c \<noteq> CHR ''<''" "?c \<noteq> CHR ''>''"
    by (auto simp: angle_free_def) (metis nat_less_iff nth_mem)+
  have IH: "find_end line is st = Inr (case scan_forward (map (char_at line) is) st of
      Found_at i \<Rightarrow> (i + 1, None) | Unbalanced \<Rightarrow> (-1, None) | Pending st \<Rightarrow> (-1, Some st))
    \<and> (\<forall>st'. scan_forward (map (char_at line) is) st = Pending st' \<longrightarrow> angle_free st')" if "angle_free st" for st
    using that Cons.prems by (intro Cons.IH) auto
  have ca: "char_at line i = (i, ?c)" by (simp add: char_at_def)
  have nostack: "CHR ''<'' \<notin> set stack" using Cons.prems(3) by (simp add: angle_free_def)
  note step = ix ca pop_char_id [OF nostack]
  consider "is_open ?c" | "is_close ?c" | "?c = CHR '';''" | "?c \<notin> set ''([{<)]}>;''"
    using free by (auto simp: is_open_def is_close_def)
  then show ?case
  proof cases
    case 1
    with Cons.prems(3) free have "angle_free (?c # stack)" by (simp add: angle_free_def)
    from IH [OF this] show ?thesis
      using step 1 end_step_open [OF 1 [unfolded is_open_def], of line i stack] by simp
  next
    case 2
    then have no: "\<not> is_open ?c" using forward.opens_not_closes by auto
    note close = end_step_close [OF 2 [unfolded is_close_def], of line i stack]
    show ?thesis
    proof (cases stack)
      case Nil
      with 2 no step close show ?thesis by simp
    next
      case (Cons b rest)
      with Cons.prems(3) have "angle_free rest" by (simp add: angle_free_def)
      from IH [OF this] show ?thesis using Cons 2 no step close by simp
    qed
  next
    case 3
    then have "\<not> is_open ?c" "\<not> is_close ?c" by (auto simp: is_open_def is_close_def)
    with 3 IH [OF Cons.prems(3)] step show ?thesis by (simp add: end_step_semicolon)
  next
    case 4
    then have "\<not> is_open ?c" "\<not> is_close ?c" "?c \<noteq> CHR '';''" by (auto simp: is_open_def is_close_def)
    with IH [OF Cons.prems(3)] step end_step_other [OF 4, of line i stack] show ?thesis by simp
  qed
qed (simp add: angle_free_def)

lemma start_step_close: "is_close c \<Longrightarrow> start_step line i c stack = Back False (c # stack)"
  by (simp add: start_step_def is_close_def)

lemma start_step_open:
  "is_open c \<Longrightarrow> start_step line i c stack =
     (case pop_char (CHR ''>'') stack of
        [] \<Rightarrow> Found_start (-1)
      | tos # rest \<Rightarrow>
          if pairs c tos then (if rest = [] then Found_start i else Back False rest) else Found_start (-1))"
  by (auto simp: start_step_def is_open_def)

lemma start_step_semicolon:
  "start_step line i (CHR '';'') stack =
     (if pop_char (CHR ''>'') stack = [] then Found_start (-1) else Back False (pop_char (CHR ''>'') stack))"
  by (simp add: start_step_def)

lemma start_step_other: "c \<notin> set ''([{<)]}>;'' \<Longrightarrow> start_step line i c stack = Back False stack"
  by (simp add: start_step_def)

definition back_result :: "int outcome \<Rightarrow> int \<times> string option" where
  "back_result r = (case r of Found_at i \<Rightarrow> (i, None) | Unbalanced \<Rightarrow> (-1, None) | Pending st \<Rightarrow> (-1, Some st))"

lemma back_result_simps [simp]:
  "back_result (Found_at i) = (i, None)" "back_result Unbalanced = (-1, None)" "back_result (Pending st) = (-1, Some st)"
  by (simp_all add: back_result_def)

lemma find_start_scan:
  assumes "-1 \<le> i" "i < int (length line)" "angle_free line" "angle_free stack"
  shows "FindStartOfExpressionInLine line i stack = Inr (back_result (scan_backward (map (char_at line) (rev [0..i])) stack))
    \<and> (\<forall>st. scan_backward (map (char_at line) (rev [0..i])) stack = Pending st \<longrightarrow> angle_free st)"
  using assms
proof (induction "nat (i + 1)" arbitrary: i stack)
  case 0
  then show ?case by (subst FindStartOfExpressionInLine.simps) simp
next
  case (Suc n)
  let ?c = "line ! nat i" and ?is = "rev [0..i - 1]"
  from Suc have i: "0 \<le> i" by simp
  from Suc.prems i have ix: "py_index line i = Inr ?c" and free: "?c \<noteq> CHR ''<''" "?c \<noteq> CHR ''>''"
    by (auto simp: angle_free_def) (metis nat_less_iff nth_mem)+
  have up: "rev [0..i] = i # ?is" using i by (simp add: upto_rec2)
  have IH: "FindStartOfExpressionInLine line (i - 1) st = Inr (back_result (scan_backward (map (char_at line) ?is) st))
    \<and> (\<forall>st'. scan_backward (map (char_at line) ?is) st = Pending st' \<longrightarrow> angle_free st')" if "angle_free st" for st
    using that Suc i by (intro Suc.hyps(1)) auto
  have ca: "char_at line i = (i, ?c)" by (simp add: char_at_def)
  have nostack: "CHR ''>'' \<notin> set stack" using Suc.prems(4) by (simp add: angle_free_def)
  have run: "FindStartOfExpressionInLine line i stack =
      (case start_step line i ?c stack of
        Back extra stack' \<Rightarrow> FindStartOfExpressionInLine line (if extra then i - 2 else i - 1) stack'
      | Found_start p \<Rightarrow> Inr (p, None))"
    using i ix by (subst FindStartOfExpressionInLine.simps) simp
  note step = run up ca pop_char_id [OF nostack]
  consider "is_open ?c" | "is_close ?c" | "?c = CHR '';''" | "?c \<notin> set ''([{<)]}>;''"
    using free by (auto simp: is_open_def is_close_def)
  then show ?case
  proof cases
    case 1
    then have no: "\<not> is_close ?c" using forward.opens_not_closes by auto
    show ?thesis
    proof (cases stack)
      case Nil
      with 1 no step start_step_open [OF 1, of line i stack] show ?thesis by simp
    next
      case (Cons b rest)
      with Suc.prems(4) have "angle_free rest" by (simp add: angle_free_def)
      from IH [OF this] show ?thesis using Cons 1 no step start_step_open [OF 1, of line i stack] by simp
    qed
  next
    case 2
    with Suc.prems(4) free have "angle_free (?c # stack)" by (simp add: angle_free_def)
    from IH [OF this] show ?thesis using step 2 start_step_close [OF 2, of line i stack] by simp
  next
    case 3
    then have "\<not> is_open ?c" "\<not> is_close ?c" by (auto simp: is_open_def is_close_def)
    with 3 IH [OF Suc.prems(4)] step show ?thesis by (simp add: start_step_semicolon)
  next
    case 4
    then have "\<not> is_open ?c" "\<not> is_close ?c" "?c \<noteq> CHR '';''" by (auto simp: is_open_def is_close_def)
    with IH [OF Suc.prems(4)] step start_step_other [OF 4, of line i stack] show ?thesis by simp
  qed
qed

lemma scan_Pending: "scan opens closes prs xs stack = Pending st \<Longrightarrow> stack \<noteq> [] \<Longrightarrow> st \<noteq> []"
proof (induction xs arbitrary: stack)
  case (Cons x xs)
  then show ?case by (cases x) (auto split: if_splits list.splits)
qed simp

lemma scan_found_mem: "scan opens closes prs xs stack = Found_at p \<Longrightarrow> \<exists>c. (p, c) \<in> set xs"
proof (induction xs arbitrary: stack)
  case (Cons x xs)
  then show ?case by (cases x) (auto split: if_splits list.splits)
qed simp

subsection \<open>Over several lines\<close>

definition line_chars :: "int \<Rightarrow> string \<Rightarrow> int list \<Rightarrow> ((int \<times> int) \<times> char) list" where
  "line_chars l line is = map (apfst (Pair l)) (map (char_at line) is)"

definition all_chars :: "cleansed_lines \<Rightarrow> int list \<Rightarrow> ((int \<times> int) \<times> char) list" where
  "all_chars cl ls =
     concat (map (\<lambda>l. line_chars l (elided cl ! nat l) [0..int (length (elided cl ! nat l)) - 1]) ls)"

lemma all_chars_Cons: "all_chars cl (l # ls) =
    line_chars l (elided cl ! nat l) [0..int (length (elided cl ! nat l)) - 1] @ all_chars cl ls"
  by (simp add: all_chars_def)

lemma all_chars_append: "all_chars cl (ls @ ms) = all_chars cl ls @ all_chars cl ms"
  by (simp add: all_chars_def)

text \<open>The characters after a position, and before it (the nearest first), each with its line and column.\<close>

definition following :: "cleansed_lines \<Rightarrow> int \<Rightarrow> int \<Rightarrow> ((int \<times> int) \<times> char) list" where
  "following cl l i =
     line_chars l (elided cl ! nat l) [i + 1..int (length (elided cl ! nat l)) - 1]
       @ all_chars cl [l + 1..NumLines cl - 1]"

definition preceding :: "cleansed_lines \<Rightarrow> int \<Rightarrow> int \<Rightarrow> ((int \<times> int) \<times> char) list" where
  "preceding cl l i = rev (all_chars cl [0..l - 1] @ line_chars l (elided cl ! nat l) [0..i - 1])"

definition clean_ok :: "cleansed_lines \<Rightarrow> bool" where
  "clean_ok cl \<longleftrightarrow> int (length (elided cl)) = NumLines cl"

definition no_angles :: "cleansed_lines \<Rightarrow> bool" where
  "no_angles cl \<longleftrightarrow> list_all angle_free (elided cl)"

lemma elided_line:
  "clean_ok cl \<Longrightarrow> 0 \<le> l \<Longrightarrow> l < NumLines cl \<Longrightarrow> py_index (elided cl) l = Inr (elided cl ! nat l)"
  by (simp add: clean_ok_def)

lemma elided_angle_free:
  "no_angles cl \<Longrightarrow> clean_ok cl \<Longrightarrow> 0 \<le> l \<Longrightarrow> l < NumLines cl \<Longrightarrow> angle_free (elided cl ! nat l)"
  by (auto simp: no_angles_def clean_ok_def list_all_length)

lemma scan_line_chars: "scan opens closes prs (line_chars l line is) stack =
    map_outcome (Pair l) (scan opens closes prs (map (char_at line) is) stack)"
  by (simp only: line_chars_def scan_map)

lemma close_from_scan:
  assumes "clean_ok cl" "no_angles cl" "\<And>l. l \<in> set ls \<Longrightarrow> 0 \<le> l \<and> l < NumLines cl" "angle_free st" "st \<noteq> []"
  shows "\<exists>r. close_from cl line ls (Some st) = Inr r \<and>
    (case scan_forward (all_chars cl ls) st of
       Found_at (l, i) \<Rightarrow> r = (elided cl ! nat l, l, i + 1) \<and> -1 < i + 1
     | _ \<Rightarrow> snd r = (NumLines cl, -1))"
  using assms(3-)
proof (induction ls arbitrary: line st)
  case (Cons l ls)
  let ?line = "elided cl ! nat l"
  let ?is = "[0..int (length ?line) - 1]"
  from Cons.prems(1) have l: "0 \<le> l" "l < NumLines cl" by auto
  note ix = elided_line [OF assms(1) l]
  from find_end_scan [of ?is ?line st] elided_angle_free [OF assms(2,1) l] Cons.prems(2)
  have fe: "FindEndOfExpressionInLine ?line 0 st = Inr (case scan_forward (map (char_at ?line) ?is) st of
      Found_at i \<Rightarrow> (i + 1, None) | Unbalanced \<Rightarrow> (-1, None) | Pending st \<Rightarrow> (-1, Some st))"
    and free: "\<And>st'. scan_forward (map (char_at ?line) ?is) st = Pending st' \<Longrightarrow> angle_free st'"
    by (auto simp: FindEndOfExpressionInLine_def)
  have all: "scan_forward (all_chars cl (l # ls)) st =
      (case map_outcome (Pair l) (scan_forward (map (char_at ?line) ?is) st) of
         Pending st' \<Rightarrow> scan_forward (all_chars cl ls) st' | r \<Rightarrow> r)"
    by (simp add: all_chars_Cons scan_append scan_line_chars)
  show ?case
  proof (cases "scan_forward (map (char_at ?line) ?is) st")
    case (Found_at i)
    from scan_found_mem [OF this] have "0 \<le> i" by (auto simp: char_at_def)
    with Found_at fe all ix Cons.prems(3) show ?thesis by simp
  next
    case Unbalanced
    with fe all ix Cons.prems(3) show ?thesis by (cases ls) simp_all
  next
    case (Pending st')
    from scan_Pending [OF this Cons.prems(3)] free [OF Pending] Cons.IH [of st' ?line] Cons.prems(1)
    have "\<exists>r. close_from cl ?line ls (Some st') = Inr r \<and>
      (case scan_forward (all_chars cl ls) st' of
         Found_at (l, i) \<Rightarrow> r = (elided cl ! nat l, l, i + 1) \<and> -1 < i + 1
       | _ \<Rightarrow> snd r = (NumLines cl, -1))" by auto
    with Pending fe all ix Cons.prems(3) show ?thesis by simp
  qed
qed (simp add: all_chars_def)

lemma reverse_close_from_scan:
  assumes "clean_ok cl" "no_angles cl" "\<And>l. l \<in> set ls \<Longrightarrow> 0 \<le> l \<and> l < NumLines cl" "angle_free st" "st \<noteq> []"
  shows "\<exists>r. reverse_close_from cl line ls (Some st) = Inr r \<and>
    (case scan_backward (rev (all_chars cl (rev ls))) st of
       Found_at (l, i) \<Rightarrow> r = (elided cl ! nat l, l, i) \<and> 0 \<le> i
     | _ \<Rightarrow> snd r = (0, -1))"
  using assms(3-)
proof (induction ls arbitrary: line st)
  case (Cons l ls)
  let ?line = "elided cl ! nat l"
  let ?is = "rev [0..int (length ?line) - 1]"
  from Cons.prems(1) have l: "0 \<le> l" "l < NumLines cl" by auto
  note ix = elided_line [OF assms(1) l]
  from find_start_scan [of "int (length ?line) - 1" ?line st] elided_angle_free [OF assms(2,1) l] Cons.prems(2)
  have fs: "FindStartOfExpressionInLine ?line (int (length ?line) - 1) st =
      Inr (back_result (scan_backward (map (char_at ?line) ?is) st))"
    and free: "\<And>st'. scan_backward (map (char_at ?line) ?is) st = Pending st' \<Longrightarrow> angle_free st'"
    by auto
  have "rev (all_chars cl (rev (l # ls))) = line_chars l ?line ?is @ rev (all_chars cl (rev ls))"
    by (simp add: all_chars_append all_chars_Cons line_chars_def rev_map) (simp add: all_chars_def)
  then have all: "scan_backward (rev (all_chars cl (rev (l # ls)))) st =
      (case map_outcome (Pair l) (scan_backward (map (char_at ?line) ?is) st) of
         Pending st' \<Rightarrow> scan_backward (rev (all_chars cl (rev ls))) st' | r \<Rightarrow> r)"
    by (simp only: scan_append scan_line_chars)
  show ?case
  proof (cases "scan_backward (map (char_at ?line) ?is) st")
    case (Found_at i)
    from scan_found_mem [OF this] have "0 \<le> i" by (auto simp: char_at_def)
    with Found_at fs ix Cons.prems(3) show ?thesis unfolding all by simp
  next
    case Unbalanced
    with fs ix Cons.prems(3) show ?thesis unfolding all by (cases ls) simp_all
  next
    case (Pending st')
    from scan_Pending [OF this Cons.prems(3)] free [OF Pending] Cons.IH [of st' ?line] Cons.prems(1)
    have "\<exists>r. reverse_close_from cl ?line ls (Some st') = Inr r \<and>
      (case scan_backward (rev (all_chars cl (rev ls))) st' of
         Found_at (l, i) \<Rightarrow> r = (elided cl ! nat l, l, i) \<and> 0 \<le> i
       | _ \<Rightarrow> snd r = (0, -1))" by auto
    with Pending fs ix Cons.prems(3) show ?thesis unfolding all by simp
  qed
qed (simp add: all_chars_def)

text \<open>A position of the file that can be asked for.\<close>

definition valid_pos :: "cleansed_lines \<Rightarrow> int \<Rightarrow> int \<Rightarrow> bool" where
  "valid_pos cl l i \<longleftrightarrow> clean_ok cl \<and> 0 \<le> l \<and> l < NumLines cl \<and> 0 \<le> i \<and> i < int (length (elided cl ! nat l))"

abbreviation char_of :: "cleansed_lines \<Rightarrow> int \<Rightarrow> int \<Rightarrow> char" where
  "char_of cl l i \<equiv> elided cl ! nat l ! nat i"

lemma no_shift: "is_open c \<Longrightarrow> Match ''<[<=]'' (c # cs) = None"
proof -
  have "compiled ''<[<=]'' = RSeq (RChar CHR ''<'') (RSet False [(CHR ''<'', CHR ''<''), (CHR ''='', CHR ''='')])"
    by code_simp
  then show "is_open c \<Longrightarrow> Match ''<[<=]'' (c # cs) = None"
    by (auto simp: Match_None is_open_def opt_list_def)
qed

lemma slice_from_valid: "0 \<le> i \<Longrightarrow> i < int (length s) \<Longrightarrow> slice_from s i = s ! nat i # slice_from s (i + 1)"
  using slice_from_nat [of s "nat i"] slice_from_nat [of s "nat i + 1"]
  by (simp add: Cons_nth_drop_Suc nat_less_iff add.commute)

lemma CloseExpression_scan:
  assumes v: "valid_pos cl l i" and free: "no_angles cl" and opn: "is_open (char_of cl l i)"
  shows "\<exists>r. CloseExpression cl l i = Inr r \<and>
    (case scan_forward (((l, i), char_of cl l i) # following cl l i) [] of
       Found_at (l', i') \<Rightarrow> r = (elided cl ! nat l', l', i' + 1) \<and> -1 < i' + 1
     | _ \<Rightarrow> snd r = (NumLines cl, -1))"
proof -
  let ?line = "elided cl ! nat l" and ?c = "char_of cl l i"
  let ?is = "[i + 1..int (length ?line) - 1]"
  from v have l: "clean_ok cl" "0 \<le> l" "l < NumLines cl" "0 \<le> i" "i < int (length ?line)"
    by (auto simp: valid_pos_def)
  note ix = elided_line [OF l(1-3)]
  have c: "py_index ?line i = Inr ?c" using l by simp
  have mem: "?c \<in> set ''({[<''" using opn by (auto simp: is_open_def)
  have shift: "Match ''<[<=]'' (slice_from ?line i) = None"
    using no_shift [OF opn] by (simp add: slice_from_valid [OF l(4,5)])
  have "angle_free ?line" by (rule elided_angle_free [OF free l(1-3)])
  moreover have sf: "angle_free [?c]" using opn by (auto simp: is_open_def angle_free_def)
  ultimately have fe: "find_end ?line ?is [?c] = Inr (case scan_forward (map (char_at ?line) ?is) [?c] of
      Found_at i \<Rightarrow> (i + 1, None) | Unbalanced \<Rightarrow> (-1, None) | Pending st \<Rightarrow> (-1, Some st))"
    and pend: "\<And>st'. scan_forward (map (char_at ?line) ?is) [?c] = Pending st' \<Longrightarrow> angle_free st'"
    using find_end_scan [of ?is ?line "[?c]"] l(4) by auto
  have up: "[i..int (length ?line) - 1] = i # ?is" using l(5) by (simp add: upto_rec1)
  have first: "FindEndOfExpressionInLine ?line i [] = find_end ?line ?is [?c]"
    using c end_step_open [OF opn [unfolded is_open_def], of ?line i "[]"]
    by (simp add: FindEndOfExpressionInLine_def up)
  have run: "CloseExpression cl l i = bind_r (find_end ?line ?is [?c]) (\<lambda>(end_pos, stack).
      if end_pos > -1 then Inr (?line, l, end_pos) else close_from cl ?line [l + 1..NumLines cl - 1] stack)"
    unfolding CloseExpression_def ix bind_r_simps c first using mem shift by auto
  have all: "scan_forward (((l, i), ?c) # following cl l i) [] =
      (case map_outcome (Pair l) (scan_forward (map (char_at ?line) ?is) [?c]) of
         Pending st' \<Rightarrow> scan_forward (all_chars cl [l + 1..NumLines cl - 1]) st' | r \<Rightarrow> r)"
    using opn by (simp add: following_def scan_append scan_line_chars)
  show ?thesis
  proof (cases "scan_forward (map (char_at ?line) ?is) [?c]")
    case (Found_at k)
    from scan_found_mem [OF this] have "0 \<le> k" using l by (auto simp: char_at_def)
    with Found_at fe show ?thesis unfolding all run by simp
  next
    case Unbalanced
    with fe show ?thesis unfolding all run by (cases "[l + 1..NumLines cl - 1]") simp_all
  next
    case (Pending st)
    from scan_Pending [OF this] pend [OF Pending] l
      close_from_scan [OF l(1) free, of "[l + 1..NumLines cl - 1]" st ?line]
    have "\<exists>r. close_from cl ?line [l + 1..NumLines cl - 1] (Some st) = Inr r \<and>
      (case scan_forward (all_chars cl [l + 1..NumLines cl - 1]) st of
         Found_at (l, i) \<Rightarrow> r = (elided cl ! nat l, l, i + 1) \<and> -1 < i + 1
       | _ \<Rightarrow> snd r = (NumLines cl, -1))" by auto
    with Pending fe show ?thesis unfolding all run by simp
  qed
qed

lemma preceding_eq: "preceding cl l i =
    line_chars l (elided cl ! nat l) (rev [0..i - 1]) @ rev (all_chars cl [0..l - 1])"
  by (simp add: preceding_def line_chars_def rev_map)

lemma ReverseCloseExpression_scan:
  assumes v: "valid_pos cl l i" and free: "no_angles cl" and cls: "is_close (char_of cl l i)"
  shows "\<exists>r. ReverseCloseExpression cl l i = Inr r \<and>
    (case scan_backward (((l, i), char_of cl l i) # preceding cl l i) [] of
       Found_at (l', i') \<Rightarrow> r = (elided cl ! nat l', l', i') \<and> 0 \<le> i'
     | _ \<Rightarrow> snd r = (0, -1))"
proof -
  let ?line = "elided cl ! nat l" and ?c = "char_of cl l i"
  let ?is = "rev [0..i - 1]"
  from v have l: "clean_ok cl" "0 \<le> l" "l < NumLines cl" "0 \<le> i" "i < int (length ?line)"
    by (auto simp: valid_pos_def)
  note ix = elided_line [OF l(1-3)]
  have c: "py_index ?line i = Inr ?c" using l by simp
  have mem: "?c \<in> set '')}]>''" using cls by (auto simp: is_close_def)
  have "angle_free ?line" by (rule elided_angle_free [OF free l(1-3)])
  moreover have sf: "angle_free [?c]" using cls by (auto simp: is_close_def angle_free_def)
  ultimately have fs: "FindStartOfExpressionInLine ?line (i - 1) [?c] =
      Inr (back_result (scan_backward (map (char_at ?line) ?is) [?c]))"
    and pend: "\<And>st'. scan_backward (map (char_at ?line) ?is) [?c] = Pending st' \<Longrightarrow> angle_free st'"
    using find_start_scan [of "i - 1" ?line "[?c]"] l(4,5) by auto
  have first: "FindStartOfExpressionInLine ?line i [] = FindStartOfExpressionInLine ?line (i - 1) [?c]"
    using c l(4) start_step_close [OF cls, of ?line i "[]"]
    by (subst FindStartOfExpressionInLine.simps) simp
  have run: "ReverseCloseExpression cl l i = bind_r (FindStartOfExpressionInLine ?line (i - 1) [?c])
      (\<lambda>(start_pos, stack). if start_pos > -1 then Inr (?line, l, start_pos)
         else reverse_close_from cl ?line (rev [0..l - 1]) stack)"
    unfolding ReverseCloseExpression_def ix bind_r_simps c first using mem by auto
  have all: "scan_backward (((l, i), ?c) # preceding cl l i) [] =
      (case map_outcome (Pair l) (scan_backward (map (char_at ?line) ?is) [?c]) of
         Pending st' \<Rightarrow> scan_backward (rev (all_chars cl [0..l - 1])) st' | r \<Rightarrow> r)"
    using cls by (simp add: preceding_eq scan_append scan_line_chars)
  show ?thesis
  proof (cases "scan_backward (map (char_at ?line) ?is) [?c]")
    case (Found_at k)
    from scan_found_mem [OF this] have "0 \<le> k" by (auto simp: char_at_def)
    with Found_at fs show ?thesis unfolding all run by simp
  next
    case Unbalanced
    with fs show ?thesis unfolding all run by (cases "rev [0..l - 1]") simp_all
  next
    case (Pending st)
    from scan_Pending [OF this] pend [OF Pending] l
      reverse_close_from_scan [OF l(1) free, of "rev [0..l - 1]" st ?line]
    have "\<exists>r. reverse_close_from cl ?line (rev [0..l - 1]) (Some st) = Inr r \<and>
      (case scan_backward (rev (all_chars cl [0..l - 1])) st of
         Found_at (l, i) \<Rightarrow> r = (elided cl ! nat l, l, i) \<and> 0 \<le> i
       | _ \<Rightarrow> snd r = (0, -1))" by auto
    with Pending fs show ?thesis unfolding all run by simp
  qed
qed

subsection \<open>Positions are unique\<close>

lemma map_fst_line_chars: "map fst (line_chars l line is) = map (Pair l) is"
  by (simp add: line_chars_def char_at_def comp_def)

lemma distinct_all_chars: "distinct ls \<Longrightarrow> distinct (map fst (all_chars cl ls))"
proof (induction ls)
  case (Cons l ls)
  have "fst ` set (all_chars cl ls) \<subseteq> set ls \<times> UNIV"
    by (auto simp: all_chars_def line_chars_def char_at_def)
  with Cons show ?case
    by (auto simp: all_chars_Cons map_fst_line_chars distinct_map inj_on_def)
qed (simp add: all_chars_def)

lemma upto_split: "a \<le> i \<Longrightarrow> i \<le> b \<Longrightarrow> [a..b] = [a..i - 1] @ i # [i + 1..b]"
  by (metis upto_split3)

lemma whole_text:
  assumes "valid_pos cl l i"
  shows "all_chars cl [0..NumLines cl - 1] = rev (preceding cl l i) @ ((l, i), char_of cl l i) # following cl l i"
proof -
  let ?line = "elided cl ! nat l"
  from assms have v: "0 \<le> l" "l < NumLines cl" "0 \<le> i" "i < int (length ?line)"
    by (auto simp: valid_pos_def)
  have "line_chars l ?line [0..int (length ?line) - 1] =
      line_chars l ?line [0..i - 1] @ ((l, i), char_of cl l i) # line_chars l ?line [i + 1..int (length ?line) - 1]"
    using v by (subst upto_split [of 0 i]) (auto simp: line_chars_def char_at_def)
  moreover have "[0..NumLines cl - 1] = [0..l - 1] @ l # [l + 1..NumLines cl - 1]"
    using v by (intro upto_split) auto
  ultimately show ?thesis by (simp add: all_chars_append all_chars_Cons following_def preceding_def)
qed

lemma split_unique:
  "distinct (map fst (as @ (p, c) # bs)) \<Longrightarrow> as @ (p, c) # bs = as' @ (p, c') # bs' \<Longrightarrow>
    as = as' \<and> c = c' \<and> bs = bs'"
proof (induction as arbitrary: as')
  case Nil
  then show ?case by (cases as') auto
next
  case (Cons a as)
  show ?case
  proof (cases as')
    case Nil
    with Cons.prems show ?thesis by auto
  next
    case (Cons b list)
    with Cons.prems(2) have eq: "as @ (p, c) # bs = list @ (p, c') # bs'" "a = b" by simp_all
    have "distinct (map fst (as @ (p, c) # bs))" using Cons.prems(1) by simp
    from Cons.IH [OF this eq(1)] eq(2) Cons show ?thesis by simp
  qed
qed

lemma CloseExpression_iff:
  assumes "valid_pos cl linenum pos" "no_angles cl" "is_open (char_of cl linenum pos)" "0 \<le> i"
  shows "CloseExpression cl linenum pos = Inr (line, l, i + 1) \<longleftrightarrow> line = elided cl ! nat l \<and>
    (\<exists>us c vs. following cl linenum pos = us @ ((l, i), c) # vs
       \<and> balanced is_open is_close pairs (map snd us) \<and> pairs (char_of cl linenum pos) c)"
proof -
  define sc where "sc = scan_forward (((linenum, pos), char_of cl linenum pos) # following cl linenum pos) []"
  from CloseExpression_scan [OF assms(1-3)] obtain r where "CloseExpression cl linenum pos = Inr r"
    "case sc of Found_at (l', i') \<Rightarrow> r = (elided cl ! nat l', l', i' + 1) \<and> -1 < i' + 1
       | _ \<Rightarrow> snd r = (NumLines cl, -1)" unfolding sc_def by blast
  then have "CloseExpression cl linenum pos = Inr (line, l, i + 1) \<longleftrightarrow> line = elided cl ! nat l \<and> sc = Found_at (l, i)"
    using assms(4) by (cases sc) auto
  with forward.scan_match [OF assms(3), of "(linenum, pos)" "following cl linenum pos" "(l, i)"]
  show ?thesis unfolding sc_def by simp
qed

lemma ReverseCloseExpression_found:
  assumes "valid_pos cl l i" "no_angles cl" "is_close (char_of cl l i)"
    and "preceding cl l i = us @ ((l', i'), c) # vs" "balanced is_close is_open (\<lambda>c b. pairs b c) (map snd us)"
    and "pairs c (char_of cl l i)"
  shows "ReverseCloseExpression cl l i = Inr (elided cl ! nat l', l', i')"
proof -
  have "scan_backward (((l, i), char_of cl l i) # preceding cl l i) [] = Found_at (l', i')"
    using backward.scan_match [OF assms(3), of "(l, i)" "preceding cl l i" "(l', i')"] assms(4-6) by blast
  with ReverseCloseExpression_scan [OF assms(1-3)] show ?thesis by auto
qed

section \<open>Properties\<close>

text \<open>C33: \<open>CloseExpression\<close>, asked at a bracket that is not an operator, always returns: either the documented
  give-up value, or a line from the given one on and a column of that line, just past a
  character that closes the kind of bracket it started at.\<close>

theorem CloseExpression_in_bounds:
  assumes "valid_pos cl linenum pos"
    and "real_opener (elided cl ! nat linenum) pos (elided cl ! nat linenum ! nat pos)"
  shows "\<exists>r. CloseExpression cl linenum pos = Inr r \<and> closed_at cl (elided cl ! nat linenum ! nat pos) linenum r"
  using assms by (intro CloseExpression_result) (auto simp: valid_pos_def clean_ok_def)

text \<open>C5: on a text without template brackets, \<open>CloseExpression\<close> returns exactly the position just after the
  matching bracket, over any number of lines: the position \<open>(l, i + 1)\<close> is returned if and only if the
  text between the opening bracket and the character at \<open>(l, i)\<close> is balanced and that character is the
  closing counterpart.\<close>

theorem CloseExpression_finds_match:
  assumes "valid_pos cl linenum pos" and "no_angles cl" and "is_open (char_of cl linenum pos)" and "0 \<le> i"
  shows "CloseExpression cl linenum pos = Inr (elided cl ! nat l, l, i + 1) \<longleftrightarrow>
    (\<exists>us c vs. following cl linenum pos = us @ ((l, i), c) # vs
       \<and> balanced is_open is_close pairs (map snd us) \<and> pairs (char_of cl linenum pos) c)"
  using CloseExpression_iff [OF assms] by simp

text \<open>C13: on such a text \<open>ReverseCloseExpression\<close> undoes \<open>CloseExpression\<close>: asked at the closing bracket that was
  found, it returns the opening bracket the search started from.\<close>

theorem ReverseCloseExpression_inverts:
  assumes v: "valid_pos cl linenum pos" and free: "no_angles cl" and opn: "is_open (char_of cl linenum pos)"
    and run: "CloseExpression cl linenum pos = Inr (line, l, i + 1)" and "0 \<le> i"
  shows "ReverseCloseExpression cl l i = Inr (elided cl ! nat linenum, linenum, pos)"
proof -
  let ?o = "char_of cl linenum pos"
  from CloseExpression_iff [OF v free opn \<open>0 \<le> i\<close>] run
  obtain us c vs where us: "following cl linenum pos = us @ ((l, i), c) # vs"
    "balanced is_open is_close pairs (map snd us)" "pairs ?o c" by blast
  note whole = whole_text [OF v, unfolded us(1)]
  then have mem: "((l, i), c) \<in> set (all_chars cl [0..NumLines cl - 1])" by simp
  then have at: "valid_pos cl l i" "c = char_of cl l i"
    using v by (auto simp: all_chars_def line_chars_def char_at_def valid_pos_def)
  have dist: "distinct (map fst (rev (preceding cl l i) @ ((l, i), char_of cl l i) # following cl l i))"
    unfolding whole_text [OF at(1), symmetric] by (rule distinct_all_chars) simp
  have "rev (preceding cl l i) @ ((l, i), char_of cl l i) # following cl l i =
      (rev (preceding cl linenum pos) @ ((linenum, pos), ?o) # us) @ ((l, i), c) # vs"
    unfolding whole_text [OF at(1), symmetric] whole by simp
  from split_unique [OF dist this]
  have "rev (preceding cl l i) = rev (preceding cl linenum pos) @ ((linenum, pos), ?o) # us" by simp
  from arg_cong [OF this, of rev]
  have pre: "preceding cl l i = rev us @ ((linenum, pos), ?o) # preceding cl linenum pos" by simp
  have cls: "is_close (char_of cl l i)" using us(3) at(2) forward.prs_brackets by auto
  have "balanced is_close is_open (\<lambda>c b. pairs b c) (map snd (rev us))"
    using balanced_rev [OF us(2)] by (simp add: rev_map)
  with ReverseCloseExpression_found [OF at(1) free cls pre] us(3) at(2) show ?thesis by simp
qed

definition example_lines :: cleansed_lines where
  "example_lines = \<lparr>elided = [''f(a[1],'', '' (b));''], lines = [], raw_lines = [], num_lines = 2,
     lines_without_raw_strings = []\<rparr>"

lemma example_ok:
  "valid_pos example_lines 0 1" "no_angles example_lines" "is_open (char_of example_lines 0 1)"
  by code_simp+

theorem CloseExpression_in_bounds_witness:
  "\<exists>r. CloseExpression example_lines 0 1 = Inr r \<and> closed_at example_lines (CHR ''('') 0 r"
  using CloseExpression_in_bounds [of example_lines 0 1] example_ok(1)
  by (simp add: example_lines_def real_opener_def)

theorem CloseExpression_finds_match_witness:
  "CloseExpression example_lines 0 1 = Inr ('' (b));'', 1, 5) \<longleftrightarrow>
    (\<exists>us c vs. following example_lines 0 1 = us @ ((1, 4), c) # vs
       \<and> balanced is_open is_close pairs (map snd us) \<and> pairs (CHR ''('') c)"
  using CloseExpression_finds_match [OF example_ok, of 4 1] by (simp add: example_lines_def)

theorem ReverseCloseExpression_inverts_witness:
  "ReverseCloseExpression example_lines 1 4 = Inr (''f(a[1],'', 0, 1)"
proof -
  have "CloseExpression example_lines 0 1 = Inr ('' (b));'', 1, 4 + 1)" by code_simp
  from ReverseCloseExpression_inverts [OF example_ok this] show ?thesis by (simp add: example_lines_def)
qed

end
