(* ===== verification/Nesting.thy ===== *)
theory Nesting
  imports Expressions "HOL-Library.Multiset"
begin

text \<open>
  The nesting of blocks: the classes \<open>_BlockInfo\<close>, \<open>_ExternCInfo\<close>, \<open>_ClassInfo\<close>, \<open>_NamespaceInfo\<close>,
  \<open>_PreprocessorInfo\<close> and \<open>NestingState\<close>.  A block is a record with the fields of the base class
  and its class as the field \<open>kind\<close>.  The code compares blocks by identity and copies whole stacks at
  preprocessor conditions, so a block carries an object identity \<open>oid\<close>, fresh for every
  object and for every deep copy.  Stacks have their top first.  Of \<open>previous_stack_top\<close> the
  program only asks for the class and the identity, which are never changed in place.
\<close>

section \<open>Blocks\<close>

datatype asm_state = NO_ASM | INSIDE_ASM | END_ASM | BLOCK_ASM

definition MATCH_ASM :: string where
  "MATCH_ASM = rx ''^`s*(?:asm|_asm|__asm|__asm__)(?:`s+(volatile|__volatile__))?`s*[{(]''"

record class_info =
  class_name :: string
  is_derived :: bool
  access :: string
  is_struct :: bool
  class_indent :: int
  last_line :: int

datatype block_kind = BlockKind | ExternCKind | ClassKind class_info | NamespaceKind string

record block_info =
  oid :: nat
  starting_linenum :: int
  seen_open_brace :: bool
  open_parentheses :: int
  inline_asm :: asm_state
  check_namespace_indentation :: bool
  kind :: block_kind

definition BlockInfo :: "nat \<Rightarrow> int \<Rightarrow> bool \<Rightarrow> block_info" where
  "BlockInfo i linenum seen =
     \<lparr>oid = i, starting_linenum = linenum, seen_open_brace = seen, open_parentheses = 0, inline_asm = NO_ASM,
      check_namespace_indentation = False, kind = BlockKind\<rparr>"

definition ExternCInfo :: "nat \<Rightarrow> int \<Rightarrow> block_info" where
  "ExternCInfo i linenum = (BlockInfo i linenum True)\<lparr>kind := ExternCKind\<rparr>"

definition NamespaceInfo :: "nat \<Rightarrow> string option \<Rightarrow> int \<Rightarrow> block_info" where
  "NamespaceInfo i name linenum =
     (BlockInfo i linenum False)\<lparr>check_namespace_indentation := True,
        kind := NamespaceKind (case name of None \<Rightarrow> [] | Some n \<Rightarrow> n)\<rparr>"

definition GetIndentLevel :: "string \<Rightarrow> int" where
  "GetIndentLevel line =
     (case Match (rx ''^( *)`S'') line of None \<Rightarrow> 0 | Some indent \<Rightarrow> int (length (grp indent 1)))"

text \<open>The search for the last line of a class, from its first line on.\<close>

fun class_last_line :: "cleansed_lines \<Rightarrow> int list \<Rightarrow> int \<Rightarrow> int result" where
  "class_last_line cl [] depth = Inr 0"
| "class_last_line cl (i # is) depth =
     bind_r (py_index (elided cl) i) (\<lambda>line.
       let depth = depth + count_str line ''{'' - count_str line ''}''
       in if depth = 0 then Inr i else class_last_line cl is depth)"

definition ClassInfo :: "nat \<Rightarrow> string \<Rightarrow> string \<Rightarrow> cleansed_lines \<Rightarrow> int \<Rightarrow> block_info result" where
  "ClassInfo i name class_or_struct cl linenum =
     bind_r (py_index (raw_lines cl) linenum) (\<lambda>raw.
       bind_r (class_last_line cl [linenum..NumLines cl - 1] 0) (\<lambda>last.
         Inr ((BlockInfo i linenum False)\<lparr>check_namespace_indentation := True,
           kind := ClassKind \<lparr>class_name = name, is_derived = False,
             access = (if class_or_struct = ''struct'' then ''public'' else ''private''),
             is_struct = (class_or_struct = ''struct''), class_indent = GetIndentLevel raw, last_line = last\<rparr>\<rparr>)))"

definition is_namespace :: "block_info \<Rightarrow> bool" where
  "is_namespace b = (case kind b of NamespaceKind _ \<Rightarrow> True | _ \<Rightarrow> False)"

definition is_class :: "block_info \<Rightarrow> bool" where
  "is_class b = (case kind b of ClassKind _ \<Rightarrow> True | _ \<Rightarrow> False)"

definition IsBlockInfo :: "block_info \<Rightarrow> bool" where
  "IsBlockInfo b \<longleftrightarrow> kind b = BlockKind"

subsection \<open>Checks at the beginning and the end of a block\<close>

definition CheckBegin :: "cleansed_lines \<Rightarrow> int \<Rightarrow> block_info \<Rightarrow> block_info result" where
  "CheckBegin cl linenum b =
     (case kind b of
        ClassKind ci \<Rightarrow>
          bind_r (py_index (elided cl) linenum) (\<lambda>line.
            Inr (if found ''(^|[^:]):($|[^:])'' line then b\<lparr>kind := ClassKind (ci\<lparr>is_derived := True\<rparr>)\<rparr> else b))
      | _ \<Rightarrow> Inr b)"

definition class_or_struct_of :: "class_info \<Rightarrow> string" where
  "class_or_struct_of ci = msg_of [if is_struct ci then ''struct '' else ''class '', class_name ci]"

definition DISALLOW_PATTERN :: "string \<Rightarrow> string" where
  "DISALLOW_PATTERN name =
     rx ''`b(DISALLOW_COPY_AND_ASSIGN|DISALLOW_IMPLICIT_CONSTRUCTORS)`('' @ name @ rx ''`)''"

fun check_disallow :: "error_fn \<Rightarrow> string \<Rightarrow> cleansed_lines \<Rightarrow> string \<Rightarrow> bool \<Rightarrow> int list \<Rightarrow> (lint, unit) py" where
  "check_disallow error filename cl name seen_last [] = pass"
| "check_disallow error filename cl name seen_last (i # is) =
     let_r (py_index (elided cl) i) (\<lambda>line.
       case Search (DISALLOW_PATTERN name) line of
         Some m \<Rightarrow>
           do_when seen_last
             (error filename i ''readability/constructors'' 3
               (msg_of [grp m 1, '' should be the last thing in the class'']))
       | None \<Rightarrow> check_disallow error filename cl name (seen_last \<or> \<not> matches (rx ''^`s*$'') line) is)"

definition class_CheckEnd :: "error_fn \<Rightarrow> string \<Rightarrow> cleansed_lines \<Rightarrow> int \<Rightarrow> block_info \<Rightarrow> class_info \<Rightarrow> (lint, unit) py" where
  "class_CheckEnd error filename cl linenum b ci =
     seq (check_disallow error filename cl (class_name ci) False (rev [starting_linenum b + 1..linenum - 1]))
      (let_r (py_index (elided cl) linenum) (\<lambda>line.
        case Match (rx ''^( *)`}'') line of
          None \<Rightarrow> pass
        | Some indent \<Rightarrow>
            do_when (int (length (grp indent 1)) \<noteq> class_indent ci)
              (error filename linenum ''whitespace/indent'' 3
                (msg_of [''Closing brace should be aligned with beginning of '', class_or_struct_of ci]))))"

definition namespace_CheckEnd :: "error_fn \<Rightarrow> string \<Rightarrow> cleansed_lines \<Rightarrow> int \<Rightarrow> block_info \<Rightarrow> string \<Rightarrow> (lint, unit) py" where
  "namespace_CheckEnd error filename cl linenum b name =
     let_r (py_index (raw_lines cl) linenum) (\<lambda>line.
       if linenum - starting_linenum b < 10 \<and> \<not> matches (rx ''^`s*};*`s*(//|/`*).*`bnamespace`b'') line then pass
       else if name \<noteq> [] then
         do_when (\<not> matches (rx ''^`s*};*`s*(//|/`*).*`bnamespace`s+'' @ re_escape name @ rx ''[`*/`.```s]*$'') line)
           (error filename linenum ''readability/namespace'' 5
             (msg_of [''Namespace should be terminated with '', [dquote], ''// namespace '', name, [dquote]]))
       else
         do_when (\<not> matches (rx ''^`s*};*`s*(//|/`*).*`bnamespace[`*/`.```s]*$'') line)
           (if matches (rx ''^`s*}.*`b(namespace anonymous|anonymous namespace)`b'') line
            then error filename linenum ''readability/namespace'' 5
                   (msg_of [''Anonymous namespace should be terminated with '', [dquote], ''// namespace'', [dquote],
                     '' or '', [dquote], ''// anonymous namespace'', [dquote]])
            else error filename linenum ''readability/namespace'' 5
                   (msg_of [''Anonymous namespace should be terminated with '', [dquote], ''// namespace'', [dquote]])))"

definition CheckEnd :: "error_fn \<Rightarrow> string \<Rightarrow> cleansed_lines \<Rightarrow> int \<Rightarrow> block_info \<Rightarrow> (lint, unit) py" where
  "CheckEnd error filename cl linenum b =
     (case kind b of
        ClassKind ci \<Rightarrow> class_CheckEnd error filename cl linenum b ci
      | NamespaceKind name \<Rightarrow> namespace_CheckEnd error filename cl linenum b name
      | _ \<Rightarrow> pass)"

section \<open>The nesting state\<close>

record pp_info =
  stack_before_if :: "block_info list"
  stack_before_else :: "block_info list"
  seen_else :: bool

record nesting_state =
  stack :: "block_info list"
  previous_stack_top :: "block_info option"
  pp_stack :: "pp_info list"
  next_oid :: nat

definition init_nesting_state :: nesting_state where
  "init_nesting_state = \<lparr>stack = [], previous_stack_top = None, pp_stack = [], next_oid = 0\<rparr>"

definition SeenOpenBrace :: "nesting_state \<Rightarrow> bool" where
  "SeenOpenBrace ns = (case stack ns of [] \<Rightarrow> True | b # _ \<Rightarrow> seen_open_brace b)"

definition InNamespaceBody :: "nesting_state \<Rightarrow> bool" where
  "InNamespaceBody ns = (case stack ns of [] \<Rightarrow> False | b # _ \<Rightarrow> is_namespace b)"

definition InExternC :: "nesting_state \<Rightarrow> bool" where
  "InExternC ns = (case stack ns of [] \<Rightarrow> False | b # _ \<Rightarrow> kind b = ExternCKind)"

definition InClassDeclaration :: "nesting_state \<Rightarrow> bool" where
  "InClassDeclaration ns = (case stack ns of [] \<Rightarrow> False | b # _ \<Rightarrow> is_class b)"

definition InAsmBlock :: "nesting_state \<Rightarrow> bool" where
  "InAsmBlock ns = (case stack ns of [] \<Rightarrow> False | b # _ \<Rightarrow> inline_asm b \<noteq> NO_ASM)"

definition InnermostClass :: "nesting_state \<Rightarrow> (block_info \<times> class_info) option" where
  "InnermostClass ns =
     (case find is_class (stack ns) of
        None \<Rightarrow> None
      | Some b \<Rightarrow> case kind b of ClassKind ci \<Rightarrow> Some (b, ci) | _ \<Rightarrow> None)"

subsection \<open>Preprocessor conditions\<close>

text \<open>\<open>copy.deepcopy\<close> of a stack: equal blocks with fresh identities.\<close>

fun renumber :: "nat \<Rightarrow> block_info list \<Rightarrow> block_info list" where
  "renumber n [] = []"
| "renumber n (b # bs) = b\<lparr>oid := n\<rparr> # renumber (Suc n) bs"

definition deepcopy :: "block_info list \<Rightarrow> nesting_state \<Rightarrow> block_info list \<times> nesting_state" where
  "deepcopy bs ns = (renumber (next_oid ns) bs, ns\<lparr>next_oid := next_oid ns + length bs\<rparr>)"

definition PP_IF :: string where "PP_IF = rx ''^`s*#`s*(if|ifdef|ifndef)`b''"
definition PP_ELSE :: string where "PP_ELSE = rx ''^`s*#`s*(else|elif)`b''"
definition PP_ENDIF :: string where "PP_ENDIF = rx ''^`s*#`s*endif`b''"

definition UpdatePreprocessor :: "string \<Rightarrow> nesting_state \<Rightarrow> nesting_state" where
  "UpdatePreprocessor line ns =
     (if matches PP_IF line then
        let (copied, ns) = deepcopy (stack ns) ns
        in ns\<lparr>pp_stack := \<lparr>stack_before_if = copied, stack_before_else = [], seen_else = False\<rparr> # pp_stack ns\<rparr>
      else if matches PP_ELSE line then
        (case pp_stack ns of
           [] \<Rightarrow> ns
         | pp # pps \<Rightarrow>
             let (pp, ns) =
                   (if \<not> seen_else pp
                    then let (copied, ns) = deepcopy (stack ns) ns
                         in (pp\<lparr>seen_else := True, stack_before_else := copied\<rparr>, ns)
                    else (pp, ns));
                 (restored, ns) = deepcopy (stack_before_if pp) ns
             in ns\<lparr>pp_stack := pp # pps, stack := restored\<rparr>)
      else if matches PP_ENDIF line then
        (case pp_stack ns of
           [] \<Rightarrow> ns
         | pp # pps \<Rightarrow>
             let ns = (if seen_else pp then ns\<lparr>stack := stack_before_else pp\<rparr> else ns)
             in ns\<lparr>pp_stack := pps\<rparr>)
      else ns)"

subsection \<open>Template argument lists\<close>

lemma end_step_pos: "end_step line i c st = Done p \<Longrightarrow> p = -1 \<or> p = i + 1"
  by (auto simp: end_step_def split: if_splits list.splits)

lemma find_end_pos: "find_end line is st = Inr (e, st') \<Longrightarrow> e = -1 \<or> e - 1 \<in> set is"
proof (induction "is" arbitrary: st)
  case (Cons i "is")
  from Cons.prems obtain c where c: "(case end_step line i c st of
      Cont st'' \<Rightarrow> find_end line is st'' | Done p \<Rightarrow> Inr (p, None)) = Inr (e, st')"
    by (auto simp: bind_r_eq_Inr)
  show ?case
  proof (cases "end_step line i c st")
    case (Cont st'')
    with c Cons.IH show ?thesis by auto
  next
    case (Done p)
    with c end_step_pos [OF Done] show ?thesis by auto
  qed
qed simp

lemma close_from_later:
  "close_from cl line ls st = Inr (line', l, e) \<Longrightarrow> e \<noteq> -1 \<Longrightarrow> l \<in> set ls"
proof (induction ls arbitrary: line st)
  case (Cons n ls)
  then show ?case
    by (auto simp: bind_r_eq_Inr split: option.splits if_splits)
qed simp

lemma CloseExpression_later:
  assumes "CloseExpression cl l p = Inr (line, l', e)" and "0 \<le> e"
  shows "l < l' \<or> (l' = l \<and> p < e)"
proof -
  from assms(2) have e: "e \<noteq> -1" by simp
  from assms(1) e obtain ln c end_pos st where
    fe: "FindEndOfExpressionInLine ln p [] = Inr (end_pos, st)" and
    r: "(if end_pos > -1 then Inr (ln, l, end_pos) else close_from cl ln [l + 1..NumLines cl - 1] st) = Inr (line, l', e)"
    by (auto simp: CloseExpression_def bind_r_eq_Inr split: if_splits)
  show ?thesis
  proof (cases "end_pos > -1")
    case True
    with find_end_pos [OF fe [unfolded FindEndOfExpressionInLine_def]] r show ?thesis by auto
  next
    case False
    with r close_from_later [OF _ e, of cl ln _ st line l'] show ?thesis by fastforce
  qed
qed

definition TEMPLATE_TOKEN :: string where
  "TEMPLATE_TOKEN = rx ''^[^{};=`[`]`.<>]*(.)''"

lemma template_token_consumes:
  assumes "Match TEMPLATE_TOKEN s = Some m"
  shows "1 \<le> length (m_text m) \<and> length (m_text m) \<le> length s"
proof -
  from assms obtain st where st: "st \<in> set (ml (compiled TEMPLATE_TOKEN) (MSt [] s []))"
    and s: "s = m_text m @ after st" by (elim Match_Some)
  have "\<exists>rs. compiled TEMPLATE_TOKEN = RSeq RBol (RSeq (RRep True 0 None (RSet True rs)) (RGroup 1 RAny))"
    by (rule exI) code_simp
  then obtain rs where "compiled TEMPLATE_TOKEN = RSeq RBol (RSeq (RRep True 0 None (RSet True rs)) (RGroup 1 RAny))" ..
  with st have "length (after st) < length s"
    by (auto simp: seq_mem step_char_Some close_group_def simp del: ml.simps(8))
  with s show ?thesis
    by (metis add_diff_cancel_right' diff_is_0_eq length_append less_one linorder_not_less le_add1 zero_less_diff Suc_leI One_nat_def)
qed

function InTemplateArgumentList :: "cleansed_lines \<Rightarrow> int \<Rightarrow> int \<Rightarrow> bool result" where
  "InTemplateArgumentList cl linenum pos =
     (if linenum < NumLines cl then
        bind_r (py_index (elided cl) linenum) (\<lambda>line.
          case Match TEMPLATE_TOKEN (slice_from line pos) of
            None \<Rightarrow> InTemplateArgumentList cl (linenum + 1) 0
          | Some m \<Rightarrow>
              let token = grp m 1; pos' = pos + int (length (m_text m)) in
              if token \<in> {''{'', ''}'', '';''} then Inr False
              else if token \<in> {''>'', ''='', ''['', '']'', ''.''} then Inr True
              else if token \<noteq> ''<'' then
                (if pos' + 1 \<ge> int (length line) then InTemplateArgumentList cl (linenum + 1) 0
                 else InTemplateArgumentList cl linenum (pos' + 1))
              else
                bind_r (CloseExpression cl linenum (pos' - 1)) (\<lambda>(_, end_line, end_pos).
                  if end_pos < 0 then Inr False else InTemplateArgumentList cl end_line end_pos))
      else Inr False)"
  by pat_completeness auto

definition rest_of_line :: "cleansed_lines \<Rightarrow> int \<Rightarrow> int \<Rightarrow> nat" where
  "rest_of_line cl linenum pos =
     (case py_index (elided cl) linenum of Inl _ \<Rightarrow> 0 | Inr line \<Rightarrow> nat (int (length line) - pos))"

lemma slice_from_nonempty: "slice_from line pos \<noteq> [] \<Longrightarrow> pos < int (length line)"
  by (auto simp: slice_from_def clip_def Let_def split: if_splits)

lemma template_token_progress:
  assumes "Match TEMPLATE_TOKEN (slice_from line pos) = Some m" "py_index (elided cl) linenum = Inr line"
    and "pos + int (length (m_text m)) \<le> pos''"
  shows "rest_of_line cl linenum pos'' < rest_of_line cl linenum pos"
proof -
  from template_token_consumes [OF assms(1)] have "slice_from line pos \<noteq> []" "1 \<le> length (m_text m)" by auto
  with slice_from_nonempty assms(2,3) show ?thesis by (fastforce simp: rest_of_line_def)
qed

termination InTemplateArgumentList
proof (relation "measures [\<lambda>(cl, l, p). nat (NumLines cl - l), \<lambda>(cl, l, p). rest_of_line cl l p]", goal_cases)
  case (4 cl l p line m token p')
  then show ?case by (simp add: template_token_progress)
next
  case (5 cl l p line m token p' r a b end_line end_pos)
  then have "l < end_line \<or> end_line = l \<and> p' \<le> end_pos"
    using CloseExpression_later [of cl l "p' - 1" a end_line end_pos] by auto
  with 5 show ?case by (auto simp: template_token_progress)
qed auto

declare InTemplateArgumentList.simps [simp del]

subsection \<open>Update\<close>

definition update_top :: "(block_info \<Rightarrow> block_info) \<Rightarrow> nesting_state \<Rightarrow> nesting_state" where
  "update_top f ns = (case stack ns of [] \<Rightarrow> ns | b # bs \<Rightarrow> ns\<lparr>stack := f b # bs\<rparr>)"

definition push :: "block_info \<Rightarrow> nesting_state \<Rightarrow> nesting_state" where
  "push b ns = ns\<lparr>stack := b # stack ns, next_oid := next_oid ns + 1\<rparr>"

definition pop :: "nesting_state \<Rightarrow> nesting_state" where
  "pop ns = ns\<lparr>stack := tl (stack ns)\<rparr>"

definition count_parentheses :: "string \<Rightarrow> block_info \<Rightarrow> block_info" where
  "count_parentheses line b =
     (let depth_change = count_str line ''('' - count_str line '')'';
          b = b\<lparr>open_parentheses := open_parentheses b + depth_change\<rparr>
      in if inline_asm b = NO_ASM \<or> inline_asm b = END_ASM
         then if depth_change \<noteq> 0 \<and> open_parentheses b = 1 \<and> matches MATCH_ASM line
              then b\<lparr>inline_asm := INSIDE_ASM\<rparr> else b\<lparr>inline_asm := NO_ASM\<rparr>
         else if inline_asm b = INSIDE_ASM \<and> open_parentheses b = 0 then b\<lparr>inline_asm := END_ASM\<rparr>
         else b)"

definition NAMESPACE_DECL :: string where
  "NAMESPACE_DECL = rx ''^`s*namespace`b`s*([:`w]+)?(.*)$''"

lemma namespace_decl_shrinks:
  assumes "Match NAMESPACE_DECL line = Some m"
  shows "length (grp m 2) < length line"
proof -
  from assms obtain st where st: "st \<in> set (ml (compiled NAMESPACE_DECL) (MSt [] line []))"
    and caps: "m_caps m = caps st" by (elim Match_Some)
  have "\<exists>rs r. compiled NAMESPACE_DECL = RSeq RBol (RSeq (RRep True 0 None (RSet False rs)) (RSeq (RChar CHR ''n'') r))"
    by (intro exI) code_simp
  then obtain rs r where "compiled NAMESPACE_DECL =
      RSeq RBol (RSeq (RRep True 0 None (RSet False rs)) (RSeq (RChar CHR ''n'') r))" by blast
  with st obtain u v where uv: "line = u @ CHR ''n'' # v" "st \<in> set (ml r (MSt (CHR ''n'' # rev u) v []))"
    by (auto simp: seq_mem simp del: ml.simps(8))
  from caps_grow_group [OF ml_caps [OF uv(2)]] caps have "length (grp m 2) \<le> length v"
    by (cases "map_of (caps st) 2") (auto simp: grp_def group_def)
  with uv(1) show ?thesis by simp
qed

function consume_namespaces :: "int \<Rightarrow> string \<Rightarrow> nesting_state \<Rightarrow> string \<times> nesting_state" where
  "consume_namespaces linenum line ns =
     (case Match NAMESPACE_DECL line of
        None \<Rightarrow> (line, ns)
      | Some m \<Rightarrow>
          let line = grp m 2; brace = find_str line ''{'';
              b = NamespaceInfo (next_oid ns) (group m 1) linenum
          in if brace \<noteq> -1
             then consume_namespaces linenum (slice_from line (brace + 1)) (push (b\<lparr>seen_open_brace := True\<rparr>) ns)
             else consume_namespaces linenum line (push b ns))"
  by pat_completeness auto
termination
proof (relation "measure (\<lambda>(_, line, _). length line)", goal_cases)
  case (2 linenum line ns m line' brace b)
  then show ?case
    using namespace_decl_shrinks [of line m] length_slice_from [of line' "brace + 1"] by simp
next
  case (3 linenum line ns m line' brace b)
  then show ?case using namespace_decl_shrinks [of line m] by simp
qed simp

declare consume_namespaces.simps [simp del]

definition CLASS_DECL :: string where
  "CLASS_DECL = rx ''^(`s*(?:template`s*<[`w`s<>,:]*>`s*)?(class|struct)`s+(?:[A-Z_]+`s+)*(`w+(?:::`w+)*))(.*)$''"

definition top_parentheses :: "nesting_state \<Rightarrow> int" where
  "top_parentheses ns = (case stack ns of [] \<Rightarrow> 0 | b # _ \<Rightarrow> open_parentheses b)"

definition consume_class :: "cleansed_lines \<Rightarrow> int \<Rightarrow> string \<Rightarrow> nesting_state \<Rightarrow> (string \<times> nesting_state) result" where
  "consume_class cl linenum line ns =
     (case Match CLASS_DECL line of
        None \<Rightarrow> Inr (line, ns)
      | Some m \<Rightarrow>
          if top_parentheses ns = 0
          then bind_r (InTemplateArgumentList cl linenum (int (length (grp m 1)))) (\<lambda>in_template.
            if in_template then Inr (line, ns)
            else bind_r (ClassInfo (next_oid ns) (grp m 3) (grp m 2) cl linenum) (\<lambda>b.
              Inr (grp m 4, push b ns)))
          else Inr (line, ns))"

definition check_begin :: "cleansed_lines \<Rightarrow> int \<Rightarrow> nesting_state \<Rightarrow> nesting_state result" where
  "check_begin cl linenum ns =
     (case stack ns of
        [] \<Rightarrow> Inr ns
      | b # bs \<Rightarrow>
          if seen_open_brace b then Inr ns
          else bind_r (CheckBegin cl linenum b) (\<lambda>b'. Inr (ns\<lparr>stack := b' # bs\<rparr>)))"

definition ACCESS_PATTERN :: string where
  "ACCESS_PATTERN = rx ''^(.*)`b(public|private|protected|signals)(`s+(?:slots`s*)?)?:(?:[^:]|$)''"

definition update_access :: "error_fn \<Rightarrow> string \<Rightarrow> int \<Rightarrow> string \<Rightarrow> nesting_state \<Rightarrow> (lint, nesting_state) py" where
  "update_access error filename linenum line ns =
     (case stack ns of
        [] \<Rightarrow> ret ns
      | b # bs \<Rightarrow>
          (case kind b of
             ClassKind ci \<Rightarrow>
               (case Match ACCESS_PATTERN line of
                  None \<Rightarrow> ret ns
                | Some m \<Rightarrow>
                    let ci = ci\<lparr>access := grp m 2\<rparr>;
                        ns = ns\<lparr>stack := b\<lparr>kind := ClassKind ci\<rparr> # bs\<rparr>;
                        indent = grp m 1
                    in seq (do_when (int (length indent) \<noteq> class_indent ci + 1 \<and> matches (rx ''^`s*$'') indent)
                             (error filename linenum ''whitespace/indent'' 3
                               (msg_of [grp m 2, grp m 3, '': should be indented +1 space inside '',
                                  class_or_struct_of ci])))
                         (ret ns))
           | _ \<Rightarrow> ret ns))"

definition NEXT_BRACE :: string where
  "NEXT_BRACE = rx ''^[^{;)}]*([{;)}])(.*)$''"

text \<open>What one token does to the stack; a closing brace runs the checks of the block it closes.\<close>

definition open_brace :: "int \<Rightarrow> string \<Rightarrow> nesting_state \<Rightarrow> nesting_state" where
  \<open>open_brace linenum line ns =
     (if \<not> SeenOpenBrace ns then update_top (\<lambda>b. b\<lparr>seen_open_brace := True\<rparr>) ns
      else if matches (rx ''^extern`s*"[^"]*"`s*`{'') line then push (ExternCInfo (next_oid ns) linenum) ns
      else
        let b = BlockInfo (next_oid ns) linenum True
        in push (if matches MATCH_ASM line then b\<lparr>inline_asm := BLOCK_ASM\<rparr> else b) ns)\<close>

definition brace_token :: "error_fn \<Rightarrow> string \<Rightarrow> cleansed_lines \<Rightarrow> int \<Rightarrow> string \<Rightarrow> string \<Rightarrow> nesting_state \<Rightarrow> (lint, nesting_state) py" where
  "brace_token error filename cl linenum line token ns =
     (if token = ''{'' then ret (open_brace linenum line ns)
      else if token = '';'' \<or> token = '')'' then ret (if SeenOpenBrace ns then ns else pop ns)
      else case stack ns of
          [] \<Rightarrow> ret ns
        | b # _ \<Rightarrow> seq (CheckEnd error filename cl linenum b) (ret (pop ns)))"

lemma next_brace_compiled:
  "compiled NEXT_BRACE = RSeq RBol (RSeq
     (RRep True 0 None (RSet True [(CHR ''{'', CHR ''{''), (CHR '';'', CHR '';''), (CHR '')'', CHR '')''), (CHR ''}'', CHR ''}'')]))
     (RSeq (RGroup 1 (RSet False [(CHR ''{'', CHR ''{''), (CHR '';'', CHR '';''), (CHR '')'', CHR '')''), (CHR ''}'', CHR ''}'')]))
       (RSeq (RGroup 2 (RRep True 0 None RAny)) REol)))"
  by code_simp

lemma next_brace_Some:
  assumes "Match NEXT_BRACE line = Some m"
  obtains u c e where "line = u @ c # grp m 2 @ e" "grp m 1 = [c]" "c \<in> set ''{;)}''"
    "set u \<inter> set ''{;)}'' = {}" "e = [] \<or> e = [nl]" "nl \<notin> set (grp m 2)"
proof -
  from assms obtain st where "st \<in> set (ml (compiled NEXT_BRACE) (MSt [] line []))"
    and caps: "m_caps m = caps st" by (elim Match_Some)
  then obtain u c v e where "line = u @ c # v @ e"
      "in_set False [(CHR ''{'', CHR ''{''), (CHR '';'', CHR '';''), (CHR '')'', CHR '')''), (CHR ''}'', CHR ''}'')] c"
      "list_all (in_set True [(CHR ''{'', CHR ''{''), (CHR '';'', CHR '';''), (CHR '')'', CHR '')''), (CHR ''}'', CHR ''}'')]) u"
      "e = [] \<or> e = [nl]" "list_all (\<lambda>d. d \<noteq> nl) v"
      "caps st = [(2, Suc (length u), v), (1, length u, [c])]"
    unfolding next_brace_compiled seq_mem by auto
  with caps show thesis
    by (intro that [of u c e]) (auto simp: grp_def group_def in_set_def list_all_iff)
qed

lemma next_brace_shrinks: "Match NEXT_BRACE line = Some m \<Longrightarrow> length (grp m 2) < length line"
  by (elim next_brace_Some) auto

function consume_braces :: "error_fn \<Rightarrow> string \<Rightarrow> cleansed_lines \<Rightarrow> int \<Rightarrow> string \<Rightarrow> nesting_state \<Rightarrow> (lint, nesting_state) py" where
  "consume_braces error filename cl linenum line ns =
     (case Match NEXT_BRACE line of
        None \<Rightarrow> ret ns
      | Some m \<Rightarrow>
          andthen (brace_token error filename cl linenum line (grp m 1) ns) (\<lambda>ns'.
            consume_braces error filename cl linenum (grp m 2) ns'))"
  by pat_completeness auto
termination
  by (relation "measure (\<lambda>(_, _, _, _, line, _). length line)") (auto simp: next_brace_shrinks)

declare consume_braces.simps [simp del]

definition Update :: "string \<Rightarrow> cleansed_lines \<Rightarrow> int \<Rightarrow> error_fn \<Rightarrow> nesting_state \<Rightarrow> (lint, nesting_state) py" where
  "Update filename cl linenum error ns =
     let_r (py_index (elided cl) linenum) (\<lambda>line.
       let ns = ns\<lparr>previous_stack_top := (case stack ns of [] \<Rightarrow> None | b # _ \<Rightarrow> Some b)\<rparr>;
           ns = UpdatePreprocessor line ns;
           ns = update_top (count_parentheses line) ns;
           (line, ns) = consume_namespaces linenum line ns
       in let_r (consume_class cl linenum line ns) (\<lambda>(line, ns).
            let_r (check_begin cl linenum ns) (\<lambda>ns.
              andthen (update_access error filename linenum line ns) (\<lambda>ns.
                consume_braces error filename cl linenum line ns))))"

definition CheckCompletedBlocks :: "string \<Rightarrow> error_fn \<Rightarrow> nesting_state \<Rightarrow> (lint, unit) py" where
  "CheckCompletedBlocks filename error ns =
     for_each (rev (stack ns)) (\<lambda>b.
       case kind b of
         ClassKind ci \<Rightarrow>
           error filename (starting_linenum b) ''build/class'' 5
             (msg_of [''Failed to find complete declaration of class '', class_name ci])
       | NamespaceKind name \<Rightarrow>
           error filename (starting_linenum b) ''build/namespaces'' 5
             (msg_of [''Failed to find complete declaration of namespace '', name])
       | _ \<Rightarrow> pass)"

section \<open>Update never raises\<close>

lemma find_end_total:
  "(\<And>i. i \<in> set is \<Longrightarrow> 0 \<le> i \<and> i < int (length line)) \<Longrightarrow> \<exists>r. find_end line is st = Inr r"
proof (induction "is" arbitrary: st)
  case (Cons i "is")
  then have "py_index line i = Inr (line ! nat i)" by simp
  with Cons show ?case by (cases "end_step line i (line ! nat i) st") auto
qed simp

lemma close_from_total:
  "cl_ok cl \<Longrightarrow> (\<And>l. l \<in> set ls \<Longrightarrow> 0 \<le> l \<and> l < num_lines cl) \<Longrightarrow> \<exists>r. close_from cl line ls st = Inr r"
proof (induction ls arbitrary: line st)
  case (Cons l ls)
  then have "in_file cl l" by (auto simp: in_file_def)
  moreover obtain e st' where "FindEndOfExpressionInLine (elided cl ! nat l) 0 (the st) = Inr (e, st')"
    using find_end_total [of "[0..int (length (elided cl ! nat l)) - 1]" "elided cl ! nat l" "the st"]
    by (force simp: FindEndOfExpressionInLine_def)
  moreover have "\<exists>r. close_from cl (elided cl ! nat l) ls st' = Inr r"
    using Cons by (intro Cons.IH) auto
  ultimately show ?case by (cases st) auto
qed simp

lemma CloseExpression_total:
  assumes "in_file cl l" "0 \<le> p" "p < int (length (elided cl ! nat l))"
  shows "\<exists>line l' e. CloseExpression cl l p = Inr (line, l', e)"
proof -
  let ?line = "elided cl ! nat l"
  obtain e st where fe: "FindEndOfExpressionInLine ?line p [] = Inr (e, st)"
    using find_end_total [of "[p..int (length ?line) - 1]" ?line "[]"] assms(2)
    by (force simp: FindEndOfExpressionInLine_def)
  moreover have "\<exists>r. close_from cl ?line [l + 1..NumLines cl - 1] st = Inr r"
    using assms(1) by (intro close_from_total) (auto simp: in_file_def NumLines_def)
  ultimately show ?thesis using assms by (auto simp: CloseExpression_def)
qed

lemma CloseExpression_in_file:
  assumes "in_file cl l" "CloseExpression cl l p = Inr (line, l', e)" "0 \<le> e"
  shows "in_file cl l'"
proof -
  from assms(3) have e: "e \<noteq> -1" by simp
  from assms(2) e obtain ln st where "l' = l \<or> close_from cl ln [l + 1..NumLines cl - 1] st = Inr (line, l', e)"
    by (auto simp: CloseExpression_def bind_r_eq_Inr split: if_splits)
  with close_from_later [OF _ e] assms(1) show ?thesis
    by (fastforce simp: in_file_def NumLines_def)
qed

lemma InTemplateArgumentList_total:
  "cl_ok cl \<Longrightarrow> 0 \<le> l \<Longrightarrow> 0 \<le> p \<Longrightarrow> \<exists>b. InTemplateArgumentList cl l p = Inr b"
proof (induction cl l p rule: InTemplateArgumentList.induct)
  case (1 cl l p)
  show ?case
  proof (cases "l < NumLines cl")
    case False
    then show ?thesis by (subst InTemplateArgumentList.simps) auto
  next
    case True
    with 1 have f: "in_file cl l" by (simp add: in_file_def NumLines_def)
    let ?line = "elided cl ! nat l"
    note ix = in_file_index(1) [OF f]
    note IH = "1.IH" [OF True ix]
    show ?thesis
    proof (cases "Match TEMPLATE_TOKEN (slice_from ?line p)")
      case None
      with IH(1) 1 True ix show ?thesis by (subst InTemplateArgumentList.simps) simp
    next
      case (Some m)
      let ?p = "p + int (length (m_text m))"
      from template_token_consumes [OF Some] have tok: "1 \<le> length (m_text m)"
          "length (m_text m) \<le> length (slice_from ?line p)" by auto
      have "length (slice_from ?line p) = length ?line - nat p"
        using slice_from_nat [of ?line "nat p"] 1 by simp
      with tok 1 have p: "0 \<le> ?p - 1" "?p - 1 < int (length ?line)" by linarith+
      obtain ln end_line end_pos where ce: "CloseExpression cl l (?p - 1) = Inr (ln, end_line, end_pos)"
        using CloseExpression_total [OF f p] by blast
      let ?A = "{''{'', ''}'', '';''}" and ?B = "{''>'', ''='', ''['', '']'', ''.''}"
      have run: "InTemplateArgumentList cl l p =
          (if grp m 1 \<in> ?A then Inr False else if grp m 1 \<in> ?B then Inr True
           else if grp m 1 \<noteq> ''<'' then
             (if ?p + 1 \<ge> int (length ?line) then InTemplateArgumentList cl (l + 1) 0
              else InTemplateArgumentList cl l (?p + 1))
           else if end_pos < 0 then Inr False else InTemplateArgumentList cl end_line end_pos)"
        using True by (subst InTemplateArgumentList.simps) (simp only: ix Some ce Let_def bind_r_simps option.case prod.case if_True)
      show ?thesis unfolding run
      proof (intro total_if total_Inr)
        assume t: "grp m 1 \<notin> ?A" "grp m 1 \<notin> ?B" "grp m 1 \<noteq> ''<''"
        show "int (length ?line) \<le> ?p + 1 \<Longrightarrow> \<exists>b. InTemplateArgumentList cl (l + 1) 0 = Inr b"
          using IH(2) [OF Some refl refl t] 1 by simp
        show "\<not> int (length ?line) \<le> ?p + 1 \<Longrightarrow> \<exists>b. InTemplateArgumentList cl l (?p + 1) = Inr b"
          using IH(3) [OF Some refl refl t] 1 by simp
      next
        assume t: "grp m 1 \<notin> ?A" "grp m 1 \<notin> ?B" "\<not> grp m 1 \<noteq> ''<''" and e: "\<not> end_pos < 0"
        with CloseExpression_in_file [OF f ce] have "in_file cl end_line" by simp
        with e 1 show "\<exists>b. InTemplateArgumentList cl end_line end_pos = Inr b"
          by (intro IH(4) [OF Some refl refl t ce refl refl]) (auto simp: in_file_def)
      qed
    qed
  qed
qed

lemma class_last_line_total:
  "(\<And>i. i \<in> set is \<Longrightarrow> in_file cl i) \<Longrightarrow> \<exists>n. class_last_line cl is depth = Inr n"
proof (induction "is" arbitrary: depth)
  case (Cons i "is")
  then have "py_index (elided cl) i = Inr (elided cl ! nat i)" by simp
  with Cons show ?case by (auto simp: Let_def)
qed simp

lemma ClassInfo_total: "in_file cl linenum \<Longrightarrow> \<exists>b. ClassInfo i name cs cl linenum = Inr b"
  using class_last_line_total [of "[linenum..NumLines cl - 1]" cl 0]
  by (auto simp: ClassInfo_def in_file_def NumLines_def)

lemma consume_class_total:
  assumes "in_file cl linenum"
  shows "\<exists>r. consume_class cl linenum line ns = Inr r"
proof (cases "Match CLASS_DECL line")
  case (Some m)
  obtain b c where "InTemplateArgumentList cl linenum (int (length (grp m 1))) = Inr b"
      "ClassInfo (next_oid ns) (grp m 3) (grp m 2) cl linenum = Inr c"
    using InTemplateArgumentList_total [of cl linenum] ClassInfo_total [OF assms] assms
    by (meson in_file_def of_nat_0_le_iff)
  with Some show ?thesis by (simp add: consume_class_def)
qed (simp add: consume_class_def)

lemma check_begin_total: "in_file cl linenum \<Longrightarrow> \<exists>ns'. check_begin cl linenum ns = Inr ns'"
  by (auto simp: check_begin_def CheckBegin_def split: list.split block_kind.split)

context reporter
begin

lemma check_disallow_safe:
  "(\<And>i. i \<in> set is \<Longrightarrow> in_file cl i) \<Longrightarrow> safe_unit I (check_disallow error filename cl name seen is)"
proof (induction "is" arbitrary: seen)
  case (Cons i "is")
  then have "in_file cl i" by simp
  with Cons show ?case by (auto intro!: safe_intros split: option.split)
qed (simp add: safe_intros)

lemma CheckEnd_safe:
  assumes "in_file cl linenum" "0 \<le> starting_linenum b"
  shows "safe_unit I (CheckEnd error filename cl linenum b)"
proof (cases "kind b")
  case (ClassKind ci)
  have "safe_unit I (check_disallow error filename cl (class_name ci) False (rev [starting_linenum b + 1..linenum - 1]))"
    using assms by (intro check_disallow_safe) (auto simp: in_file_def)
  with ClassKind assms(1) show ?thesis
    by (auto simp: CheckEnd_def class_CheckEnd_def intro!: safe_intros split: option.split)
next
  case (NamespaceKind name)
  with assms(1) show ?thesis
    by (auto simp: CheckEnd_def namespace_CheckEnd_def intro!: safe_intros)
qed (simp_all add: CheckEnd_def safe_intros)

end

section \<open>The invariant of the nesting state\<close>

text \<open>All block objects, on the stack and in the saved stacks, are distinct objects, their
  identities have been handed out, and they start on a line of the file.\<close>

definition saved_blocks :: "pp_info list \<Rightarrow> block_info list" where
  "saved_blocks pps = concat (map (\<lambda>pp. stack_before_if pp @ stack_before_else pp) pps)"

definition all_blocks :: "nesting_state \<Rightarrow> block_info list" where
  "all_blocks ns = stack ns @ saved_blocks (pp_stack ns)"

definition within :: "int \<Rightarrow> int \<Rightarrow> bool" where
  "within N linenum \<longleftrightarrow> 0 \<le> linenum \<and> linenum < N"

definition blocks_ok :: "int \<Rightarrow> nat \<Rightarrow> block_info list \<Rightarrow> bool" where
  "blocks_ok N n bs \<longleftrightarrow> distinct (map oid bs) \<and> (\<forall>b \<in> set bs. oid b < n \<and> within N (starting_linenum b))"

definition ns_ok :: "int \<Rightarrow> nesting_state \<Rightarrow> bool" where
  "ns_ok N ns \<longleftrightarrow> blocks_ok N (next_oid ns) (all_blocks ns)"

lemma saved_blocks_simps [simp]:
  "saved_blocks [] = []"
  "saved_blocks (pp # pps) = stack_before_if pp @ stack_before_else pp @ saved_blocks pps"
  by (simp_all add: saved_blocks_def)

lemma ns_ok_init: "ns_ok N init_nesting_state"
  by (simp add: ns_ok_def blocks_ok_def all_blocks_def init_nesting_state_def)

lemma blocks_ok_perm: "mset (map oid bs) = mset (map oid cs) \<Longrightarrow> set bs = set cs \<Longrightarrow> blocks_ok N n bs = blocks_ok N n cs"
  unfolding blocks_ok_def by (metis mset_eq_imp_distinct_iff)

lemma blocks_ok_append_right: "blocks_ok N n (as @ bs) \<Longrightarrow> blocks_ok N n bs"
  by (simp add: blocks_ok_def)

lemma renumber_props:
  "map oid (renumber n bs) = [n..<n + length bs]"
  "b \<in> set (renumber n bs) \<Longrightarrow> \<exists>c \<in> set bs. starting_linenum b = starting_linenum c"
  by (induction bs arbitrary: n) (auto simp: upt_conv_Cons simp del: upt_Suc)

lemma length_renumber [simp]: "length (renumber n bs) = length bs"
  by (induction bs arbitrary: n) simp_all

lemma renumber_oid: "b \<in> set (renumber n bs) \<Longrightarrow> n \<le> oid b \<and> oid b < n + length bs"
  using renumber_props(1) [of n bs] by (metis (no_types) atLeastLessThan_iff image_eqI list.set_map set_upt)

text \<open>A deep copy of some of the blocks may be added anywhere.\<close>

lemma blocks_ok_copy:
  assumes "blocks_ok N n cs" and "set bs \<subseteq> set cs"
  shows "blocks_ok N (n + length bs) (renumber n bs @ cs)"
proof -
  have "distinct (map oid (renumber n bs))" by (simp add: renumber_props(1))
  moreover have "set (map oid (renumber n bs)) \<inter> set (map oid cs) = {}"
    using assms(1) by (auto simp: blocks_ok_def dest!: renumber_oid)
  moreover have "oid b < n + length bs \<and> within N (starting_linenum b)" if "b \<in> set (renumber n bs)" for b
    using renumber_oid [OF that] renumber_props(2) [OF that] assms by (auto simp: blocks_ok_def)
  ultimately show ?thesis using assms(1) by (auto simp: blocks_ok_def)
qed

lemma blocks_ok_sub:
  "blocks_ok N n (as @ bs @ cs) \<Longrightarrow> blocks_ok N n (as @ cs)" "blocks_ok N n (as @ bs) \<Longrightarrow> blocks_ok N n as"
  by (auto simp: blocks_ok_def)

lemma UpdatePreprocessor_if:
  assumes "ns_ok N ns" "(copied, ns') = deepcopy (stack ns) ns"
  shows "ns_ok N (ns'\<lparr>pp_stack := \<lparr>stack_before_if = copied, stack_before_else = [], seen_else = False\<rparr> # pp_stack ns'\<rparr>)"
proof -
  have "blocks_ok N (next_oid ns + length (stack ns)) (renumber (next_oid ns) (stack ns) @ all_blocks ns)"
    using assms(1) by (intro blocks_ok_copy) (auto simp: ns_ok_def all_blocks_def)
  then have "blocks_ok N (next_oid ns + length (stack ns))
      (stack ns @ renumber (next_oid ns) (stack ns) @ saved_blocks (pp_stack ns))"
    by (rule blocks_ok_perm [THEN iffD1, rotated -1]) (auto simp: all_blocks_def ac_simps)
  with assms(2) show ?thesis by (simp add: deepcopy_def ns_ok_def all_blocks_def)
qed

lemma UpdatePreprocessor_ok: "ns_ok N ns \<Longrightarrow> ns_ok N (UpdatePreprocessor line ns)"
proof -
  assume ok: "ns_ok N ns"
  let ?n = "next_oid ns" and ?st = "stack ns"
  have else_first: "ns_ok N (ns\<lparr>next_oid := ?n + length ?st + length (stack_before_if pp),
      pp_stack := pp\<lparr>seen_else := True, stack_before_else := renumber ?n ?st\<rparr> # pps,
      stack := renumber (?n + length ?st) (stack_before_if pp)\<rparr>)" if pp: "pp_stack ns = pp # pps" for pp pps
  proof -
    have "blocks_ok N (?n + length ?st) (renumber ?n ?st @ all_blocks ns)"
      using ok by (intro blocks_ok_copy) (auto simp: ns_ok_def all_blocks_def)
    then have "blocks_ok N (?n + length ?st + length (stack_before_if pp))
        (renumber (?n + length ?st) (stack_before_if pp) @ renumber ?n ?st @ all_blocks ns)"
      by (rule blocks_ok_copy) (auto simp: all_blocks_def pp)
    then have "blocks_ok N (?n + length ?st + length (stack_before_if pp))
        ((renumber (?n + length ?st) (stack_before_if pp) @ stack_before_if pp @ renumber ?n ?st @ saved_blocks pps)
          @ ?st @ stack_before_else pp)"
      by (rule blocks_ok_perm [THEN iffD1, rotated -1]) (auto simp: all_blocks_def pp ac_simps)
    from blocks_ok_sub(2) [OF this] show ?thesis by (simp add: ns_ok_def all_blocks_def)
  qed
  have else_later: "ns_ok N (ns\<lparr>next_oid := ?n + length (stack_before_if pp), pp_stack := pp # pps,
      stack := renumber ?n (stack_before_if pp)\<rparr>)" if pp: "pp_stack ns = pp # pps" for pp pps
  proof -
    have "blocks_ok N (?n + length (stack_before_if pp)) (renumber ?n (stack_before_if pp) @ all_blocks ns)"
      using ok by (intro blocks_ok_copy) (auto simp: ns_ok_def all_blocks_def pp)
    then show ?thesis by (auto simp: ns_ok_def all_blocks_def pp dest: blocks_ok_sub(1))
  qed
  have endif: "ns_ok N (ns\<lparr>stack := stack_before_else pp, pp_stack := pps\<rparr>)" "ns_ok N (ns\<lparr>pp_stack := pps\<rparr>)"
    if pp: "pp_stack ns = pp # pps" for pp pps
    using ok by (auto simp: ns_ok_def all_blocks_def pp blocks_ok_def)
  show ?thesis
    using ok UpdatePreprocessor_if [OF ok] else_first else_later endif
    by (simp add: UpdatePreprocessor_def deepcopy_def Let_def split: list.split)
qed

lemma blocks_ok_Cons:
  "blocks_ok N n bs \<Longrightarrow> oid b = n \<Longrightarrow> within N (starting_linenum b) \<Longrightarrow> blocks_ok N (Suc n) (b # bs)"
  by (auto simp: blocks_ok_def less_Suc_eq)

lemma push_ok:
  "ns_ok N ns \<Longrightarrow> oid b = next_oid ns \<Longrightarrow> within N (starting_linenum b) \<Longrightarrow> ns_ok N (push b ns)"
  using blocks_ok_Cons [of N "next_oid ns" "all_blocks ns" b] by (simp add: ns_ok_def all_blocks_def push_def)

lemma pop_ok: "ns_ok N ns \<Longrightarrow> ns_ok N (pop ns)"
  by (cases "stack ns") (auto simp: ns_ok_def all_blocks_def blocks_ok_def pop_def)

lemma replace_top_ok:
  "ns_ok N ns \<Longrightarrow> stack ns = b # bs \<Longrightarrow> oid b' = oid b \<Longrightarrow> starting_linenum b' = starting_linenum b \<Longrightarrow>
    ns_ok N (ns\<lparr>stack := b' # bs\<rparr>)"
  by (auto simp: ns_ok_def all_blocks_def blocks_ok_def)

lemma update_top_ok:
  "ns_ok N ns \<Longrightarrow> (\<And>b. oid (f b) = oid b \<and> starting_linenum (f b) = starting_linenum b) \<Longrightarrow> ns_ok N (update_top f ns)"
  by (auto simp: update_top_def intro: replace_top_ok split: list.split)

lemma count_parentheses_same:
  "oid (count_parentheses line b) = oid b" "starting_linenum (count_parentheses line b) = starting_linenum b"
  by (simp_all add: count_parentheses_def Let_def)

lemma block_simps [simp]:
  "oid (BlockInfo i l seen) = i" "starting_linenum (BlockInfo i l seen) = l"
  "oid (NamespaceInfo i name l) = i" "starting_linenum (NamespaceInfo i name l) = l"
  "oid (ExternCInfo i l) = i" "starting_linenum (ExternCInfo i l) = l"
  by (simp_all add: BlockInfo_def NamespaceInfo_def ExternCInfo_def)

lemma consume_namespaces_ok:
  "ns_ok N ns \<Longrightarrow> within N linenum \<Longrightarrow> ns_ok N (snd (consume_namespaces linenum line ns))"
proof (induction linenum line ns rule: consume_namespaces.induct)
  case (1 linenum line ns)
  then show ?case
    by (subst consume_namespaces.simps) (auto simp: Let_def push_ok split: option.split)
qed

lemma consume_class_ok:
  assumes "ns_ok N ns" "within N linenum" "consume_class cl linenum line ns = Inr (line', ns')"
  shows "ns_ok N ns'"
proof -
  have "oid b = i \<and> starting_linenum b = linenum" if "ClassInfo i name cs cl linenum = Inr b" for i name cs b
    using that by (auto simp: ClassInfo_def bind_r_eq_Inr)
  with assms show ?thesis
    by (auto simp: consume_class_def bind_r_eq_Inr intro!: push_ok split: option.splits if_splits)
qed

lemma check_begin_ok: "ns_ok N ns \<Longrightarrow> check_begin cl linenum ns = Inr ns' \<Longrightarrow> ns_ok N ns'"
  by (auto simp: check_begin_def CheckBegin_def bind_r_eq_Inr intro!: replace_top_ok
      split: list.splits if_splits block_kind.splits)

lemma open_brace_ok: "ns_ok N ns \<Longrightarrow> within N linenum \<Longrightarrow> ns_ok N (open_brace linenum line ns)"
  by (auto simp: open_brace_def Let_def intro!: push_ok update_top_ok)

lemma stack_top_line: "ns_ok N ns \<Longrightarrow> stack ns = b # bs \<Longrightarrow> 0 \<le> starting_linenum b"
  by (simp add: ns_ok_def all_blocks_def blocks_ok_def within_def)

context reporter
begin

lemma update_access_safe:
  assumes "ns_ok N ns"
  shows "safe I (ns_ok N) (update_access error filename linenum line ns)"
proof (cases "\<exists>b bs ci m. stack ns = b # bs \<and> kind b = ClassKind ci \<and> Match ACCESS_PATTERN line = Some m")
  case True
  then obtain b bs ci m where "stack ns = b # bs" "kind b = ClassKind ci" "Match ACCESS_PATTERN line = Some m" by blast
  with replace_top_ok [OF assms] show ?thesis
    by (auto simp: update_access_def Let_def intro!: safe_intros)
next
  case False
  then show ?thesis using assms
    by (auto simp: update_access_def intro!: safe_intros split: list.split block_kind.split option.split)
qed

lemma brace_token_safe:
  assumes "ns_ok N ns" "in_file cl linenum" "N = num_lines cl"
  shows "safe I (ns_ok N) (brace_token error filename cl linenum line token ns)"
proof -
  have l: "within N linenum" using assms(2,3) by (simp add: in_file_def within_def)
  show ?thesis unfolding brace_token_def
    by (intro safe_intros CheckEnd_safe) (use assms l in \<open>auto intro: open_brace_ok pop_ok stack_top_line\<close>)
qed

lemma consume_braces_safe:
  "ns_ok N ns \<Longrightarrow> in_file cl linenum \<Longrightarrow> N = num_lines cl \<Longrightarrow> safe I (ns_ok N) (consume_braces error filename cl linenum line ns)"
proof (induction "length line" arbitrary: line ns rule: less_induct)
  case less
  show ?case
  proof (cases "Match NEXT_BRACE line")
    case (Some m)
    have "safe I (ns_ok N) (andthen (brace_token error filename cl linenum line (grp m 1) ns)
        (\<lambda>ns'. consume_braces error filename cl linenum (grp m 2) ns'))"
      by (rule safe_andthen [OF brace_token_safe]) (use less next_brace_shrinks [OF Some] in auto)
    with Some show ?thesis by (subst consume_braces.simps) simp
  qed (use less in \<open>subst consume_braces.simps, simp add: safe_intros\<close>)
qed

lemma Update_safe:
  assumes "ns_ok N ns" "in_file cl linenum" "N = num_lines cl"
  shows "safe I (ns_ok N) (Update filename cl linenum error ns)"
proof -
  have l: "within N linenum" using assms(2,3) by (simp add: in_file_def within_def)
  let ?line = "elided cl ! nat linenum"
  define ns1 where "ns1 = update_top (count_parentheses ?line) (UpdatePreprocessor ?line
      (ns\<lparr>previous_stack_top := (case stack ns of [] \<Rightarrow> None | b # _ \<Rightarrow> Some b)\<rparr>))"
  have "ns_ok N (ns\<lparr>previous_stack_top := t\<rparr>)" for t using assms(1) by (simp add: ns_ok_def all_blocks_def)
  then have "ns_ok N ns1"
    unfolding ns1_def by (intro update_top_ok UpdatePreprocessor_ok) (simp_all add: count_parentheses_same)
  obtain line2 ns2 where two: "consume_namespaces linenum ?line ns1 = (line2, ns2)" by fastforce
  with consume_namespaces_ok [OF \<open>ns_ok N ns1\<close> l, of ?line] have "ns_ok N ns2" by simp
  obtain line3 ns3 where three: "consume_class cl linenum line2 ns2 = Inr (line3, ns3)"
    using consume_class_total [OF assms(2), of line2 ns2] by auto
  with consume_class_ok [OF \<open>ns_ok N ns2\<close> l] have "ns_ok N ns3" by blast
  obtain ns4 where four: "check_begin cl linenum ns3 = Inr ns4"
    using check_begin_total [OF assms(2)] by blast
  with check_begin_ok [OF \<open>ns_ok N ns3\<close>] have "ns_ok N ns4" by blast
  have "Update filename cl linenum error ns =
      andthen (update_access error filename linenum line3 ns4) (\<lambda>ns. consume_braces error filename cl linenum line3 ns)"
    using two three four assms(2) by (simp add: Update_def Let_def ns1_def [symmetric])
  moreover have "safe I (ns_ok N) (andthen (update_access error filename linenum line3 ns4)
      (\<lambda>ns. consume_braces error filename cl linenum line3 ns))"
    by (rule safe_andthen [OF update_access_safe [OF \<open>ns_ok N ns4\<close>]]) (rule consume_braces_safe [OF _ assms(2,3)])
  ultimately show ?thesis by (simp only:)
qed

end

section \<open>Directives\<close>

definition asp :: "char \<Rightarrow> bool" where
  "asp = in_set False [(CHR '' '', CHR '' ''), (tab, cr)]"

definition directive :: "string \<Rightarrow> string" where
  "directive line = dropWhile asp (tl (dropWhile asp line))"

lemma asp_chars: "\<not> asp (CHR ''#'')" "\<not> asp (CHR ''e'')" "\<not> asp (CHR ''i'')"
  by code_simp+

lemma directive_word:
  assumes "line = u @ CHR ''#'' # v @ w" "list_all asp u" "list_all asp v" "w \<noteq> []" "\<not> asp (hd w)"
  shows "directive line = w"
  using assms asp_chars(1)
  by (cases w) (auto simp: directive_def list_all_iff dropWhile_append)

abbreviation spaces_regex :: regex where
  "spaces_regex \<equiv> RRep True 0 None (RSet False [(CHR '' '', CHR '' ''), (tab, cr)])"

lemma directive_match:
  assumes "compiled p = RSeq RBol (RSeq spaces_regex (RSeq (RChar CHR ''#'') (RSeq spaces_regex r)))"
    and "matches p line" and first: "\<And>b w st. st \<in> set (ml r (MSt b w [])) \<Longrightarrow> prefix pre w"
    and pre: "pre \<noteq> []" "\<not> asp (hd pre)"
  shows "prefix pre (directive line)"
proof -
  from assms(2) obtain m where "Match p line = Some m" by auto
  then obtain st where "st \<in> set (ml (compiled p) (MSt [] line []))" by (elim Match_Some)
  then obtain u v w b where line: "line = u @ CHR ''#'' # v @ w" "list_all asp u" "list_all asp v"
    and "st \<in> set (ml r (MSt b w []))"
    unfolding assms(1) seq_mem asp_def by auto
  from first [OF this(4)] pre have "w \<noteq> [] \<and> \<not> asp (hd w)" "prefix pre w"
    by (auto simp: prefix_def)
  with directive_word [OF line] show ?thesis by simp
qed

lemma pp_if_directive: "matches PP_IF line \<Longrightarrow> prefix ''i'' (directive line)"
proof (rule directive_match)
  show "compiled PP_IF = RSeq RBol (RSeq spaces_regex (RSeq (RChar CHR ''#'') (RSeq spaces_regex
       (RSeq (RGroup 1 (RAlt (RSeq (RChar CHR ''i'') (RChar CHR ''f''))
         (RAlt (RSeq (RChar CHR ''i'') (RSeq (RChar CHR ''f'') (RSeq (RChar CHR ''d'') (RSeq (RChar CHR ''e'') (RChar CHR ''f'')))))
           (RSeq (RChar CHR ''i'') (RSeq (RChar CHR ''f'') (RSeq (RChar CHR ''n'') (RSeq (RChar CHR ''d'') (RSeq (RChar CHR ''e'') (RChar CHR ''f'')))))))))
        RWordB))))"
    by code_simp
qed (auto simp: step_char_Some asp_chars)

lemma pp_else_directive: "matches PP_ELSE line \<Longrightarrow> prefix ''el'' (directive line)"
proof (rule directive_match)
  show "compiled PP_ELSE = RSeq RBol (RSeq spaces_regex (RSeq (RChar CHR ''#'') (RSeq spaces_regex
       (RSeq (RGroup 1 (RAlt (RSeq (RChar CHR ''e'') (RSeq (RChar CHR ''l'') (RSeq (RChar CHR ''s'') (RChar CHR ''e''))))
         (RSeq (RChar CHR ''e'') (RSeq (RChar CHR ''l'') (RSeq (RChar CHR ''i'') (RChar CHR ''f''))))))
        RWordB))))"
    by code_simp
qed (auto simp: step_char_Some asp_chars)

lemma pp_endif_directive: "matches PP_ENDIF line \<Longrightarrow> prefix ''en'' (directive line)"
proof (rule directive_match)
  show "compiled PP_ENDIF = RSeq RBol (RSeq spaces_regex (RSeq (RChar CHR ''#'') (RSeq spaces_regex
       (RSeq (RChar CHR ''e'') (RSeq (RChar CHR ''n'') (RSeq (RChar CHR ''d'') (RSeq (RChar CHR ''i'') (RSeq (RChar CHR ''f'')
        RWordB))))))))"
    by code_simp
qed (auto simp: step_char_Some asp_chars split: if_splits)

lemma pp_exclusive:
  "matches PP_ELSE line \<Longrightarrow> Match PP_IF line = None"
  "matches PP_ENDIF line \<Longrightarrow> Match PP_IF line = None"
  "matches PP_ENDIF line \<Longrightarrow> Match PP_ELSE line = None"
  by (cases "Match PP_IF line"; cases "Match PP_ELSE line";
      use pp_if_directive [of line] pp_else_directive [of line] pp_endif_directive [of line] in \<open>force simp: prefix_def\<close>)+

section \<open>Braces\<close>

lemma next_brace_at:
  assumes "nl \<notin> set line"
  shows "case Match NEXT_BRACE line of
      None \<Rightarrow> set line \<inter> set ''{;)}'' = {}
    | Some m \<Rightarrow> \<exists>u c. line = u @ c # grp m 2 \<and> grp m 1 = [c] \<and> c \<in> set ''{;)}'' \<and> set u \<inter> set ''{;)}'' = {}"
proof (cases "Match NEXT_BRACE line")
  case (Some m)
  then obtain u c e where "line = u @ c # grp m 2 @ e" "grp m 1 = [c]" "c \<in> set ''{;)}''"
    "set u \<inter> set ''{;)}'' = {}" "e = [] \<or> e = [nl]" by (rule next_brace_Some)
  with assms have "line = u @ c # grp m 2 \<and> grp m 1 = [c] \<and> c \<in> set ''{;)}'' \<and> set u \<inter> set ''{;)}'' = {}"
    by (intro conjI) force+
  with Some show ?thesis by (simp only: option.case) blast
next
  case None
  let ?P = "\<lambda>c. c \<in> set ''{;)}''"
  have False if "set line \<inter> set ''{;)}'' \<noteq> {}"
  proof -
    from that split_list_first_prop [of line ?P] obtain u c v where
      uv: "line = u @ c # v" "?P c" "\<forall>d\<in>set u. \<not> ?P d" by blast
    with assms have "MSt (rev v @ c # rev u) [] [(2, Suc (length u), v), (1, length u, [c])]
        \<in> set (ml (compiled NEXT_BRACE) (MSt [] line []))"
      unfolding next_brace_compiled seq_mem
      by (auto simp: in_set_def list_all_iff intro!: exI [of _ u])
    with None show False by (auto dest: MatchI)
  qed
  with None show ?thesis by auto
qed

text \<open>Braces that match within a piece of text, at a given depth.\<close>

fun curly :: "nat \<Rightarrow> string \<Rightarrow> bool" where
  "curly d [] \<longleftrightarrow> d = 0"
| "curly d (c # cs) \<longleftrightarrow>
     (if c = CHR ''{'' then curly (Suc d) cs
      else if c = CHR ''}'' then 0 < d \<and> curly (d - 1) cs
      else curly d cs)"

lemma curly_skip: "set u \<inter> set ''{;)}'' = {} \<Longrightarrow> curly d (u @ v) = curly d v"
  by (induction u) auto

definition plain_block :: "block_info \<Rightarrow> bool" where
  "plain_block b \<longleftrightarrow> seen_open_brace b \<and> (kind b = BlockKind \<or> kind b = ExternCKind)"

lemma CheckEnd_plain: "plain_block b \<Longrightarrow> CheckEnd error filename cl linenum b = pass"
  by (auto simp: plain_block_def CheckEnd_def)

lemma open_brace_seen:
  "SeenOpenBrace ns \<Longrightarrow> \<exists>b. plain_block b \<and> open_brace linenum line ns = push b ns"
proof -
  have "plain_block (ExternCInfo (next_oid ns) linenum)" "plain_block (BlockInfo (next_oid ns) linenum True)"
    "plain_block ((BlockInfo (next_oid ns) linenum True)\<lparr>inline_asm := BLOCK_ASM\<rparr>)"
    by (simp_all add: plain_block_def ExternCInfo_def BlockInfo_def)
  then show "SeenOpenBrace ns \<Longrightarrow> \<exists>b. plain_block b \<and> open_brace linenum line ns = push b ns"
    by (simp add: open_brace_def Let_def) blast
qed

lemma consume_braces_curly:
  assumes "nl \<notin> set line" "curly (length ps) line" "list_all plain_block ps" "SeenOpenBrace (ns\<lparr>stack := base\<rparr>)"
    and "stack ns = ps @ base"
  shows "\<exists>n. consume_braces error filename cl linenum line ns s = Inr (ns\<lparr>stack := base, next_oid := n\<rparr>, s)"
  using assms
proof (induction "length line" arbitrary: line ns ps rule: less_induct)
  case less
  note at = next_brace_at [OF less.prems(1)]
  have seen: "SeenOpenBrace ns" using less.prems(3-5) by (cases ps) (simp_all add: SeenOpenBrace_def plain_block_def)
  show ?case
  proof (cases "Match NEXT_BRACE line")
    case None
    with at have "curly d line = curly d []" for d using curly_skip [of line d "[]"] by simp
    with less.prems(2,5) have "stack ns = base" by simp
    then have "ns\<lparr>stack := base, next_oid := next_oid ns\<rparr> = ns" by simp
    moreover have "consume_braces error filename cl linenum line ns = ret ns"
      using None by (subst consume_braces.simps) simp
    ultimately show ?thesis by (intro exI [of _ "next_oid ns"]) (simp add: ret_def)
  next
    case (Some m)
    with at obtain u c where u: "line = u @ c # grp m 2" "grp m 1 = [c]" "c \<in> set ''{;)}''" "set u \<inter> set ''{;)}'' = {}"
      by auto
    with less.prems(1,2) have rest: "length (grp m 2) < length line" "nl \<notin> set (grp m 2)"
      and cur: "curly (length ps) (c # grp m 2)" by (auto simp: curly_skip)
    have run: "consume_braces error filename cl linenum line ns =
        andthen (brace_token error filename cl linenum line [c] ns)
          (\<lambda>ns'. consume_braces error filename cl linenum (grp m 2) ns')"
      using Some u(2) by (subst consume_braces.simps) simp
    note IH = less.hyps [OF rest]
    consider "c = CHR ''{''" | "c = CHR ''}''" | "c = CHR '';'' \<or> c = CHR '')''" using u(3) by auto
    then show ?thesis
    proof cases
      case 1
      from open_brace_seen [OF seen] obtain b where b: "plain_block b" "open_brace linenum line ns = push b ns" by blast
      with 1 cur less.prems IH [of "b # ps" "push b ns"] run show ?thesis
        by (simp add: brace_token_def push_def SeenOpenBrace_def)
    next
      case 2
      with cur obtain b ps' where ps: "ps = b # ps'" by (cases ps) auto
      with 2 cur less.prems IH [of ps' "pop ns"] run CheckEnd_plain [of b] show ?thesis
        by (simp add: brace_token_def pop_def SeenOpenBrace_def)
    next
      case 3
      with cur less.prems IH [of ps ns] run seen show ?thesis by (auto simp: brace_token_def)
    qed
  qed
qed

section \<open>Properties\<close>

text \<open>The nesting states the program goes through, line by line, with the module state.\<close>

inductive parsed :: "string \<Rightarrow> cleansed_lines \<Rightarrow> lint \<Rightarrow> int \<Rightarrow> nesting_state \<Rightarrow> lint \<Rightarrow> bool"
  for filename cl s0 where
  parsed_init: "parsed filename cl s0 0 init_nesting_state s0"
| parsed_line: "parsed filename cl s0 n ns s \<Longrightarrow> n < NumLines cl \<Longrightarrow>
    Update filename cl n Error ns s = Inr (ns', s') \<Longrightarrow> parsed filename cl s0 (n + 1) ns' s'"

lemma parsed_ok:
  "parsed filename cl s0 n ns s \<Longrightarrow> cl_ok cl \<Longrightarrow> lint_ok s0 \<Longrightarrow> 0 \<le> n \<and> ns_ok (num_lines cl) ns \<and> lint_ok s"
proof (induction rule: parsed.induct)
  case (parsed_line n ns s ns' s')
  then have ok: "0 \<le> n" "ns_ok (num_lines cl) ns" "lint_ok s" by simp_all
  with parsed_line have "in_file cl n" by (simp add: in_file_def NumLines_def)
  from safeD [OF ok_reporter.Update_safe [OF ok(2) this refl] ok(3), of filename] parsed_line.hyps(3) ok(1)
  show ?case by auto
qed (simp add: ns_ok_init)

text \<open>C12: the brace parser gets through every file: in every state it reaches after any number of lines,
  the update with the next line returns normally, and in every such state the blocks on the stack and
  in the stacks saved at preprocessor conditions are distinct objects that start on a line of the file,
  so that no saved stack is ever changed through the current one.\<close>

theorem Update_total_reachable:
  assumes "CleansedLines ls = Inr cl" and "lint_ok s0" and "parsed filename cl s0 n ns s" and "n < NumLines cl"
  shows "ns_ok (num_lines cl) ns \<and> (\<exists>ns' s'. Update filename cl n Error ns s = Inr (ns', s') \<and> ns_ok (num_lines cl) ns' \<and> lint_ok s')"
proof -
  from CleansedLines_ok [of ls] assms(1) have "cl_ok cl" by auto
  with parsed_ok [OF assms(3)] assms(2) have ok: "0 \<le> n" "ns_ok (num_lines cl) ns" "lint_ok s" by auto
  with \<open>cl_ok cl\<close> assms(4) have "in_file cl n" by (simp add: in_file_def NumLines_def)
  from safeD [OF ok_reporter.Update_safe [OF ok(2) this refl] ok(3)] ok(2) show ?thesis by blast
qed

theorem Update_total_reachable_witness:
  "\<exists>cl. CleansedLines [''class A {'', ''};''] = Inr cl
     \<and> (\<exists>ns' s'. Update ''a.h'' cl 0 Error init_nesting_state init_lint = Inr (ns', s') \<and> ns_ok (num_lines cl) ns' \<and> lint_ok s')"
proof -
  from CleansedLines_aligned [of "[''class A {'', ''};'']"] obtain cl where
    cl: "CleansedLines [''class A {'', ''};''] = Inr cl" "NumLines cl = 2" by auto
  have "lint_ok init_lint"
    by (simp add: lint_ok_def counts_ok_def init_lint_def init_cpplint_state_def default_filters_signed)
  from Update_total_reachable [OF cl(1) this parsed_init] cl show ?thesis by auto
qed

text \<open>Blocks that are equal but for the identity of the objects.\<close>

definition same_blocks :: "block_info list \<Rightarrow> block_info list \<Rightarrow> bool" where
  "same_blocks bs cs \<longleftrightarrow> map (\<lambda>b. b\<lparr>oid := 0\<rparr>) bs = map (\<lambda>b. b\<lparr>oid := 0\<rparr>) cs"

lemma same_blocks_renumber: "same_blocks (renumber n bs) cs = same_blocks bs cs"
proof -
  have "map (\<lambda>b. b\<lparr>oid := 0\<rparr>) (renumber n bs) = map (\<lambda>b. b\<lparr>oid := 0\<rparr>) bs"
    by (induction bs arbitrary: n) simp_all
  then show ?thesis by (simp add: same_blocks_def)
qed

text \<open>C15: preprocessor conditions are transparent to the nesting as the comment of \<open>UpdatePreprocessor\<close> says:
  at \<open>#else\<close> or \<open>#elif\<close> the stack is again what it was at \<open>#if\<close>, and after \<open>#endif\<close> it is what it was at the
  end of the first branch, whatever the other branch did to it; the stack of open conditions is
  back where it was.\<close>

theorem preprocessor_branches:
  assumes "matches PP_IF l1" and "matches PP_ELSE l2" and "matches PP_ENDIF l3"
    and "pp_stack first_branch = pp_stack (UpdatePreprocessor l1 ns)"
    and "pp_stack second_branch = pp_stack (UpdatePreprocessor l2 first_branch)"
  shows "same_blocks (stack (UpdatePreprocessor l2 first_branch)) (stack ns)
    \<and> same_blocks (stack (UpdatePreprocessor l3 second_branch)) (stack first_branch)
    \<and> pp_stack (UpdatePreprocessor l3 second_branch) = pp_stack ns"
  using assms pp_exclusive [of l2] pp_exclusive [of l3]
  by (simp add: UpdatePreprocessor_def deepcopy_def Let_def same_blocks_renumber)
    (auto simp: same_blocks_def)

theorem preprocessor_branches_witness:
  "let first_branch = UpdatePreprocessor ''#ifdef A'' init_nesting_state;
       second_branch = UpdatePreprocessor ''#else'' first_branch
   in same_blocks (stack (UpdatePreprocessor ''#else'' first_branch)) []
    \<and> same_blocks (stack (UpdatePreprocessor ''#endif'' second_branch)) (stack first_branch)
    \<and> pp_stack (UpdatePreprocessor ''#endif'' second_branch) = []"
proof -
  have "matches PP_IF ''#ifdef A''" "matches PP_ELSE ''#else''" "matches PP_ENDIF ''#endif''"
    by (simp_all only: not_None_eq, (rule exI, code_simp)+)
  from preprocessor_branches [OF this refl refl, of init_nesting_state]
  show ?thesis by (simp add: Let_def init_nesting_state_def)
qed

text \<open>C14: a piece of code in which the braces match leaves the stack of blocks exactly as it was, and reports
  nothing, when the innermost block has its opening brace: only the blocks it opened itself are
  closed.\<close>

theorem balanced_braces_keep_stack:
  assumes "SeenOpenBrace ns" and "nl \<notin> set line" and "curly 0 line"
  shows "\<exists>n. consume_braces error filename cl linenum line ns s = Inr (ns\<lparr>next_oid := n\<rparr>, s)"
  using consume_braces_curly [where line = line and ps = "[]" and ns = ns and base = "stack ns"] assms by simp

theorem balanced_braces_keep_stack_witness:
  "\<exists>n. consume_braces Error ''a.cc'' example_lines 0 ''if (a) { b; } else { }'' init_nesting_state init_lint =
     Inr (init_nesting_state\<lparr>next_oid := n\<rparr>, init_lint)"
  by (rule balanced_braces_keep_stack) (simp_all add: SeenOpenBrace_def init_nesting_state_def)

end
