(* ===== verification/Function_State.thy ===== *)
theory Function_State
  imports Lint_State
begin

text \<open>
  The class \<open>_FunctionState\<close>, which counts the lines of the current function body and reports
  functions that are too long.  The trigger is \<open>base * 2**verbosity\<close>; for a negative verbosity Python
  computes it as a fraction, which the model compares after multiplying out.  The confidence is the
  binary logarithm of the integer quotient \<open>lines / base\<close>, cut off at 5; \<open>math.log\<close> raises on 0.
\<close>

record function_state =
  in_a_function :: bool
  lines_in_function :: int
  current_function :: string

definition init_function_state :: function_state where
  "init_function_state = \<lparr>in_a_function = False, lines_in_function = 0, current_function = []\<rparr>"

definition NORMAL_TRIGGER :: int where "NORMAL_TRIGGER = 250"
definition TEST_TRIGGER :: int where "TEST_TRIGGER = 400"

definition Begin :: "string \<Rightarrow> function_state \<Rightarrow> function_state" where
  "Begin function_name fs =
     fs\<lparr>in_a_function := True, lines_in_function := 0, current_function := function_name\<rparr>"

definition Count :: "function_state \<Rightarrow> function_state" where
  "Count fs = (if in_a_function fs then fs\<lparr>lines_in_function := lines_in_function fs + 1\<rparr> else fs)"

definition End :: "function_state \<Rightarrow> function_state" where
  "End fs = fs\<lparr>in_a_function := False\<rparr>"

text \<open>\<open>int(math.log(q, 2))\<close> for \<open>q \<ge> 1\<close>; the floating-point result is exact where it matters,
  that is below the cut-off.\<close>

fun ilog2 :: "nat \<Rightarrow> nat" where
  "ilog2 n = (if n \<le> 1 then 0 else Suc (ilog2 (n div 2)))"

declare ilog2.simps [simp del]

definition base_trigger :: "string \<Rightarrow> int" where
  "base_trigger fn = (if matches ''T(EST|est)'' fn then TEST_TRIGGER else NORMAL_TRIGGER)"

definition over_trigger :: "int \<Rightarrow> int \<Rightarrow> int \<Rightarrow> bool" where
  "over_trigger lines base v =
     (if 0 \<le> v then base * 2 ^ nat v < lines else base < lines * 2 ^ nat (- v))"

definition trigger_shown :: "int \<Rightarrow> int \<Rightarrow> int" where
  "trigger_shown base v = (if 0 \<le> v then base * 2 ^ nat v else base div 2 ^ nat (- v))"

definition error_level :: "int \<Rightarrow> int \<Rightarrow> int result" where
  "error_level lines base =
     (let q = lines div base
      in if q \<le> 0 then Inl (ValueError ''math domain error'')
         else Inr (min 5 (int (ilog2 (nat q)))))"

definition Check :: "error_fn \<Rightarrow> string \<Rightarrow> int \<Rightarrow> function_state \<Rightarrow> (lint, unit) py" where
  "Check error filename linenum fs =
     (if \<not> in_a_function fs then pass
      else andthen (gets (\<lambda>s. verbose_level (state s))) (\<lambda>v.
        let base = base_trigger (current_function fs)
        in do_when (over_trigger (lines_in_function fs) base v)
             (let_r (error_level (lines_in_function fs) base) (\<lambda>level.
               error filename linenum ''readability/fn_size'' level
                 (msg_of [''Small and focused functions are preferred: '', current_function fs, '' has '',
                    show_int (lines_in_function fs), '' non-comment lines (error triggered by exceeding '',
                    show_int (trigger_shown base v), '' lines).''])))))"

section \<open>The confidence of a report\<close>

lemma ilog2_ge: "2 ^ k \<le> n \<Longrightarrow> k \<le> ilog2 n"
proof (induction k arbitrary: n)
  case (Suc k)
  then have "2 ^ k \<le> n div 2" by simp
  with Suc.IH have "k \<le> ilog2 (n div 2)" .
  moreover have "(2 :: nat) \<le> 2 ^ Suc k" by simp
  with Suc.prems have "\<not> n \<le> 1" by linarith
  ultimately show ?case using ilog2.simps [of n] by simp
qed simp

lemma base_trigger_pos: "0 < base_trigger fn"
  by (simp add: base_trigger_def TEST_TRIGGER_def NORMAL_TRIGGER_def)

lemma error_level_over:
  assumes "over_trigger lines base v" and "0 \<le> v" and "0 < base"
  shows "\<exists>level. error_level lines base = Inr level \<and> min 5 v \<le> level \<and> 0 \<le> level \<and> level \<le> 5"
proof -
  from assms have "base * 2 ^ nat v < lines"
    by (simp add: over_trigger_def)
  then have "(base * 2 ^ nat v) div base \<le> lines div base"
    using assms(3) by (intro zdiv_mono1) simp_all
  then have q: "2 ^ nat v \<le> lines div base"
    using assms(3) by simp
  then have "0 < lines div base"
    by (rule less_le_trans [rotated]) simp
  moreover have "2 ^ nat v \<le> nat (lines div base)"
    using q by (simp add: nat_le_iff le_nat_iff)
  then have "nat v \<le> ilog2 (nat (lines div base))"
    by (rule ilog2_ge)
  ultimately show ?thesis
    using assms(2) by (auto simp: error_level_def Let_def min_def)
qed

lemma error_level_bounds: "error_level n b = Inr level \<Longrightarrow> 0 \<le> level \<and> level \<le> 5"
  by (auto simp: error_level_def Let_def split: if_splits)

lemma Check_keeps [keeps_intros]:
  assumes "\<And>l c msg. 0 \<le> c \<Longrightarrow> c \<le> 5 \<Longrightarrow> keeps I (error filename l ''readability/fn_size'' c msg)"
  shows "keeps I (Check error filename linenum fs)"
  unfolding Check_def Let_def
  by (intro keeps_intros assms) (simp_all add: error_level_bounds)

section \<open>Properties\<close>

text \<open>C32: a function body over the trigger is always reported, with a confidence between 0 and 5 that
  is at least the verbosity (where that is at most 5), so that the verbosity level can never hide
  the report; a body that is not over the trigger is never reported.\<close>

theorem Check_reports_long_functions:
  assumes "0 \<le> verbose_level (state s)" and "in_a_function fs"
  shows "if base_trigger (current_function fs) * 2 ^ nat (verbose_level (state s)) < lines_in_function fs
    then (\<exists>level msg. min 5 (verbose_level (state s)) \<le> level \<and> 0 \<le> level \<and> level \<le> 5
       \<and> Check error filename linenum fs s = error filename linenum ''readability/fn_size'' level msg s)
    else Check error filename linenum fs s = Inr ((), s)"
proof -
  let ?v = "verbose_level (state s)" and ?base = "base_trigger (current_function fs)"
  have over: "over_trigger (lines_in_function fs) ?base ?v \<longleftrightarrow> ?base * 2 ^ nat ?v < lines_in_function fs"
    using assms(1) by (simp add: over_trigger_def)
  show ?thesis
  proof (cases "over_trigger (lines_in_function fs) ?base ?v")
    case True
    from error_level_over [OF this assms(1) base_trigger_pos] obtain level where
      level: "error_level (lines_in_function fs) ?base = Inr level"
        "min 5 ?v \<le> level \<and> 0 \<le> level \<and> level \<le> 5" by blast
    then have "\<exists>msg. Check error filename linenum fs s = error filename linenum ''readability/fn_size'' level msg s"
      using True assms(2) by (simp add: Check_def Let_def andthen_def gets_def) blast
    with True over level(2) show ?thesis by auto
  next
    case False
    with over assms(2) show ?thesis
      by (simp add: Check_def Let_def py_defs)
  qed
qed

theorem Check_reports_long_functions_witness:
  "\<exists>level msg. min 5 (verbose_level (state init_lint)) \<le> level \<and> 0 \<le> level \<and> level \<le> 5
     \<and> Check Error ''a.cc'' 900 \<lparr>in_a_function = True, lines_in_function = 1300, current_function = ''Foo()''\<rparr> init_lint =
       Error ''a.cc'' 900 ''readability/fn_size'' level msg init_lint"
proof -
  have "base_trigger ''Foo()'' = 250"
    by code_simp
  with Check_reports_long_functions
    [of init_lint "\<lparr>in_a_function = True, lines_in_function = 1300, current_function = ''Foo()''\<rparr>" Error "''a.cc''" 900]
  show ?thesis
    by (simp add: init_lint_def init_cpplint_state_def)
qed

end
