(* ===== verification/File_Info.thy ===== *)
theory File_Info
  imports Lint_State
begin

text \<open>
  File names: the functions of \<open>os.path\<close> (POSIX) that the program calls, and the class \<open>FileInfo\<close>.
  What the operating system answers is a parameter, the record \<open>os_env\<close>: the working directory and
  which paths exist.  One loop of \<open>RepositoryName\<close> need not end; it is a partial function whose value
  \<open>None\<close> means that it never returns, and the operations built on it then have the outcome \<open>Diverges\<close>.
\<close>

record os_env =
  cwd :: string
  exists :: "string \<Rightarrow> bool"

section \<open>os.path\<close>

abbreviation slash :: char where "slash \<equiv> CHR ''/''"

definition path_join :: "string \<Rightarrow> string \<Rightarrow> string" where
  "path_join a b =
     (if startswith b [slash] then b
      else if a = [] \<or> endswith a [slash] then a @ b
      else a @ [slash] @ b)"

text \<open>The part up to the last slash, without its trailing slashes unless it is all slashes.\<close>

definition head_of :: "string \<Rightarrow> string" where
  "head_of p =
     (let head = take (nat (rfind p [slash] + 1)) p
      in if head \<noteq> [] \<and> \<not> list_all (\<lambda>c. c = slash) head then rstrip_chars head [slash] else head)"

definition dirname :: "string \<Rightarrow> string" where
  "dirname p = head_of p"

definition path_split :: "string \<Rightarrow> string \<times> string" where
  "path_split p = (head_of p, drop (nat (rfind p [slash] + 1)) p)"

definition splitext :: "string \<Rightarrow> string \<times> string" where
  "splitext p =
     (let sepIndex = rfind p [slash]; dotIndex = rfind p ''.''
      in if dotIndex > sepIndex \<and> list_ex (\<lambda>c. c \<noteq> CHR ''.'') (drop (nat (sepIndex + 1)) (take (nat dotIndex) p))
         then (take (nat dotIndex) p, drop (nat dotIndex) p) else (p, []))"

fun norm_comps :: "bool \<Rightarrow> string list \<Rightarrow> string list \<Rightarrow> string list" where
  "norm_comps absolute [] acc = rev acc"
| "norm_comps absolute (part # comps) acc =
     (if part = [] \<or> part = ''.'' then norm_comps absolute comps acc
      else if part \<noteq> ''..'' \<or> (\<not> absolute \<and> acc = []) \<or> (acc \<noteq> [] \<and> hd acc = ''..'')
      then norm_comps absolute comps (part # acc)
      else norm_comps absolute comps (tl acc))"

definition initial_slashes :: "string \<Rightarrow> nat" where
  "initial_slashes path =
     (if \<not> startswith path ''/'' then 0
      else if startswith path ''//'' \<and> \<not> startswith path ''///'' then 2 else 1)"

definition normpath :: "string \<Rightarrow> string" where
  "normpath path =
     (if path = [] then ''.''
      else
        let n = initial_slashes path;
            p = replicate n slash @ join [slash] (norm_comps (n > 0) (split_str path [slash]) [])
        in if p = [] then ''.'' else p)"

definition abspath :: "os_env \<Rightarrow> string \<Rightarrow> string" where
  "abspath env path = normpath (if startswith path [slash] then path else path_join (cwd env) path)"

fun common_prefix2 :: "string \<Rightarrow> string \<Rightarrow> string" where
  "common_prefix2 (a # as) (b # bs) = (if a = b then a # common_prefix2 as bs else [])"
| "common_prefix2 _ _ = []"

section \<open>FileInfo\<close>

definition FullName :: "os_env \<Rightarrow> string \<Rightarrow> string" where
  "FullName env filename = replace_str (abspath env filename) [bslash] [slash]"

text \<open>The first loop goes up while the parent directory has a \<open>.svn\<close>.\<close>

partial_function (option) svn_root :: "(string \<Rightarrow> bool) \<Rightarrow> string \<Rightarrow> string \<Rightarrow> string option" where
  [code]: "svn_root ex root_dir one_up_dir =
     (if ex (path_join one_up_dir ''.svn'') then svn_root ex (dirname root_dir) (dirname one_up_dir)
      else Some root_dir)"

lemma rstrip_chars_prefix: "prefix (rstrip_chars s cs) s"
  by (metis rstrip_chars_def rev_rev_ident suffix_dropWhile suffix_to_prefix)

lemma dirname_prefix: "prefix (dirname p) p"
proof -
  let ?h = "take (nat (rfind p [slash] + 1)) p"
  have "prefix (rstrip_chars ?h [slash]) p"
    by (rule prefix_order.order_trans [OF rstrip_chars_prefix take_is_prefix])
  then show ?thesis by (simp add: dirname_def head_of_def Let_def take_is_prefix)
qed

lemma dirname_shorter: "p \<noteq> dirname p \<Longrightarrow> length (dirname p) < length p"
  by (metis dirname_prefix not_equal_is_parallel prefix_length_le le_neq_implies_less prefixE append_eq_conv_conj
      take_all_iff order_refl)

definition has_vcs :: "os_env \<Rightarrow> string \<Rightarrow> bool" where
  "has_vcs env d \<longleftrightarrow> exists env (path_join d ''.git'') \<or> exists env (path_join d ''.hg'')
     \<or> exists env (path_join d ''.svn'')"

text \<open>The second loop goes up to the top and remembers the highest directory under version control.\<close>

function vcs_root :: "os_env \<Rightarrow> string \<Rightarrow> string \<Rightarrow> string" where
  "vcs_root env root_dir current_dir =
     (if current_dir \<noteq> dirname current_dir
      then vcs_root env (if has_vcs env current_dir then current_dir else root_dir) (dirname current_dir)
      else root_dir)"
  by pat_completeness auto
termination
  by (relation "measure (\<lambda>(_, _, d). length d)") (auto simp: dirname_shorter)

declare vcs_root.simps [simp del]

definition strip_root :: "string \<Rightarrow> string \<Rightarrow> string \<Rightarrow> string" where
  "strip_root fullname root_dir project_dir =
     slice_from fullname (int (length (common_prefix2 root_dir project_dir)) + 1)"

definition RepositoryName :: "os_env \<Rightarrow> string \<Rightarrow> string result" where
  "RepositoryName env filename =
     (let fullname = FullName env filename in
      if exists env fullname then
        let project_dir = dirname fullname in
        if exists env (path_join project_dir ''.svn'') then
          (case svn_root (exists env) project_dir (dirname project_dir) of
             None \<Rightarrow> Inl Diverges
           | Some root_dir \<Rightarrow> Inr (strip_root fullname root_dir project_dir))
        else
          let root_dir = vcs_root env project_dir project_dir in
          if has_vcs env root_dir then Inr (strip_root fullname root_dir project_dir)
          else Inr fullname
      else Inr fullname)"

definition Split :: "os_env \<Rightarrow> string \<Rightarrow> (string \<times> string \<times> string) result" where
  "Split env filename =
     bind_r (RepositoryName env filename) (\<lambda>googlename.
       let (project, rest) = path_split googlename in Inr (project, splitext rest))"

definition BaseName :: "os_env \<Rightarrow> string \<Rightarrow> string result" where
  "BaseName env filename = bind_r (Split env filename) (\<lambda>(project, base, ext). Inr base)"

definition Extension :: "os_env \<Rightarrow> string \<Rightarrow> string result" where
  "Extension env filename = bind_r (Split env filename) (\<lambda>(project, base, ext). Inr ext)"

definition NoExtension :: "os_env \<Rightarrow> string \<Rightarrow> string result" where
  "NoExtension env filename = bind_r (Split env filename) (\<lambda>(project, base, ext). Inr (join [slash] [project, base]))"

definition IsSourceExtension :: "string \<Rightarrow> bool" where
  "IsSourceExtension s \<longleftrightarrow> s \<in> {''c'', ''cc'', ''cpp'', ''cxx''}"

definition IsSource :: "os_env \<Rightarrow> string \<Rightarrow> bool result" where
  "IsSource env filename = bind_r (Extension env filename) (\<lambda>ext. Inr (IsSourceExtension (drop 1 ext)))"

section \<open>The loop over parent directories\<close>

lemma svn_root_Some:
  assumes "\<not> ex (path_join ((dirname ^^ n) up) ''.svn'')"
  shows "\<exists>r. svn_root ex d up = Some r"
  using assms
proof (induction n arbitrary: d up)
  case 0
  then show ?case by (subst svn_root.simps) simp
next
  case (Suc n)
  then have "\<exists>r. svn_root ex (dirname d) (dirname up) = Some r"
    by (simp add: funpow_swap1)
  then show ?case by (subst svn_root.simps) simp
qed

lemma svn_root_returns:
  assumes "svn_root ex d up = Some r"
  shows "\<exists>n. \<not> ex (path_join ((dirname ^^ n) up) ''.svn'')"
proof (rule svn_root.raw_induct [where P = "\<lambda>ex d up r. \<exists>n. \<not> ex (path_join ((dirname ^^ n) up) ''.svn'')", OF _ assms])
  fix svn ex d up r
  assume IH: "\<And>ex d up r. svn ex d up = Some r \<Longrightarrow> \<exists>n. \<not> ex (path_join ((dirname ^^ n) up) ''.svn'')"
    and run: "(if ex (path_join up ''.svn'') then svn ex (dirname d) (dirname up) else Some d) = Some r"
  show "\<exists>n. \<not> ex (path_join ((dirname ^^ n) up) ''.svn'')"
  proof (cases "ex (path_join up ''.svn'')")
    case True
    with run have "svn ex (dirname d) (dirname up) = Some r" by simp
    from IH [OF this] obtain n where "\<not> ex (path_join ((dirname ^^ n) (dirname up)) ''.svn'')" by blast
    then show ?thesis by (intro exI [of _ "Suc n"]) (simp add: funpow_swap1)
  next
    case False
    then show ?thesis by (intro exI [of _ 0]) simp
  qed
qed

lemma svn_root_None: "svn_root ex d up = None \<longleftrightarrow> (\<forall>n. ex (path_join ((dirname ^^ n) up) ''.svn''))"
  using svn_root_returns [of ex d up] svn_root_Some [of ex _ up d] by (cases "svn_root ex d up") auto

lemma RepositoryName_suffix: "RepositoryName env filename = Inr name \<Longrightarrow> suffix name (FullName env filename)"
  by (auto simp: RepositoryName_def Let_def strip_root_def slice_from_def suffix_drop
      split: if_splits option.splits)

section \<open>Splitting names\<close>

lemma rfind_at_none: "c \<notin> set s \<Longrightarrow> rfind_at [c] i s = -1"
  by (induction s arbitrary: i) (auto simp: Let_def)

lemma rfind_at_last: "c \<notin> set v \<Longrightarrow> rfind_at [c] i (u @ c # v) = int i + int (length u)"
  by (induction u arbitrary: i) (auto simp: Let_def rfind_at_none)

lemma rfind_cases:
  obtains (none) "c \<notin> set s" "rfind s [c] = -1"
  | (last) u v where "s = u @ c # v" "c \<notin> set v" "rfind s [c] = int (length u)"
proof (cases "c \<in> set s")
  case True
  then obtain u v where "s = u @ c # v" "c \<notin> set v" by (meson split_list_last)
  then show ?thesis by (intro last [of u v]) (simp_all add: rfind_def rfind_at_last)
qed (auto intro: none simp: rfind_def rfind_at_none)

lemma path_split_tail: "slash \<notin> set (snd (path_split p)) \<and> suffix (snd (path_split p)) p"
  by (rule rfind_cases [of slash p]) (auto simp: path_split_def suffix_drop nat_add_distrib suffix_def)

lemma splitext_parts:
  assumes "splitext p = (b, e)"
  shows "b @ e = p \<and> (e = [] \<or> (\<exists>x. e = CHR ''.'' # x \<and> CHR ''.'' \<notin> set x))
    \<and> (e = [] \<longrightarrow> slash \<notin> set p \<longrightarrow> CHR ''.'' \<notin> set (dropWhile (\<lambda>c. c = CHR ''.'') p))"
proof (cases rule: rfind_cases [of "CHR ''.''" p])
  case none
  then have "\<not> rfind p [slash] < rfind p ''.''"
    by (cases rule: rfind_cases [of slash p]) auto
  with assms none show ?thesis by (auto simp: splitext_def Let_def dest: set_dropWhileD)
next
  case (last u v)
  have "CHR ''.'' \<notin> set (dropWhile (\<lambda>c. c = CHR ''.'') p)" if "slash \<notin> set p" "e = []"
  proof -
    from that(1) have "rfind p [slash] = -1" by (cases rule: rfind_cases [of slash p]) auto
    with assms last that(2) have "list_all (\<lambda>c. c = CHR ''.'') u"
      by (auto simp: splitext_def Let_def list_all_iff list_ex_iff split: if_splits)
    with last show ?thesis by (auto simp: list_all_iff dropWhile_append dest: set_dropWhileD)
  qed
  with assms last show ?thesis by (auto simp: splitext_def Let_def split: if_splits)
qed

lemma all_nat_split: "(\<forall>n. P n) \<longleftrightarrow> P 0 \<and> (\<forall>n. P (Suc n))"
  by (metis not0_implies_Suc)

lemma rstrip_slashes: "\<exists>k. p = rstrip_chars p [slash] @ replicate k slash"
proof -
  have "takeWhile (\<lambda>c. c = slash) q = replicate (length (takeWhile (\<lambda>c. c = slash) q)) slash" for q
    by (auto intro!: replicate_eqI dest: set_takeWhileD)
  then have "\<exists>k. q = replicate k slash @ dropWhile (\<lambda>c. c = slash) q" for q
    by (metis takeWhile_dropWhile_id)
  then obtain k where "rev p = replicate k slash @ dropWhile (\<lambda>c. c = slash) (rev p)" by blast
  then have "p = rev (dropWhile (\<lambda>c. c = slash) (rev p)) @ replicate k slash"
    by (metis rev_append rev_replicate rev_rev_ident)
  then show ?thesis by (auto simp: rstrip_chars_def)
qed

lemma path_split_parts:
  assumes "path_split p = (d, b)"
  shows "\<exists>k. p = d @ replicate k slash @ b \<and> (d = [] \<or> last d = slash \<or> 0 < k)"
proof (cases rule: rfind_cases [of slash p])
  case none
  with assms show ?thesis by (auto simp: path_split_def head_of_def)
next
  case (last u v)
  let ?h = "u @ [slash]"
  from assms last have b: "b = v" and h: "take (nat (rfind p [slash] + 1)) p = ?h" by (auto simp: path_split_def nat_add_distrib)
  show ?thesis
  proof (cases "list_all (\<lambda>c. c = slash) ?h")
    case True
    with assms h last b show ?thesis by (intro exI [of _ 0]) (auto simp: path_split_def head_of_def Let_def)
  next
    case False
    with assms h have d: "d = rstrip_chars ?h [slash]" by (auto simp: path_split_def head_of_def Let_def)
    obtain k where k: "?h = d @ replicate k slash" using rstrip_slashes [of ?h] unfolding d by blast
    then have "k = 0 \<Longrightarrow> last d = slash" by (metis append_Nil2 last_snoc replicate_0)
    moreover from k last b have "p = d @ replicate k slash @ b" by simp
    ultimately show ?thesis by blast
  qed
qed

section \<open>Properties\<close>

text \<open>C29: \<open>RepositoryName\<close> fails to return in exactly one situation: the file exists, its directory has a
  \<open>.svn\<close>, and so has every directory above it, up to the root directory, where the walk stays for ever.
  In all other cases it returns, and the name is the full name or an end of it.\<close>

theorem RepositoryName_diverges:
  "if exists env (FullName env filename)
     \<and> (\<forall>n. exists env (path_join ((dirname ^^ n) (dirname (FullName env filename))) ''.svn''))
   then RepositoryName env filename = Inl Diverges
   else \<exists>name. RepositoryName env filename = Inr name \<and> suffix name (FullName env filename)"
proof -
  let ?d = "dirname (FullName env filename)"
  have up: "(\<forall>n. exists env (path_join ((dirname ^^ n) ?d) ''.svn''))
      \<longleftrightarrow> exists env (path_join ?d ''.svn'') \<and> svn_root (exists env) ?d (dirname ?d) = None"
    unfolding svn_root_None by (subst all_nat_split) (simp add: funpow_swap1)
  have "RepositoryName env filename = Inl Diverges \<longleftrightarrow> exists env (FullName env filename)
      \<and> exists env (path_join ?d ''.svn'') \<and> svn_root (exists env) ?d (dirname ?d) = None"
    by (auto simp: RepositoryName_def Let_def split: option.splits)
  moreover have "RepositoryName env filename = Inl e \<Longrightarrow> e = Diverges" for e
    by (auto simp: RepositoryName_def Let_def split: if_splits option.splits)
  ultimately show ?thesis unfolding up
    by (cases "RepositoryName env filename") (auto simp: RepositoryName_suffix)
qed

text \<open>C35: splitting a file loses nothing of its repository name but the slashes between the directory and the last
  component.  Base name and extension together are what follows the last slash; the extension is
  a period and the text after it, which holds no other one, and it is empty only if there is no period in that
  component except at its start.\<close>

theorem Split_components:
  assumes "Split env filename = Inr (project, base, ext)"
  shows "\<exists>name k. RepositoryName env filename = Inr name \<and> suffix name (FullName env filename)
    \<and> name = project @ replicate k slash @ base @ ext \<and> slash \<notin> set (base @ ext)
    \<and> (project = [] \<or> last project = slash \<or> 0 < k)
    \<and> (if ext = [] then CHR ''.'' \<notin> set (dropWhile (\<lambda>c. c = CHR ''.'') base)
       else \<exists>x. ext = CHR ''.'' # x \<and> CHR ''.'' \<notin> set x)"
proof -
  from assms obtain name where name: "RepositoryName env filename = Inr name"
    and sp: "path_split name = (project, snd (path_split name))" and se: "splitext (snd (path_split name)) = (base, ext)"
    by (auto simp: Split_def bind_r_eq_Inr Let_def case_prod_beta)
  from path_split_parts [OF sp] obtain k where "name = project @ replicate k slash @ snd (path_split name)"
    "project = [] \<or> last project = slash \<or> 0 < k" by blast
  with name RepositoryName_suffix [OF name] path_split_tail [of name] splitext_parts [OF se] show ?thesis
    by (intro exI [of _ name] exI [of _ k]) (auto split: if_splits)
qed

definition example_env :: os_env where
  "example_env = \<lparr>cwd = ''/home/u/src'', exists = (\<lambda>p. p \<in> set [''/home/u/src/lib/a.b.cc'', ''/home/u/src/.git''])\<rparr>"

theorem Split_components_witness:
  "Split example_env ''lib/../lib/a.b.cc'' = Inr (''lib'', ''a.b'', ''.cc'')
    \<and> (\<exists>k. RepositoryName example_env ''lib/../lib/a.b.cc'' = Inr (''lib'' @ replicate k slash @ ''a.b.cc''))"
proof -
  have run: "Split example_env ''lib/../lib/a.b.cc'' = Inr (''lib'', ''a.b'', ''.cc'')" by code_simp
  from Split_components [OF run] run show ?thesis by auto
qed

end
