(* ===== verification/File_Checks.thy ===== *)
theory File_Checks
  imports File_Info Include_State Cleanse
begin

text \<open>
  The checks of a file as a whole, in the order of the source: copyright, header guard, the header a
  source file should include, bad characters, the newline at the end, and the small
  checks of one line that follow them (multi-line comments and strings, thread-unsafe functions,
  VLOG arguments, invalid increments).  A check is a function from its arguments to a statement of type
  \<open>(lint, unit) py\<close> that calls the handler \<open>error\<close>; the lemmas named \<open>_safe\<close>, proved in the locale
  \<open>reporter\<close>, show that it returns normally and reports only documented categories.
\<close>

section \<open>Copyright and header guards\<close>

definition Search_ic :: "string \<Rightarrow> string \<Rightarrow> mobj option" where
  "Search_ic p s = (case re_compile_flags True p of None \<Rightarrow> None | Some r \<Rightarrow> re_search r s)"

definition CheckForCopyright :: "string \<Rightarrow> string list \<Rightarrow> error_fn \<Rightarrow> (lint, unit) py" where
  "CheckForCopyright filename ls error =
     do_when (\<not> list_ex (\<lambda>line. Search_ic ''Copyright'' line \<noteq> None) (py_slice ls 1 (min (int (length ls)) 11)))
       (error filename 0 ''legal/copyright'' 5
         (msg_of [''No copyright message found.  You should have a line: '', [dquote],
            ''Copyright [year] <Copyright Owner>'', [dquote]]))"

definition cpp_path :: "string \<Rightarrow> string" where
  "cpp_path filename =
     (let filename = ReplaceAll (rx ''_flymake`.h$'') ''.h'' filename;
          filename = re_sub (compiled (rx ''/`.flymake/([^/]*)$'')) (\<lambda>m. ''/'' @ grp m 1) filename
      in replace_str (replace_str filename ''C++'' ''cpp'') ''c++'' ''cpp'')"

definition GUARD_CHAR :: string where
  "GUARD_CHAR = ''[^a-zA-Z0-9]''"

definition guard_name :: "string \<Rightarrow> string" where
  "guard_name path = upper (ReplaceAll GUARD_CHAR ''_'' path) @ ''_''"

text \<open>\<open>_root\<close> is used as a regular expression, which may be malformed.\<close>

definition remove_root :: "string option \<Rightarrow> string \<Rightarrow> string result" where
  "remove_root rt path =
     (case rt of
        None \<Rightarrow> Inr path
      | Some r \<Rightarrow>
          if r = [] then Inr path
          else case re_compile (''^'' @ r @ ''/'') of
              None \<Rightarrow> Inl ReError
            | Some re \<Rightarrow> Inr (re_sub re (\<lambda>_. []) path))"

definition GetHeaderGuardCPPVariable :: "os_env \<Rightarrow> string option \<Rightarrow> string \<Rightarrow> string result" where
  "GetHeaderGuardCPPVariable env rt filename =
     bind_r (RepositoryName env (cpp_path filename)) (\<lambda>path.
       bind_r (remove_root rt path) (\<lambda>path. Inr (guard_name path)))"

definition enumerate_list :: "'a list \<Rightarrow> (int \<times> 'a) list" where
  "enumerate_list xs = zip [0..int (length xs) - 1] xs"

record guard_lines =
  ifndef :: string
  ifndef_linenum :: int
  define_line :: string
  endif :: string
  endif_linenum :: int

definition guard_step :: "guard_lines \<Rightarrow> int \<times> string \<Rightarrow> guard_lines" where
  "guard_step g nl_line =
     (case nl_line of (linenum, line) \<Rightarrow>
        let linesplit = words line;
            g = (if 2 \<le> length linesplit then
                   let g = (if ifndef g = [] \<and> linesplit ! 0 = ''#ifndef''
                            then g\<lparr>ifndef := linesplit ! 1, ifndef_linenum := linenum\<rparr> else g)
                   in if define_line g = [] \<and> linesplit ! 0 = ''#define'' then g\<lparr>define_line := linesplit ! 1\<rparr> else g
                 else g)
        in if startswith line ''#endif'' then g\<lparr>endif := line, endif_linenum := linenum\<rparr> else g)"

definition find_guard :: "string list \<Rightarrow> guard_lines" where
  "find_guard ls =
     foldl guard_step \<lparr>ifndef = [], ifndef_linenum = 0, define_line = [], endif = [], endif_linenum = 0\<rparr>
       (enumerate_list ls)"

definition SINGLE_LINE_COMMENT :: string where
  \<open>SINGLE_LINE_COMMENT = rx ''^(?:(?:`'(?:`.|[^`'])*`')|(?:"(?:`.|[^"])*")|[^`'"])*//''\<close>

definition check_endif :: "string \<Rightarrow> string \<Rightarrow> string list \<Rightarrow> guard_lines \<Rightarrow> error_fn \<Rightarrow> (lint, unit) py" where
  "check_endif filename cppvar ls g error =
     (let slashes = (\<lambda>conf. error filename (endif_linenum g) ''build/header_guard'' conf
              (msg_of [''#endif line should be '', [dquote], ''#endif  // '', cppvar, [dquote]])) in
      case Match (rx ''#endif`s*//`s*'' @ cppvar @ rx ''(_)?`b'') (endif g) of
        Some m \<Rightarrow> do_when (group m 1 = Some ''_'') (slashes 0)
      | None \<Rightarrow>
          if list_ex (\<lambda>line. matches SINGLE_LINE_COMMENT line) (py_slice ls 1 (int (length ls) - 1))
          then slashes 5
          else case Match (rx ''#endif`s*/`*`s*'' @ cppvar @ rx ''(_)?`s*`*/'') (endif g) of
              Some m \<Rightarrow>
                do_when (group m 1 = Some ''_'')
                  (error filename (endif_linenum g) ''build/header_guard'' 0
                    (msg_of [''#endif line should be '', [dquote], ''#endif  /* '', cppvar, '' */'', [dquote]]))
            | None \<Rightarrow> slashes 5)"

definition CheckForHeaderGuard :: "os_env \<Rightarrow> string \<Rightarrow> cleansed_lines \<Rightarrow> error_fn \<Rightarrow> (lint, unit) py" where
  "CheckForHeaderGuard env filename cl error =
     (let ls = lines_without_raw_strings cl in
      if list_ex (\<lambda>i. found (rx ''//`s*NOLINT`(build/header_guard`)'') i) ls then pass
      else andthen (gets root) (\<lambda>rt.
        let_r (GetHeaderGuardCPPVariable env rt filename) (\<lambda>cppvar.
          let g = find_guard ls in
          if ifndef g = [] \<or> define_line g = [] \<or> ifndef g \<noteq> define_line g
          then error filename 0 ''build/header_guard'' 5
                 (msg_of [''No #ifndef header guard found, suggested CPP variable is: '', cppvar])
          else
            seq (do_when (ifndef g \<noteq> cppvar)
                  (let_r (py_index ls (ifndef_linenum g)) (\<lambda>raw.
                    seq (ParseNolintSuppressions filename raw (ifndef_linenum g) error)
                        (error filename (ifndef_linenum g) ''build/header_guard''
                          (if ifndef g \<noteq> cppvar @ ''_'' then 5 else 0)
                          (msg_of [''#ifndef header guard has wrong style, please use: '', cppvar])))))
             (let_r (py_index ls (endif_linenum g)) (\<lambda>raw.
               seq (ParseNolintSuppressions filename raw (endif_linenum g) error)
                   (check_endif filename cppvar ls g error))))))"

section \<open>The header of a source file\<close>

definition TEST_FILE_SUFFIX :: string where
  "TEST_FILE_SUFFIX = ''(_test|_unittest|_regtest)$''"

text \<open>\<open>None\<close> when a listed include matches the header, else the line of the first include.\<close>

fun search_includes :: "string \<Rightarrow> (string \<times> int) list \<Rightarrow> int \<Rightarrow> int option" where
  "search_includes headername [] first_include = Some first_include"
| "search_includes headername ((inc, linenum) # fs) first_include =
     (if contains inc headername \<or> contains headername inc then None
      else search_includes headername fs (if first_include = 0 then linenum else first_include))"

definition CheckHeaderFileIncluded :: "os_env \<Rightarrow> string \<Rightarrow> include_state \<Rightarrow> error_fn \<Rightarrow> (lint, unit) py" where
  "CheckHeaderFileIncluded env filename incs error =
     let_r (BaseName env filename) (\<lambda>base.
       if found TEST_FILE_SUFFIX base then pass
       else let_r (Extension env filename) (\<lambda>ext.
         let headerfile = py_slice filename 0 (int (length filename) - int (length ext)) @ ''.h'' in
         if \<not> exists env headerfile then pass
         else let_r (RepositoryName env headerfile) (\<lambda>headername.
           case search_includes headername (concat (include_list incs)) 0 of
             None \<Rightarrow> pass
           | Some first_include \<Rightarrow>
               let_r (RepositoryName env filename) (\<lambda>name.
                 error filename first_include ''build/include'' 5
                   (msg_of [name, '' should include its header file '', headername])))))"

section \<open>Characters, end of file, multi-line constructs\<close>

text \<open>The lines are sequences of code points here, because the check asks for U+FFFD.\<close>

definition CheckForBadCharacters :: "string \<Rightarrow> int list list \<Rightarrow> error_fn \<Rightarrow> (lint, unit) py" where
  "CheckForBadCharacters filename ls error =
     for_each (enumerate_list ls) (\<lambda>(linenum, line).
       seq (do_when (0xFFFD \<in> set line)
             (error filename linenum ''readability/utf8'' 5
               ''Line contains invalid UTF-8 (or Unicode replacement character).''))
           (do_when (0 \<in> set line)
             (error filename linenum ''readability/nul'' 5 ''Line contains NUL byte.'')))"

definition CheckForNewlineAtEOF :: "string \<Rightarrow> string list \<Rightarrow> error_fn \<Rightarrow> (lint, unit) py" where
  "CheckForNewlineAtEOF filename ls error =
     (let missing = error filename (int (length ls) - 2) ''whitespace/ending_newline'' 5
            ''Could not find a newline character at the end of the file.'' in
      if length ls < 3 then missing
      else let_r (py_index ls (-2)) (\<lambda>line. do_when (line \<noteq> []) missing))"

definition CheckForMultilineCommentsAndStrings :: "string \<Rightarrow> cleansed_lines \<Rightarrow> int \<Rightarrow> error_fn \<Rightarrow> (lint, unit) py" where
  "CheckForMultilineCommentsAndStrings filename cl linenum error =
     let_r (py_index (elided cl) linenum) (\<lambda>line.
       let line = replace_str line [bslash, bslash] [] in
       seq (do_when (count_str line ''/*'' > count_str line ''*/'')
             (error filename linenum ''readability/multiline_comment'' 5
               ''Complex multi-line /*...*/-style comment found. Lint may give bogus warnings.  Consider replacing these with //-style comments, with #if 0...#endif, or with more clearly structured multi-line comments.''))
           (do_when ((count_str line [dquote] - count_str line [bslash, dquote]) mod 2 \<noteq> 0)
             (error filename linenum ''readability/multiline_string'' 5
               (msg_of [''Multi-line string ('', [dquote], ''...'', [dquote], '') found.  This lint script doesn'',
                  [squote], ''t do well with such strings, and may give bogus warnings.  Use C++11 raw strings or concatenation instead.'']))))"

section \<open>Small checks of a line\<close>

definition UNSAFE_FUNC_PREFIX :: string where
  "UNSAFE_FUNC_PREFIX = rx ''(?:[-+*/=%^&|(<]`s*|>`s+)''"

definition THREADING_LIST :: "(string \<times> string \<times> string) list" where
  "THREADING_LIST =
     [(''asctime('', ''asctime_r('', UNSAFE_FUNC_PREFIX @ rx ''asctime`([^)]+`)''),
      (''ctime('', ''ctime_r('', UNSAFE_FUNC_PREFIX @ rx ''ctime`([^)]+`)''),
      (''getgrgid('', ''getgrgid_r('', UNSAFE_FUNC_PREFIX @ rx ''getgrgid`([^)]+`)''),
      (''getgrnam('', ''getgrnam_r('', UNSAFE_FUNC_PREFIX @ rx ''getgrnam`([^)]+`)''),
      (''getlogin('', ''getlogin_r('', UNSAFE_FUNC_PREFIX @ rx ''getlogin`(`)''),
      (''getpwnam('', ''getpwnam_r('', UNSAFE_FUNC_PREFIX @ rx ''getpwnam`([^)]+`)''),
      (''getpwuid('', ''getpwuid_r('', UNSAFE_FUNC_PREFIX @ rx ''getpwuid`([^)]+`)''),
      (''gmtime('', ''gmtime_r('', UNSAFE_FUNC_PREFIX @ rx ''gmtime`([^)]+`)''),
      (''localtime('', ''localtime_r('', UNSAFE_FUNC_PREFIX @ rx ''localtime`([^)]+`)''),
      (''rand('', ''rand_r('', UNSAFE_FUNC_PREFIX @ rx ''rand`(`)''),
      (''strtok('', ''strtok_r('', UNSAFE_FUNC_PREFIX @ rx ''strtok`([^)]+`)''),
      (''ttyname('', ''ttyname_r('', UNSAFE_FUNC_PREFIX @ rx ''ttyname`([^)]+`)'')]"

definition CheckPosixThreading :: "string \<Rightarrow> cleansed_lines \<Rightarrow> int \<Rightarrow> error_fn \<Rightarrow> (lint, unit) py" where
  "CheckPosixThreading filename cl linenum error =
     let_r (py_index (elided cl) linenum) (\<lambda>line.
       for_each THREADING_LIST (\<lambda>(single_thread_func, multithread_safe_func, pattern).
         do_when (found pattern line)
           (error filename linenum ''runtime/threadsafe_fn'' 2
             (msg_of [''Consider using '', multithread_safe_func, ''...) instead of '', single_thread_func,
                ''...) for improved thread safety.'']))))"

definition CheckVlogArguments :: "string \<Rightarrow> cleansed_lines \<Rightarrow> int \<Rightarrow> error_fn \<Rightarrow> (lint, unit) py" where
  "CheckVlogArguments filename cl linenum error =
     let_r (py_index (elided cl) linenum) (\<lambda>line.
       do_when (found (rx ''`bVLOG`((INFO|ERROR|WARNING|DFATAL|FATAL)`)'') line)
         (error filename linenum ''runtime/vlog'' 5
           ''VLOG() should be used with numeric verbosity level.  Use LOG() if you want symbolic severity levels.''))"

definition PATTERN_INVALID_INCREMENT :: string where
  "PATTERN_INVALID_INCREMENT = rx ''^`s*`*`w+(`+`+|--);''"

definition CheckInvalidIncrement :: "string \<Rightarrow> cleansed_lines \<Rightarrow> int \<Rightarrow> error_fn \<Rightarrow> (lint, unit) py" where
  "CheckInvalidIncrement filename cl linenum error =
     let_r (py_index (elided cl) linenum) (\<lambda>line.
       do_when (matches PATTERN_INVALID_INCREMENT line)
         (error filename linenum ''runtime/invalid_increment'' 5
           ''Changing pointer instead of value (or unused value of operator*).''))"

definition IsMacroDefinition :: "string list \<Rightarrow> int \<Rightarrow> bool result" where
  "IsMacroDefinition ls linenum =
     bind_r (py_index ls linenum) (\<lambda>line.
       if found ''^#define'' line then Inr True
       else if linenum > 0
         then bind_r (py_index ls (linenum - 1)) (\<lambda>prev. Inr (found (rx ''``$'') prev))
         else Inr False)"

definition IsForwardClassDeclaration :: "string list \<Rightarrow> int \<Rightarrow> bool result" where
  "IsForwardClassDeclaration ls linenum =
     bind_r (py_index ls linenum) (\<lambda>line. Inr (matches (rx ''^`s*(`btemplate`b)*.*class`s+`w+;`s*$'') line))"

definition IsBlankLine :: "string \<Rightarrow> bool" where
  "IsBlankLine line \<longleftrightarrow> line = [] \<or> isspace line"

section \<open>The guard variable\<close>

lemma sub_set_from:
  "sub_from (RSet neg rs) (\<lambda>_. t) b s 0 adj = concat (map (\<lambda>c. if in_set neg rs c then t else [c]) s)"
proof (induction s arbitrary: b adj)
  case Nil
  show ?case by (simp add: run_at_def)
next
  case (Cons c cs)
  show ?case
  proof (cases "in_set neg rs c")
    case True
    then have "run_at (RSet neg rs) b (c # cs) = Some (MObj (length b) [c] [])" by (simp add: run_at_def)
    with True Cons show ?thesis by simp
  next
    case False
    then have "run_at (RSet neg rs) b (c # cs) = None" by (simp add: run_at_def)
    with False Cons show ?thesis by simp
  qed
qed

definition guard_char :: "char \<Rightarrow> bool" where
  "guard_char c \<longleftrightarrow> in_range c (CHR ''A'', CHR ''Z'') \<or> is_digit c \<or> c = CHR ''_''"

definition guard_regex :: regex where
  "guard_regex = RSet True [(CHR ''a'', CHR ''z''), (CHR ''A'', CHR ''Z''), (CHR ''0'', CHR ''9'')]"

lemma guard_compiled: "compiled GUARD_CHAR = guard_regex"
  by code_simp

lemma upper_in_range: "in_range c (CHR ''a'', CHR ''z'') \<Longrightarrow> in_range (set_case_bit False c) (CHR ''A'', CHR ''Z'')"
  by (cases c) (auto simp: in_range_def split: if_splits)

lemma guard_char_upper:
  "\<not> in_set True [(CHR ''a'', CHR ''z''), (CHR ''A'', CHR ''Z''), (CHR ''0'', CHR ''9'')] c \<Longrightarrow> guard_char (upper_char c)"
  by (auto simp: in_set_def guard_char_def upper_char_def is_digit_def upper_in_range)

lemma guard_name_chars: "list_all guard_char (guard_name path)"
proof -
  have "guard_char (upper_char (CHR ''_''))" "guard_char (CHR ''_'')" by code_simp+
  then show ?thesis
    unfolding guard_name_def ReplaceAll_def guard_compiled guard_regex_def re_sub_def sub_set_from upper_def
    by (auto simp: list_all_iff guard_char_upper split: if_splits)
qed

section \<open>The checks return and report documented categories\<close>

text \<open>The environments in which no walk up the directories goes on for ever, and the values of
  \<open>_root\<close> that are regular expressions.\<close>

definition walks_end :: "os_env \<Rightarrow> bool" where
  "walks_end env \<longleftrightarrow> (\<forall>d. \<exists>n. \<not> exists env (path_join ((dirname ^^ n) d) ''.svn''))"

lemma RepositoryName_total: "walks_end env \<Longrightarrow> \<exists>name. RepositoryName env filename = Inr name"
  using svn_root_None by (fastforce simp: walks_end_def RepositoryName_def Let_def split: option.split)

lemma Split_total: "walks_end env \<Longrightarrow> \<exists>p b e. Split env filename = Inr (p, b, e)"
  using RepositoryName_total [of env filename]
  by (auto simp: Split_def Let_def case_prod_beta prod_eq_iff)

definition root_ok :: "string option \<Rightarrow> bool" where
  "root_ok rt = (case rt of None \<Rightarrow> True | Some r \<Rightarrow> r = [] \<or> re_compile (''^'' @ r @ ''/'') \<noteq> None)"

lemma GetHeaderGuardCPPVariable_total:
  assumes "walks_end env" "root_ok rt"
  shows "\<exists>v. GetHeaderGuardCPPVariable env rt filename = Inr v"
proof -
  obtain path where "RepositoryName env (cpp_path filename) = Inr path"
    using RepositoryName_total [OF assms(1)] by blast
  moreover have "\<exists>p. remove_root rt path = Inr p"
    using assms(2) by (auto simp: root_ok_def remove_root_def split: option.splits)
  ultimately show ?thesis by (auto simp: GetHeaderGuardCPPVariable_def)
qed

lemma enumerate_list_mem:
  "(n, x) \<in> set (enumerate_list xs) \<Longrightarrow> 0 \<le> n \<and> n < int (length xs) \<and> xs ! nat n = x"
  by (auto simp: enumerate_list_def in_set_zip)

definition guard_in :: "nat \<Rightarrow> guard_lines \<Rightarrow> bool" where
  "guard_in n g \<longleftrightarrow> 0 \<le> ifndef_linenum g \<and> ifndef_linenum g < int n \<and> 0 \<le> endif_linenum g \<and> endif_linenum g < int n"

lemma guard_step_in:
  "guard_in n g \<Longrightarrow> 0 \<le> l \<Longrightarrow> l < int n \<Longrightarrow> guard_in n (guard_step g (l, line))"
  by (simp add: guard_step_def guard_in_def Let_def)

lemma find_guard_in: "ls \<noteq> [] \<Longrightarrow> guard_in (length ls) (find_guard ls)"
proof -
  have run: "guard_in n (foldl guard_step g xs)" if "guard_in n g" "\<forall>(l, x) \<in> set xs. 0 \<le> l \<and> l < int n" for n g xs
    using that by (induction xs arbitrary: g) (auto simp: guard_step_in)
  show "ls \<noteq> [] \<Longrightarrow> guard_in (length ls) (find_guard ls)"
    unfolding find_guard_def by (rule run) (auto simp: guard_in_def dest: enumerate_list_mem)
qed

lemma find_guard_nonempty: "ifndef (find_guard ls) \<noteq> [] \<Longrightarrow> ls \<noteq> []"
  by (auto simp: find_guard_def enumerate_list_def)

context reporter
begin

lemma CheckForCopyright_safe [safe_intros]: "safe_unit I (CheckForCopyright filename ls error)"
  unfolding CheckForCopyright_def by (intro safe_intros) simp_all

lemma CheckForBadCharacters_safe [safe_intros]: "safe_unit I (CheckForBadCharacters filename ls error)"
  unfolding CheckForBadCharacters_def by (intro safe_intros) simp_all

lemma CheckForNewlineAtEOF_safe [safe_intros]: "safe_unit I (CheckForNewlineAtEOF filename ls error)"
proof (cases "length ls < 3")
  case False
  then have "py_index ls (-2) = Inr (ls ! (length ls - 2))" by (simp add: py_index_def from_start_def nat_diff_distrib)
  with False show ?thesis by (auto simp: CheckForNewlineAtEOF_def intro!: safe_intros)
qed (auto simp: CheckForNewlineAtEOF_def intro!: safe_intros)

lemma CheckForMultilineCommentsAndStrings_safe [safe_intros]:
  "in_file cl linenum \<Longrightarrow> safe_unit I (CheckForMultilineCommentsAndStrings filename cl linenum error)"
  unfolding CheckForMultilineCommentsAndStrings_def
  by (rule safe_let_r [OF in_file_index(1)], assumption) (simp only: Let_def, intro safe_intros, simp_all)

lemma CheckPosixThreading_safe [safe_intros]:
  "in_file cl linenum \<Longrightarrow> safe_unit I (CheckPosixThreading filename cl linenum error)"
  unfolding CheckPosixThreading_def
  by (rule safe_let_r [OF in_file_index(1)], assumption) (intro safe_intros, simp_all)

lemma CheckVlogArguments_safe [safe_intros]:
  "in_file cl linenum \<Longrightarrow> safe_unit I (CheckVlogArguments filename cl linenum error)"
  unfolding CheckVlogArguments_def
  by (rule safe_let_r [OF in_file_index(1)], assumption) (intro safe_intros, simp_all)

lemma CheckInvalidIncrement_safe [safe_intros]:
  "in_file cl linenum \<Longrightarrow> safe_unit I (CheckInvalidIncrement filename cl linenum error)"
  unfolding CheckInvalidIncrement_def
  by (rule safe_let_r [OF in_file_index(1)], assumption) (intro safe_intros, simp_all)

lemma CheckHeaderFileIncluded_safe [safe_intros]:
  assumes "walks_end env"
  shows "safe_unit I (CheckHeaderFileIncluded env filename incs error)"
proof -
  obtain p b e where "Split env filename = Inr (p, b, e)" using Split_total [OF assms] by blast
  then have be: "BaseName env filename = Inr b" "Extension env filename = Inr e"
    by (simp_all add: BaseName_def Extension_def)
  obtain h where h: "RepositoryName env (py_slice filename 0 (int (length filename) - int (length e)) @ ''.h'') = Inr h"
    using RepositoryName_total [OF assms] by blast
  obtain n where n: "RepositoryName env filename = Inr n" using RepositoryName_total [OF assms] by blast
  show ?thesis unfolding CheckHeaderFileIncluded_def be let_r_simps Let_def h n
    by (intro safe_intros) simp_all
qed

end

text \<open>What the checks need of the module variables: a usable \<open>_root\<close>, and a verbosity level that is not
  negative (the range the documentation gives is 0 to 5).\<close>

definition usable :: "lint \<Rightarrow> bool" where
  "usable s \<longleftrightarrow> root_ok (root s) \<and> 0 \<le> verbose_level (state s)"

locale usable_reporter = reporter +
  assumes usable: "I s \<Longrightarrow> usable s"
begin

lemma check_endif_safe: "safe_unit I (check_endif filename cppvar ls g error)"
  unfolding check_endif_def Let_def by (intro safe_intros) simp_all

lemma CheckForHeaderGuard_safe [safe_intros]:
  assumes "walks_end env"
  shows "safe_unit I (CheckForHeaderGuard env filename cl error)"
proof -
  let ?ls = "lines_without_raw_strings cl"
  let ?g = "find_guard ?ls"
  have "safe_unit I (let_r (GetHeaderGuardCPPVariable env rt filename) (\<lambda>cppvar.
      if ifndef ?g = [] \<or> define_line ?g = [] \<or> ifndef ?g \<noteq> define_line ?g
      then error filename 0 ''build/header_guard'' 5
             (msg_of [''No #ifndef header guard found, suggested CPP variable is: '', cppvar])
      else
        seq (do_when (ifndef ?g \<noteq> cppvar)
              (let_r (py_index ?ls (ifndef_linenum ?g)) (\<lambda>raw.
                seq (ParseNolintSuppressions filename raw (ifndef_linenum ?g) error)
                    (error filename (ifndef_linenum ?g) ''build/header_guard''
                      (if ifndef ?g \<noteq> cppvar @ ''_'' then 5 else 0)
                      (msg_of [''#ifndef header guard has wrong style, please use: '', cppvar])))))
         (let_r (py_index ?ls (endif_linenum ?g)) (\<lambda>raw.
           seq (ParseNolintSuppressions filename raw (endif_linenum ?g) error)
               (check_endif filename cppvar ?ls ?g error)))))" if rt: "root_ok rt" for rt
  proof -
    obtain v where v: "GetHeaderGuardCPPVariable env rt filename = Inr v"
      using GetHeaderGuardCPPVariable_total [OF assms rt] by blast
    show ?thesis
    proof (cases "ifndef ?g = []")
      case True
      then show ?thesis unfolding v let_r_simps by (auto intro!: safe_intros)
    next
      case False
      from find_guard_in [OF find_guard_nonempty [OF False]]
      have "py_index ?ls (ifndef_linenum ?g) = Inr (?ls ! nat (ifndef_linenum ?g))"
        "py_index ?ls (endif_linenum ?g) = Inr (?ls ! nat (endif_linenum ?g))"
        by (simp_all add: guard_in_def)
      then show ?thesis unfolding v let_r_simps
        by (simp only: let_r_simps) (intro safe_intros check_endif_safe; simp)
    qed
  qed
  then show ?thesis unfolding CheckForHeaderGuard_def Let_def
    by (intro safe_intros safe_andthen [where P = root_ok]) (auto simp: usable_def intro!: safe_gets dest: usable)
qed

end

definition documented :: "lint \<Rightarrow> lint \<Rightarrow> bool" where
  "documented s0 s \<longleftrightarrow> documented_from s0 s \<and> usable s"

lemma documented_refl: "lint_ok s \<Longrightarrow> usable s \<Longrightarrow> documented s s"
  by (simp add: documented_def documented_from_refl)

interpretation checked: usable_reporter Error "documented s0" for s0
proof
  show "safe_unit (documented s0) (Error filename linenum c k msg)"
    if "listed c" "0 \<le> k" "k \<le> 5" for filename linenum c k msg
    unfolding safe_def documented_def
    using documented_Error [OF _ that] by (fastforce simp: documented_from_def usable_def)
  show "documented s0 s \<Longrightarrow> documented s0 (add_suppression cat l s)" for s cat l
    by (simp add: documented_def documented_reporter.suppression usable_def)
  show "documented s0 s \<Longrightarrow> usable s" for s by (simp add: documented_def)
qed

section \<open>Properties\<close>

text \<open>C34: the header guard variable is computed for every file name, given a usable \<open>_root\<close> and directories in
  which the search for the repository ends; it is a macro name of upper-case letters, digits and
  underscores that ends in an underscore.\<close>

theorem header_guard_variable:
  assumes "walks_end env" and "root_ok rt"
  shows "\<exists>v. GetHeaderGuardCPPVariable env rt filename = Inr v \<and> list_all guard_char v \<and> suffix ''_'' v"
proof -
  from GetHeaderGuardCPPVariable_total [OF assms] obtain v where v: "GetHeaderGuardCPPVariable env rt filename = Inr v"
    by blast
  then obtain path where "v = guard_name path"
    by (auto simp: GetHeaderGuardCPPVariable_def bind_r_eq_Inr)
  with v guard_name_chars [of path] show ?thesis by (simp add: guard_name_def suffix_def)
qed

lemma example_walks_end: "walks_end example_env"
proof -
  have "\<not> exists example_env (path_join d ''.svn'')" for d
  proof -
    have "suffix ''.svn'' (path_join d ''.svn'')" by (simp add: path_join_def suffix_def)
    moreover have "\<not> suffix ''.svn'' ''/home/u/src/lib/a.b.cc''" "\<not> suffix ''.svn'' ''/home/u/src/.git''"
      by code_simp+
    ultimately show ?thesis by (auto simp: example_env_def)
  qed
  then show ?thesis by (auto simp: walks_end_def)
qed

theorem header_guard_variable_witness:
  "\<exists>v. GetHeaderGuardCPPVariable example_env (Some ''lib'') ''lib/a.b.cc'' = Inr v
     \<and> list_all guard_char v \<and> suffix ''_'' v"
proof (rule header_guard_variable)
  show "walks_end example_env" by (rule example_walks_end)
  show "root_ok (Some ''lib'')" by code_simp
qed

end
