(* ===== verification/Class_Checks.thy ===== *)
theory Class_Checks
  imports Nesting Function_State File_Checks
begin

text \<open>
  The checks of class members and function bodies: \<open>CheckForNonStandardConstructs\<close> with its parsing of
  constructor arguments, \<open>CheckSpacingForFunctionCall\<close>, \<open>CheckForFunctionLengths\<close>, \<open>CheckComment\<close> and
  \<open>CheckAccess\<close>.  The loop over constructor arguments indexes past the end of the list on
  some input; that exception is a branch of the model.
\<close>

section \<open>Non-standard constructs\<close>

text \<open>Joining the arguments that were split inside brackets: \<open>constructor_args[i + 1]\<close> may not exist.\<close>

fun collapse_arg :: "string \<Rightarrow> string list \<Rightarrow> (string \<times> string list) result" where
  "collapse_arg arg rest =
     (if count_str arg ''<'' > count_str arg ''>'' \<or> count_str arg ''('' > count_str arg '')''
      then case rest of
          [] \<Rightarrow> Inl IndexError
        | next # rest' \<Rightarrow> collapse_arg (arg @ '','' @ next) rest'
      else Inr (arg, rest))"

declare collapse_arg.simps [simp del]

lemma collapse_arg_length: "collapse_arg arg rest = Inr (arg', rest') \<Longrightarrow> length rest' \<le> length rest"
proof (induction rest arbitrary: arg)
  case Nil
  then show ?case by (subst (asm) collapse_arg.simps) (simp split: if_splits)
next
  case (Cons n rest)
  from Cons.prems consider "rest' = n # rest" | "collapse_arg (arg @ '','' @ n) rest = Inr (arg', rest')"
    by (subst (asm) collapse_arg.simps) (auto split: if_splits)
  then show ?case using Cons.IH by cases (simp, fastforce)
qed

function collapse_args :: "string list \<Rightarrow> string list result" where
  "collapse_args [] = Inr []"
| "collapse_args (arg # rest) =
     bind_r (collapse_arg arg rest) (\<lambda>(arg', rest').
       bind_r (collapse_args rest') (\<lambda>args. Inr (arg' # args)))"
  by pat_completeness auto
termination
  by (relation "measure length") (auto simp: less_Suc_eq_le collapse_arg_length)

definition CONSTRUCTOR :: "string \<Rightarrow> string" where
  "CONSTRUCTOR base_classname =
     rx ''`s+(?:inline`s+)?(explicit`s+)?(?:inline`s+)?'' @ re_escape base_classname @
     rx ''`s*`(((?:[^()]|`([^()]*`))*)`)''"

definition COPY_CONSTRUCTOR :: "string \<Rightarrow> string" where
  "COPY_CONSTRUCTOR base_classname =
     rx ''(const`s+)?'' @ re_escape base_classname @ rx ''(`s*<[^>]*>)?(`s+const)?`s*(?:<`w+>`s*)?&''"

definition check_constructor :: "error_fn \<Rightarrow> string \<Rightarrow> int \<Rightarrow> string \<Rightarrow> mobj \<Rightarrow> (lint, unit) py" where
  "check_constructor error filename linenum base_classname m =
     (let explicit = (grp m 1 \<noteq> []) in
      let_r (collapse_args (if grp m 2 = [] then [] else split_str (grp m 2) '','')) (\<lambda>args.
        let defaulted = filter (\<lambda>arg. contains arg ''='') args;
            noarg = (args = [] \<or> (length args = 1 \<and> strip (args ! 0) = ''void''));
            onearg = ((length args = 1 \<and> \<not> noarg)
              \<or> (length args \<ge> 1 \<and> \<not> noarg \<and> int (length defaulted) \<ge> int (length args) - 1));
            initializer_list = (onearg \<and> found (rx ''`bstd`s*::`s*initializer_list`b'') (args ! 0));
            copy = (onearg \<and> matches (COPY_CONSTRUCTOR base_classname) (strip (args ! 0)))
        in if \<not> explicit \<and> onearg \<and> \<not> initializer_list \<and> \<not> copy then
             (if defaulted \<noteq> []
              then error filename linenum ''runtime/explicit'' 5
                     ''Constructors callable with one argument should be marked explicit.''
              else error filename linenum ''runtime/explicit'' 5
                     ''Single-parameter constructors should be marked explicit.'')
           else
             do_when (explicit \<and> \<not> onearg \<and> noarg)
               (error filename linenum ''runtime/explicit'' 5
                 ''Zero-parameter constructors should not be marked explicit.'')))"

definition CheckForNonStandardConstructs :: "string \<Rightarrow> cleansed_lines \<Rightarrow> int \<Rightarrow> nesting_state \<Rightarrow> error_fn \<Rightarrow> (lint, unit) py" where
  \<open>CheckForNonStandardConstructs filename cl linenum ns error =
     let_r (py_index (lines cl) linenum) (\<lambda>line0.
       seq (block
         [do_when (found (rx ''printf`s*`(.*".*%[-+ ]?`d*q'') line0)
            (error filename linenum ''runtime/printf_format'' 3 ''%q in format strings is deprecated.  Use %ll instead.''),
          do_when (found (rx ''printf`s*`(.*".*%`d+`$'') line0)
            (error filename linenum ''runtime/printf_format'' 2 ''%N$ formats are unconventional.  Try rewriting to avoid them.''),
          do_when (found (rx ''("|`').*``(%|`[|`(|{)'') (replace_str line0 [bslash, bslash] []))
            (error filename linenum ''build/printf_format'' 3 ''%, [, (, and { are undefined character escapes.  Unescape them.'')])
       (let_r (py_index (elided cl) linenum) (\<lambda>line.
         seq (block
           [do_when (found (rx ''`b(const|volatile|void|char|short|int|long|float|double|signed|unsigned|schar|u?int8|u?int16|u?int32|u?int64)`s+(register|static|extern|typedef)`b'') line)
              (error filename linenum ''build/storage_class'' 5
                 ''Storage-class specifier (static, extern, typedef, etc) should be at the beginning of the declaration.''),
            do_when (matches (rx ''`s*#`s*endif`s*[^/`s]+'') line)
              (error filename linenum ''build/endif_comment'' 5 ''Uncommented text after #endif is non-standard.  Use a comment.''),
            do_when (matches (rx ''`s*class`s+(`w+`s*::`s*)+`w+`s*;'') line)
              (error filename linenum ''build/forward_decl'' 5 ''Inner-style forward declarations are invalid.  Remove this line.''),
            do_when (found (rx ''(`w+|[+-]?`d+(`.`d*)?)`s*(<|>)`?=?`s*(`w+|[+-]?`d+)(`.`d*)?'') line)
              (error filename linenum ''build/deprecated'' 3 ''>? and <? (max and min) operators are non-standard and deprecated.''),
            do_when (found (rx ''^`s*const`s*string`s*&`s*`w+`s*;'') line)
              (error filename linenum ''runtime/member_string_references'' 2
                 ''const string& members are dangerous. It is much better to use alternatives, such as pointers or simple constants.'')])
         (case InnermostClass ns of
            None \<Rightarrow> pass
          | Some (b, ci) \<Rightarrow>
              if \<not> seen_open_brace b then pass
              else
                let base_classname = last (split_str (class_name ci) ''::'')
                in case Match (CONSTRUCTOR base_classname) line of
                     None \<Rightarrow> pass
                   | Some m \<Rightarrow> check_constructor error filename linenum base_classname m))))\<close>

section \<open>Function calls\<close>

fun first_group :: "string list \<Rightarrow> string \<Rightarrow> string" where
  "first_group [] line = line"
| "first_group (pattern # patterns) line =
     (case Search pattern line of Some m \<Rightarrow> grp m 1 | None \<Rightarrow> first_group patterns line)"

definition CheckSpacingForFunctionCall :: "string \<Rightarrow> cleansed_lines \<Rightarrow> int \<Rightarrow> error_fn \<Rightarrow> (lint, unit) py" where
  "CheckSpacingForFunctionCall filename cl linenum error =
     let_r (py_index (elided cl) linenum) (\<lambda>line.
       let fncall = first_group
             [rx ''`bif`s*`((.*)`)`s*{'', rx ''`bfor`s*`((.*)`)`s*{'', rx ''`bwhile`s*`((.*)`)`s*[{;]'',
              rx ''`bswitch`s*`((.*)`)`s*{''] line in
       do_when (\<not> found (rx ''`b(if|for|while|switch|return|new|delete|catch|sizeof)`b'') fncall
           \<and> \<not> found (rx '' `([^)]+`)`([^)]*(`)|,$)'') fncall
           \<and> \<not> found (rx '' `([^)]+`)`[[^`]]+`]'') fncall)
         (block
           [if found (rx ''`w`s*`(`s(?!`s*``$)'') fncall then error filename linenum ''whitespace/parens'' 4 ''Extra space after ( in function call''
            else do_when (found (rx ''`(`s+(?!(`s*``)|`()'') fncall) (error filename linenum ''whitespace/parens'' 2 ''Extra space after (''),
            do_when (found (rx ''`w`s+`('') fncall
                \<and> \<not> found (rx ''_{0,2}asm_{0,2}`s+_{0,2}volatile_{0,2}`s+`('') fncall
                \<and> \<not> found (rx ''#`s*define|typedef|using`s+`w+`s*='') fncall
                \<and> \<not> found (rx ''`w`s+`((`w+::)*`*`w+`)`('') fncall
                \<and> \<not> found (rx ''`bcase`s+`('') fncall)
              (if found (rx ''`boperator_*`b'') line
               then error filename linenum ''whitespace/parens'' 0 ''Extra space before ( in function call''
               else error filename linenum ''whitespace/parens'' 4 ''Extra space before ( in function call''),
            do_when (found (rx ''[^)]`s+`)`s*[^{`s]'') fncall)
              (if found (rx ''^`s+`)'') fncall
               then error filename linenum ''whitespace/parens'' 2 ''Closing ) should be moved to the previous line''
               else error filename linenum ''whitespace/parens'' 2 ''Extra space before )'')]))"

section \<open>Function lengths\<close>

definition FUNCTION_HEAD :: string where
  "FUNCTION_HEAD = rx ''(`w(`w|::|`*|`&|`s)*)`(''"

definition FUNCTION_NAME :: string where
  "FUNCTION_NAME = rx ''((`w|:)*)`(''"

definition starting_func :: "string \<Rightarrow> bool result" where
  "starting_func line =
     (case Match FUNCTION_HEAD line of
        None \<Rightarrow> Inr False
      | Some m \<Rightarrow>
          bind_r (py_index (words (grp m 1)) (-1)) (\<lambda>function_name.
            Inr (function_name = ''TEST'' \<or> function_name = ''TEST_F'' \<or> \<not> matches ''[A-Z_]+$'' function_name)))"

text \<open>The name under which a function body is counted; \<open>Search(...).group(1)\<close> would raise without a match.\<close>

definition function_title :: "string \<Rightarrow> string \<Rightarrow> string result" where
  "function_title line joined_line =
     (case Search FUNCTION_NAME line of
        None \<Rightarrow> Inl AttributeError
      | Some m \<Rightarrow>
          let function = grp m 1 in
          if matches ''TEST'' function
          then case Search (rx ''(`(.*`))'') joined_line of
              None \<Rightarrow> Inr function
            | Some p \<Rightarrow> Inr (function @ grp p 1)
          else Inr (function @ ''()''))"

text \<open>The search for the body: whether one was found, and the title if a brace comes first.\<close>

fun find_body :: "cleansed_lines \<Rightarrow> string \<Rightarrow> int list \<Rightarrow> string \<Rightarrow> (bool \<times> string option) result" where
  "find_body cl line [] joined_line = Inr (False, None)"
| "find_body cl line (n # ns) joined_line =
     bind_r (py_index (lines cl) n) (\<lambda>start_line.
       let joined_line = joined_line @ '' '' @ lstrip start_line in
       if found ''(;|})'' start_line then Inr (True, None)
       else if found ''{'' start_line
       then bind_r (function_title line joined_line) (\<lambda>title. Inr (True, Some title))
       else find_body cl line ns joined_line)"

definition CheckForFunctionLengths :: "string \<Rightarrow> cleansed_lines \<Rightarrow> int \<Rightarrow> function_state \<Rightarrow> error_fn \<Rightarrow> (lint, function_state) py" where
  "CheckForFunctionLengths filename cl linenum fs error =
     let_r (py_index (lines cl) linenum) (\<lambda>line.
       let_r (starting_func line) (\<lambda>starting.
         if starting then
           let_r (find_body cl line [linenum..NumLines cl - 1] []) (\<lambda>(body_found, title).
             seq (do_when (\<not> body_found)
                   (error filename linenum ''readability/fn_size'' 5 ''Lint failed to find start of function body.''))
                 (ret (case title of None \<Rightarrow> fs | Some f \<Rightarrow> Begin f fs)))
         else if matches (rx ''^`}`s*$'') line
         then seq (Check error filename linenum fs) (ret (End fs))
         else if \<not> matches (rx ''^`s*$'') line then ret (Count fs)
         else ret fs))"

section \<open>Comments\<close>

definition PATTERN_TODO :: string where
  "PATTERN_TODO = rx ''^//(`s*)TODO(`(.+?`))?:?(`s|$)?''"

definition CheckComment :: "string \<Rightarrow> string \<Rightarrow> int \<Rightarrow> int \<Rightarrow> error_fn \<Rightarrow> (lint, unit) py" where
  "CheckComment line filename linenum next_line_start error =
     (let commentpos = find_str line ''//'';
          comment = slice_from line commentpos in
      do_when (commentpos \<noteq> -1
          \<and> count_str (ReplaceAll (rx ''``.'') [] (py_slice line 0 commentpos)) [dquote] mod 2 = 0)
        (block
          [do_when (\<not> (matches ''^.*{ *//'' line \<and> next_line_start = commentpos)
              \<and> ((commentpos \<ge> 1 \<and> \<not> ascii_space (line ! nat (commentpos - 1)))
                 \<or> (commentpos \<ge> 2 \<and> \<not> ascii_space (line ! nat (commentpos - 2)))))
             (error filename linenum ''whitespace/comments'' 2
               ''At least two spaces is best between code and comments''),
           (case Match PATTERN_TODO comment of
              None \<Rightarrow> pass
            | Some m \<Rightarrow> block
                [do_when (length (grp m 1) > 1)
                   (error filename linenum ''whitespace/todo'' 2 ''Too many spaces before TODO''),
                 do_when (grp m 2 = [])
                   (error filename linenum ''readability/todo'' 2
                     (msg_of [''Missing username in TODO; it should look like '', [dquote],
                        ''// TODO(my_username): Stuff.'', [dquote]])),
                 do_when (group m 3 \<noteq> Some '' '' \<and> group m 3 \<noteq> Some [])
                   (error filename linenum ''whitespace/todo'' 2
                     ''TODO(my_username) should be followed by a space'')]),
           do_when (matches (rx ''//[^ ]*`w'') comment \<and> \<not> matches (rx ''(///|//`!)(`s+|$)'') comment)
             (error filename linenum ''whitespace/comments'' 4 ''Should have a space between // and comment'')]))"

section \<open>Access control\<close>

definition CheckAccess :: "string \<Rightarrow> cleansed_lines \<Rightarrow> int \<Rightarrow> nesting_state \<Rightarrow> error_fn \<Rightarrow> (lint, unit) py" where
  "CheckAccess filename cl linenum ns error =
     let_r (py_index (elided cl) linenum) (\<lambda>line.
       case Match (rx ''`s*(DISALLOW_COPY_AND_ASSIGN|DISALLOW_IMPLICIT_CONSTRUCTORS)'') line of
         None \<Rightarrow> pass
       | Some matched \<Rightarrow>
           (case stack ns of
              [] \<Rightarrow> pass
            | b # _ \<Rightarrow>
                (case kind b of
                   ClassKind ci \<Rightarrow>
                     do_when (access ci \<noteq> ''private'')
                       (error filename linenum ''readability/constructors'' 3
                         (msg_of [grp matched 1, '' must be in the private: section'']))
                 | _ \<Rightarrow> pass)))"

section \<open>The checks return\<close>

lemma words_acc_nonempty: "acc \<noteq> [] \<or> list_ex (\<lambda>c. \<not> uspace c) s \<Longrightarrow> words_acc s acc \<noteq> []"
  by (induction s acc rule: words_acc.induct) auto

lemma py_index_last: "xs \<noteq> [] \<Longrightarrow> py_index xs (-1) = Inr (last xs)"
  by (simp add: py_index_def from_start_def last_conv_nth nat_diff_distrib Suc_le_eq)

definition word_set :: "(char \<times> char) list" where
  "word_set = [(CHR ''a'', CHR ''z''), (CHR ''A'', CHR ''Z''), (CHR ''0'', CHR ''9''), (CHR ''_'', CHR ''_'')]"

lemma FUNCTION_HEAD_compiled: "\<exists>r. compiled FUNCTION_HEAD = RSeq (RGroup 1 (RSeq (RSet False word_set) r)) (RChar CHR ''('')"
  by (rule exI [of _ "case compiled FUNCTION_HEAD of RSeq (RGroup _ (RSeq _ r)) _ \<Rightarrow> r"]) code_simp

lemma in_set_word_set: "in_set False word_set c \<longleftrightarrow> is_word c"
  by (auto simp: in_set_def word_set_def is_word_def is_digit_def)

lemma is_word_not_space: "is_word c \<Longrightarrow> \<not> uspace c"
  by (cases c) (auto simp: is_word_def is_digit_def uspace_def in_range_def split: if_splits)

lemma function_head_match:
  assumes "Match FUNCTION_HEAD line = Some m"
  shows "words (grp m 1) \<noteq> []" and "\<exists>u v. line = u @ CHR ''('' # v"
proof -
  obtain r where r: "compiled FUNCTION_HEAD = RSeq (RGroup 1 (RSeq (RSet False word_set) r)) (RChar CHR ''('')"
    using FUNCTION_HEAD_compiled by blast
  from assms obtain st where st: "st \<in> set (ml (compiled FUNCTION_HEAD) (MSt [] line []))" "m_caps m = caps st"
    by (rule Match_Some)
  from st(1) obtain c v u where u: "line = c # v" "is_word c" "u \<in> set (ml r (MSt [c] v []))"
    "st \<in> set (ml (RChar CHR ''('') (close_group 1 (MSt [] line []) u))"
    unfolding r ml.simps(11) mem_seq
    by (auto simp: step_char_Some in_set_word_set)
  from ml_moves [OF u(3)] obtain t where t: "v = t @ after u" "before u = rev t @ [c]"
    by (auto simp: moves_def)
  from u(4) obtain w where w: "after u = CHR ''('' # w" "st = MSt (CHR ''('' # before u) w ((1, 0, c # t) # caps u)"
    using u(1) t by (auto simp: step_char_Some close_group_def)
  have "grp m 1 = c # t" using w st(2) by (simp add: grp_def group_def)
  then show "words (grp m 1) \<noteq> []"
    unfolding words_def using is_word_not_space [OF u(2)] by (intro words_acc_nonempty) simp
  show "\<exists>u v. line = u @ CHR ''('' # v" using u(1) t(1) w(1) by (intro exI [of _ "c # t"] exI [of _ w]) simp
qed

lemma FUNCTION_NAME_compiled:
  "\<exists>r. compiled FUNCTION_NAME = RSeq (RGroup 1 (RRep True 0 None r)) (RChar CHR ''('')"
  by (rule exI [of _ "case compiled FUNCTION_NAME of RSeq (RGroup _ (RRep _ _ _ r)) _ \<Rightarrow> r"]) code_simp

lemma repl_zero: "st \<in> set (repl l g (Suc n) 0 None None st)"
  by simp

lemma ml_rep_zero: "st \<in> set (ml (RRep g 0 None r) st)"
  unfolding ml.simps by (simp add: repl_zero del: repl.simps)

lemma function_name_found:
  assumes "Match FUNCTION_HEAD line = Some m"
  shows "\<exists>m. Search FUNCTION_NAME line = Some m"
proof -
  from function_head_match(2) [OF assms] obtain u v where line: "line = u @ CHR ''('' # v" by blast
  obtain r where r: "compiled FUNCTION_NAME = RSeq (RGroup 1 (RRep True 0 None r)) (RChar CHR ''('')"
    using FUNCTION_NAME_compiled by blast
  let ?st = "MSt (rev u) (CHR ''('' # v) []"
  have "close_group 1 ?st ?st \<in> set (ml (RGroup 1 (RRep True 0 None r)) ?st)"
    using ml_rep_zero by (auto simp del: ml.simps(10))
  then have "MSt (CHR ''('' # rev u) v (caps (close_group 1 ?st ?st)) \<in> set (ml (compiled FUNCTION_NAME) ?st)"
    unfolding r mem_seq by (intro exI conjI, assumption) (simp add: close_group_def)
  then show ?thesis unfolding line by (rule SearchI)
qed

lemma starting_func_total: "\<exists>b. starting_func line = Inr b"
proof (cases "Match FUNCTION_HEAD line")
  case (Some m)
  from py_index_last [OF function_head_match(1) [OF this]] Some show ?thesis
    by (simp add: starting_func_def)
qed (simp only: starting_func_def option.case total_Inr)

lemma starting_func_head: "starting_func line = Inr True \<Longrightarrow> \<exists>m. Match FUNCTION_HEAD line = Some m"
  by (auto simp: starting_func_def split: option.splits)

lemma find_body_total:
  assumes "\<exists>m. Match FUNCTION_HEAD line = Some m" and "\<forall>n \<in> set ns. in_file cl n"
  shows "\<exists>r. find_body cl line ns joined = Inr r"
  using assms(2)
proof (induction ns arbitrary: joined)
  case (Cons n ns)
  have "\<exists>t. function_title line j = Inr t" for j
    using assms(1) function_name_found [of line] by (auto simp: function_title_def Let_def split: option.split)
  then obtain t where t: "\<And>j. function_title line j = Inr (t j)" by metis
  from Cons.prems have "in_file cl n" by simp
  moreover from Cons have "\<exists>r. find_body cl line ns j = Inr r" for j by simp
  ultimately show ?case
    by (simp only: find_body.simps Let_def t in_file_index bind_r_simps) (intro total_if total_Inr)
qed (simp only: find_body.simps total_Inr)

context reporter
begin

lemma CheckSpacingForFunctionCall_safe [safe_intros]:
  "in_file cl linenum \<Longrightarrow> safe_unit I (CheckSpacingForFunctionCall filename cl linenum error)"
  unfolding CheckSpacingForFunctionCall_def by (intro safe_intros) simp_all

lemma CheckComment_safe [safe_intros]: "safe_unit I (CheckComment line filename linenum start error)"
  unfolding CheckComment_def by (intro safe_intros) simp_all

lemma CheckAccess_safe [safe_intros]:
  "in_file cl linenum \<Longrightarrow> safe_unit I (CheckAccess filename cl linenum ns error)"
  unfolding CheckAccess_def
  by (intro safe_intros) (auto intro!: safe_intros split: block_kind.split)

lemma check_constructor_safe:
  "collapse_args (if grp m 2 = [] then [] else split_str (grp m 2) '','') = Inr args \<Longrightarrow>
    safe_unit I (check_constructor error filename linenum base_classname m)"
  unfolding check_constructor_def by (simp only: let_r_simps) (intro safe_intros; simp)

end

text \<open>The constructors on a line: whatever class they belong to, their arguments can be regrouped.\<close>

definition constructors_ok :: "cleansed_lines \<Rightarrow> int \<Rightarrow> bool" where
  "constructors_ok cl linenum \<longleftrightarrow>
     (\<forall>name m. Match (CONSTRUCTOR name) (elided cl ! nat linenum) = Some m \<longrightarrow>
        (\<exists>args. collapse_args (if grp m 2 = [] then [] else split_str (grp m 2) '','') = Inr args))"

lemma split_str_chars: "p \<in> set (split_str s sep) \<Longrightarrow> set p \<subseteq> set s"
proof -
  have "p \<in> set (split_acc s sep acc) \<Longrightarrow> set p \<subseteq> set s \<union> set acc" for acc
    by (induction s sep acc rule: split_acc.induct) (fastforce split: if_splits dest: in_set_dropD)+
  then show "p \<in> set (split_str s sep) \<Longrightarrow> set p \<subseteq> set s" by (fastforce simp: split_str_def)
qed

lemma collapse_args_plain:
  "(\<And>a. a \<in> set as \<Longrightarrow> CHR ''<'' \<notin> set a \<and> CHR ''('' \<notin> set a) \<Longrightarrow> collapse_args as = Inr as"
  by (induction "as") (simp_all add: collapse_arg.simps count_str_absent count_str_nonneg leD)

text \<open>A line without an opening bracket of a template or a call is such a line.\<close>

lemma constructors_ok_plain:
  assumes "CHR ''<'' \<notin> set (elided cl ! nat linenum)" "CHR ''('' \<notin> set (elided cl ! nat linenum)"
  shows "constructors_ok cl linenum"
  unfolding constructors_ok_def
proof (intro allI impI)
  fix name m assume "Match (CONSTRUCTOR name) (elided cl ! nat linenum) = Some m"
  from Match_group_chars [OF this, of 2] assms have "CHR ''<'' \<notin> set (grp m 2)" "CHR ''('' \<notin> set (grp m 2)" by auto
  with split_str_chars have "collapse_args (if grp m 2 = [] then [] else split_str (grp m 2) '','')
      = Inr (if grp m 2 = [] then [] else split_str (grp m 2) '','')" by (intro collapse_args_plain) (fastforce split: if_splits)
  then show "\<exists>args. collapse_args (if grp m 2 = [] then [] else split_str (grp m 2) '','') = Inr args" by blast
qed

lemma collapse_arg_error: "collapse_arg a as = Inl e \<Longrightarrow> e = IndexError"
  by (induction "as" arbitrary: a) (simp_all add: collapse_arg.simps [of _ "[]"] collapse_arg.simps [of _ "_ # _"] split: if_splits)

lemma collapse_args_error: "collapse_args as = Inl e \<Longrightarrow> e = IndexError"
  by (induction as rule: collapse_args.induct)
    (auto simp: bind_r_def split: sum.splits prod.splits dest: collapse_arg_error)

context reporter
begin

lemma check_constructor_runs:
  assumes "Match (CONSTRUCTOR name) (elided cl ! nat linenum) = Some m"
  shows "runs {e. e = IndexError \<and> \<not> constructors_ok cl linenum} I (\<lambda>_. True) (check_constructor error filename linenum name m)"
proof (cases "collapse_args (if grp m 2 = [] then [] else split_str (grp m 2) '','')")
  case (Inl e)
  with collapse_args_error have e: "e = IndexError" by blast
  from assms Inl have "\<not> constructors_ok cl linenum" unfolding constructors_ok_def by force
  with e show ?thesis unfolding check_constructor_def Inl Let_def let_r_simps by (intro runs_raise) simp
qed (rule safe_runs, rule check_constructor_safe)

lemma CheckForNonStandardConstructs_runs:
  assumes "in_file cl linenum"
  shows "runs {e. e = IndexError \<and> \<not> constructors_ok cl linenum} I (\<lambda>_. True)
    (CheckForNonStandardConstructs filename cl linenum ns error)"
proof -
  have report: "runs E I (\<lambda>_. True) (do_when b (error filename linenum c k msg))"
    if "listed c" "0 \<le> k" "k \<le> 5" for E b c k msg
    using that by (intro safe_runs safe_intros)
  show ?thesis
    unfolding CheckForNonStandardConstructs_def in_file_index [OF assms] let_r_simps
    by (intro runs_intros report check_constructor_runs) (simp_all add: runs_def pass_def ret_def)
qed

end

context usable_reporter
begin

lemma Check_safe [safe_intros]: "safe_unit I (Check error filename linenum fs)"
proof -
  have "safe_unit I (let_r (error_level (lines_in_function fs) base) (\<lambda>level.
      error filename linenum ''readability/fn_size'' level (msg level)))"
    if "over_trigger (lines_in_function fs) base v" "0 \<le> v" "0 < base" for v base and msg :: "int \<Rightarrow> string"
  proof -
    from error_level_over [OF that] obtain level
      where level: "error_level (lines_in_function fs) base = Inr level" "0 \<le> level" "level \<le> 5" by blast
    show ?thesis by (rule safe_let_r [OF level(1)]) (intro safe_intros level(2,3), simp)
  qed
  note report_level = this
  show ?thesis unfolding Check_def Let_def
    by (intro safe_intros safe_andthen [where P = "\<lambda>v. 0 \<le> v"] safe_gets report_level)
      (auto simp: usable_def base_trigger_pos dest: usable)
qed

lemma CheckForFunctionLengths_safe [safe_intros]:
  assumes "in_file cl linenum"
  shows "safe I (\<lambda>_. True) (CheckForFunctionLengths filename cl linenum fs error)"
proof -
  let ?line = "lines cl ! nat linenum"
  have ns: "\<forall>n \<in> set [linenum..NumLines cl - 1]. in_file cl n"
    using assms by (simp add: in_file_def NumLines_def)
  obtain b where b: "starting_func ?line = Inr b" using starting_func_total by blast
  have body: "\<exists>r. find_body cl ?line [linenum..NumLines cl - 1] [] = Inr r" if b
    using find_body_total [OF starting_func_head ns] b that by simp
  show ?thesis
  proof (cases b)
    case True
    with body obtain r where "find_body cl ?line [linenum..NumLines cl - 1] [] = Inr r" by blast
    with True b assms show ?thesis unfolding CheckForFunctionLengths_def
      by (simp only: in_file_index let_r_simps if_True) (intro safe_intros; simp)
  next
    case False
    with b assms show ?thesis unfolding CheckForFunctionLengths_def
      by (simp only: in_file_index let_r_simps if_False) (intro safe_intros; simp)
  qed
qed

end

section \<open>Constructor arguments\<close>

definition closed_arg :: "string \<Rightarrow> bool" where
  "closed_arg arg \<longleftrightarrow> count_str arg ''<'' \<le> count_str arg ''>'' \<and> count_str arg ''('' \<le> count_str arg '')''"

lemma join_Cons: "join sep (x # xs) = (if xs = [] then x else x @ sep @ join sep xs)"
  by (cases xs) (simp_all add: join_def)

lemma collapse_arg_join:
  "collapse_arg arg rest = Inr (arg', rest') \<Longrightarrow>
    join '','' (arg' # rest') = join '','' (arg # rest) \<and> closed_arg arg'"
proof (induction rest arbitrary: arg)
  case Nil
  then show ?case by (subst (asm) collapse_arg.simps) (auto simp: closed_arg_def split: if_splits)
next
  case (Cons n rest)
  show ?case
  proof (cases "closed_arg arg")
    case True
    with Cons.prems show ?thesis
      by (subst (asm) collapse_arg.simps) (simp add: closed_arg_def)
  next
    case False
    with Cons.prems have "collapse_arg (arg @ '','' @ n) rest = Inr (arg', rest')"
      by (subst (asm) collapse_arg.simps) (simp add: closed_arg_def split: if_splits)
    with Cons.IH have "join '','' (arg' # rest') = join '','' ((arg @ '','' @ n) # rest) \<and> closed_arg arg'" .
    then show ?thesis by (cases rest) (simp_all add: join_def)
  qed
qed

lemma collapse_args_nonempty: "collapse_args args = Inr args' \<Longrightarrow> args' = [] \<longleftrightarrow> args = []"
  by (cases args) (auto simp: bind_r_eq_Inr)

lemma collapse_args_join:
  "collapse_args args = Inr args' \<Longrightarrow> join '','' args' = join '','' args \<and> list_all closed_arg args'"
proof (induction args arbitrary: args' rule: collapse_args.induct)
  case (2 arg rest)
  then obtain a r as where a: "collapse_arg arg rest = Inr (a, r)" "collapse_args r = Inr as" "args' = a # as"
    by (auto simp: bind_r_eq_Inr)
  have IH: "join '','' as = join '','' r \<and> list_all closed_arg as" using "2.IH" [OF a(1) refl a(2)] .
  then have "join '','' (a # as) = join '','' (a # r)"
    using collapse_args_nonempty [OF a(2)] by (simp only: join_Cons)
  with IH collapse_arg_join [OF a(1)] a(3) show ?case by simp
qed simp

lemma split_acc_nonempty: "split_acc s sep acc \<noteq> []"
  by (induction s sep acc rule: split_acc.induct) auto

lemma join_split: "sep \<noteq> [] \<Longrightarrow> join sep (split_str s sep) = s"
proof -
  assume "sep \<noteq> []"
  then have "join sep (split_acc s sep acc) = rev acc @ s" for acc
  proof (induction s sep acc rule: split_acc.induct)
    case (2 c cs sep acc)
    then show ?case by (cases sep) (auto simp: join_Cons split_acc_nonempty prefix_def)
  qed (simp add: join_def)
  from this [of "[]"] show ?thesis by (simp add: split_str_def)
qed

lemma count_str_char: "count_str s [c] = int (count_list s c)"
  by (induction s) auto

lemma count_join: "c \<notin> set sep \<Longrightarrow> count_list (join sep xs) c = sum_list (map (\<lambda>x. count_list x c) xs)"
  by (induction xs) (auto simp: join_Cons count_list_0_iff, simp add: join_def)

lemma closed_join:
  assumes "list_all closed_arg args"
  shows "closed_arg (join '','' args)"
proof -
  have "sum_list (map (\<lambda>x. count_list x c) args) \<le> sum_list (map (\<lambda>x. count_list x d) args)"
    if "\<And>x. x \<in> set args \<Longrightarrow> count_list x c \<le> count_list x d" for c d
    using that by (intro sum_list_mono) auto
  with assms show ?thesis by (simp add: closed_arg_def list_all_iff count_str_char count_join)
qed

lemma seq_raises:
  assumes "safe_unit I m" "I s" "\<And>s. n s = Inl e"
  shows "seq m n s = Inl e"
  using assms unfolding safe_def by (fastforce simp: seq_def andthen_def)

lemma unclosed_raises:
  assumes "\<not> closed_arg s"
  shows "collapse_args (if s = [] then [] else split_str s '','') = Inl IndexError"
proof -
  have "s \<noteq> []" using assms by (auto simp: closed_arg_def)
  moreover have "collapse_args (split_str s '','') \<noteq> Inr args" for args
    using collapse_args_join [of "split_str s '',''" args] closed_join [of args] assms by (auto simp: join_split)
  ultimately show ?thesis
    by (cases "collapse_args (split_str s '','')") (auto dest: collapse_args_error)
qed

context reporter
begin

lemma CheckForNonStandardConstructs_raises:
  assumes "in_file cl linenum" "I s"
    and ns: "InnermostClass ns = Some (b, ci)" "seen_open_brace b"
    and m: "Match (CONSTRUCTOR (last (split_str (class_name ci) ''::''))) (elided cl ! nat linenum) = Some m"
    and args: "\<not> closed_arg (grp m 2)"
  shows "CheckForNonStandardConstructs filename cl linenum ns error s = Inl IndexError"
proof -
  have last: "check_constructor error filename linenum name m t = Inl IndexError" for name t
    unfolding check_constructor_def unclosed_raises [OF args] Let_def by (simp add: raise_def)
  have report: "safe_unit I (do_when g (error filename linenum c k msg))" if "listed c" "0 \<le> k" "k \<le> 5" for g c k msg
    using that by (intro safe_intros)
  have two: "seq (block A) (seq (block B) n) s = Inl IndexError"
    if "safe_unit I (block A)" "safe_unit I (block B)" "\<And>t. n t = Inl IndexError" for A B n
    using seq_raises [OF that(2) _ that(3)] that(1) assms(2) unfolding safe_def
    by (fastforce simp: seq_def [of "block A"] andthen_def)
  show ?thesis
    unfolding CheckForNonStandardConstructs_def in_file_index [OF assms(1)] let_r_simps ns(1) option.case prod.case Let_def m
    by (rule two) (intro safe_intros report; simp | simp add: ns(2) last)+
qed

end

section \<open>Properties\<close>

text \<open>C26: the arguments of a constructor are regrouped without losing text, and every argument that results
  closes at least as many angle brackets and parentheses as it opens.\<close>

theorem collapse_args_regroup:
  assumes "collapse_args args = Inr args'"
  shows "join '','' args' = join '','' args \<and> list_all closed_arg args'"
  using assms by (rule collapse_args_join)

theorem collapse_args_regroup_witness:
  "join '','' [''map<int,int> m'', ''f(a,b)''] = join '','' [''map<int'', ''int> m'', ''f(a'', ''b)'']
     \<and> list_all closed_arg [''map<int,int> m'', ''f(a,b)'']"
proof -
  have "collapse_args [''map<int'', ''int> m'', ''f(a'', ''b)''] = Inr [''map<int,int> m'', ''f(a,b)'']"
    by code_simp
  from collapse_args_regroup [OF this] show ?thesis by simp
qed

text \<open>The body of a class \<open>Foo\<close>.\<close>

definition in_class_Foo :: nesting_state where
  "in_class_Foo = init_nesting_state\<lparr>stack :=
     [(BlockInfo 0 0 True)\<lparr>kind := ClassKind \<lparr>class_name = ''Foo'', is_derived = False, access = ''public'',
        is_struct = False, class_indent = 0, last_line = 3\<rparr>\<rparr>]\<rparr>"

text \<open>C27: in the body of a class, the check of constructors raises \<open>IndexError\<close> on every line of every file that
  declares a constructor of the class whose parameters open more angle brackets or parentheses than they close,
  such as the default argument of \<open>Foo(bool b = 1 < 2);\<close>, whatever was reported before.\<close>

theorem constructor_arguments_raise:
  assumes "in_file cl linenum" and "lint_ok s" and "InnermostClass ns = Some (b, ci)" and "seen_open_brace b"
    and "Match (CONSTRUCTOR (last (split_str (class_name ci) ''::''))) (elided cl ! nat linenum) = Some m"
    and "\<not> closed_arg (grp m 2)"
  shows "CheckForNonStandardConstructs filename cl linenum ns Error s = Inl IndexError"
  using assms by (rule ok_reporter.CheckForNonStandardConstructs_raises)

theorem constructor_arguments_raise_witness:
  "\<exists>cl. CleansedLines [''  Foo(bool b = 1 < 2);''] = Inr cl
     \<and> CheckForNonStandardConstructs ''a.h'' cl 0 in_class_Foo Error init_lint = Inl IndexError"
proof -
  let ?line = "''  Foo(bool b = 1 < 2);''"
  let ?cl = "\<lparr>elided = [?line], lines = [?line], raw_lines = [?line], num_lines = 1, lines_without_raw_strings = [?line]\<rparr>"
  have cl: "CleansedLines [?line] = Inr ?cl" by code_simp
  have "\<exists>b ci. InnermostClass in_class_Foo = Some (b, ci) \<and> seen_open_brace b \<and> class_name ci = ''Foo''"
    by (simp add: InnermostClass_def in_class_Foo_def is_class_def BlockInfo_def)
  then obtain b ci where foo: "InnermostClass in_class_Foo = Some (b, ci)" "seen_open_brace b" "class_name ci = ''Foo''"
    by blast
  have "map_option (\<lambda>m. grp m 2) (Match (CONSTRUCTOR (last (split_str ''Foo'' ''::''))) ?line) = Some ''bool b = 1 < 2''" by code_simp
  then obtain m where m: "Match (CONSTRUCTOR (last (split_str (class_name ci) ''::''))) (elided ?cl ! nat 0) = Some m"
    "grp m 2 = ''bool b = 1 < 2''" using foo(3) by auto
  have args: "\<not> closed_arg (grp m 2)" unfolding m(2) by code_simp
  have ok: "lint_ok init_lint" by code_simp
  have "in_file ?cl 0" by (simp add: in_file_def cl_ok_def)
  from constructor_arguments_raise [OF this ok foo(1,2) m(1) args] cl show ?thesis by blast
qed

end
