(* ===== verification/Spacing_Checks.thy ===== *)
theory Spacing_Checks
  imports Class_Checks
begin

text \<open>
  The checks of horizontal and vertical space: \<open>CheckSpacing\<close>, \<open>CheckOperatorSpacing\<close>,
  \<open>CheckParenthesisSpacing\<close>, \<open>CheckCommaSpacing\<close>, \<open>CheckBracesSpacing\<close> with \<open>_IsType\<close>, and \<open>IsDecltype\<close>.
  The loop that masks operator names is shown to end by the number of characters that are
  not part of a word; the checks are shown to return on every line of every file.
\<close>

section \<open>Blank lines and comments\<close>

fun skip_initializers :: "cleansed_lines \<Rightarrow> int list \<Rightarrow> int result" where
  "skip_initializers cl [] = Inr (-1)"
| "skip_initializers cl (n # ns) =
     bind_r (py_index (elided cl) n) (\<lambda>line.
       if matches (rx '' {6}`w'') line then skip_initializers cl ns else Inr n)"

text \<open>Whether a blank line after an opening brace is excused by the line before it.\<close>

definition blank_exception :: "cleansed_lines \<Rightarrow> int \<Rightarrow> string \<Rightarrow> bool result" where
  "blank_exception cl linenum prev_line =
     (if matches (rx '' {6}`w'') prev_line
      then bind_r (skip_initializers cl (rev [0..linenum - 2])) (\<lambda>search_position.
        if search_position \<ge> 0
        then bind_r (py_index (elided cl) search_position) (\<lambda>l. Inr (slice_to l 5 = ''    :''))
        else Inr False)
      else Inr (matches (rx '' {4}`w[^`(]*`)`s*(const`s*)?(`{`s*$|:)'') prev_line \<or> matches '' {4}:'' prev_line))"

definition check_blank_line :: "string \<Rightarrow> cleansed_lines \<Rightarrow> int \<Rightarrow> error_fn \<Rightarrow> (lint, unit) py" where
  "check_blank_line filename cl linenum error =
     let_r (py_index (elided cl) (linenum - 1)) (\<lambda>prev_line.
       let prevbrace = rfind prev_line ''{'' in
       block
         [do_when (prevbrace \<noteq> -1 \<and> find_str (slice_from prev_line prevbrace) ''}'' = -1)
            (let_r (blank_exception cl linenum prev_line) (\<lambda>excused.
              do_when (\<not> excused)
                (error filename linenum ''whitespace/blank_line'' 2
                  ''Redundant blank line at the start of a code block should be deleted.''))),
          do_when (linenum + 1 < NumLines cl)
            (let_r (py_index (lines_without_raw_strings cl) (linenum + 1)) (\<lambda>next_line.
              do_when (next_line \<noteq> [] \<and> matches (rx ''`s*}'') next_line \<and> find_str next_line ''} else '' = -1)
                (error filename linenum ''whitespace/blank_line'' 3
                  ''Redundant blank line at the end of a code block should be deleted.''))),
          (case Match (rx ''`s*(public|protected|private):'') prev_line of
             None \<Rightarrow> pass
           | Some matched \<Rightarrow> error filename linenum ''whitespace/blank_line'' 3
               (msg_of [''Do not leave a blank line after '', [dquote], grp matched 1, '':'', [dquote]]))])"

definition next_line_start :: "cleansed_lines \<Rightarrow> int \<Rightarrow> int result" where
  "next_line_start cl linenum =
     (if linenum + 1 < NumLines cl
      then bind_r (py_index (lines_without_raw_strings cl) (linenum + 1)) (\<lambda>next_line.
        Inr (int (length next_line) - int (length (lstrip next_line))))
      else Inr 0)"

definition CheckSpacing :: "string \<Rightarrow> cleansed_lines \<Rightarrow> int \<Rightarrow> nesting_state \<Rightarrow> error_fn \<Rightarrow> (lint, unit) py" where
  "CheckSpacing filename cl linenum ns error =
     let_r (py_index (lines_without_raw_strings cl) linenum) (\<lambda>raw.
       seq (do_when (IsBlankLine raw \<and> \<not> InNamespaceBody ns \<and> \<not> InExternC ns)
             (check_blank_line filename cl linenum error))
       (let_r (next_line_start cl linenum) (\<lambda>start.
         seq (CheckComment raw filename linenum start error)
         (let_r (py_index (elided cl) linenum) (\<lambda>line.
           block
             [do_when (found (rx ''`w`s+`['') line \<and> \<not> found (rx ''(?:delete|return)`s+`['') line)
                (error filename linenum ''whitespace/braces'' 5 ''Extra space before [''),
              do_when (found (rx ''for *`(.*[^:]:[^: ]'') line \<or> found (rx ''for *`(.*[^: ]:[^:]'') line)
                (error filename linenum ''whitespace/forcolon'' 2
                  ''Missing space around colon in range-based for loop'')])))))"

section \<open>Operators\<close>

definition OPERATOR_NAME :: string where
  "OPERATOR_NAME = rx ''^(.*`boperator`b)(`S+)(`s*`(.*)$''"

text \<open>The characters of a line that are not part of a word: masking an operator name removes some.\<close>

definition symbols :: "string \<Rightarrow> nat" where
  "symbols line = length (filter (\<lambda>c. \<not> is_word c) line)"

definition operator_regex :: regex where
  "operator_regex = RSeq (RRep True 0 None RAny) (RSeq RWordB (RSeq (RChar CHR ''o'') (RSeq (RChar CHR ''p'')
     (RSeq (RChar CHR ''e'') (RSeq (RChar CHR ''r'') (RSeq (RChar CHR ''a'') (RSeq (RChar CHR ''t'')
     (RSeq (RChar CHR ''o'') (RSeq (RChar CHR ''r'') RWordB)))))))))"

abbreviation sp :: "(char \<times> char) list" where
  "sp \<equiv> [(CHR '' '', CHR '' ''), (tab, cr)]"

lemma OPERATOR_NAME_compiled:
  "compiled OPERATOR_NAME = RSeq RBol (RSeq (RGroup 1 operator_regex) (RSeq (RGroup 2 (RRep True 1 None (RSet True sp)))
     (RSeq (RGroup 3 (RSeq (RRep True 0 None (RSet False sp)) (RSeq (RChar CHR ''('') (RRep True 0 None RAny)))) REol)))"
  by code_simp

lemma operator_regex_end:
  assumes "st \<in> set (ml operator_regex (MSt [] line []))"
  shows "\<exists>u v. line = (u @ ''operator'') @ v \<and> st = MSt (rev (u @ ''operator'')) v [] \<and> (v = [] \<or> \<not> is_word (hd v))"
proof -
  have "is_word (CHR ''r'')" by code_simp
  then show ?thesis
    using assms unfolding operator_regex_def seq_mem word_mem
    by (fastforce simp: word_before_def word_after_def split: list.splits)
qed

lemma operator_name_match:
  assumes "Match OPERATOR_NAME line = Some m"
  shows "\<exists>c t v. line = grp m 1 @ grp m 2 @ grp m 3 @ v \<and> v \<in> {[], [nl]} \<and> grp m 2 = c # t \<and> \<not> is_word c
    \<and> suffix ''operator'' (grp m 1) \<and> list_all (in_set True sp) (grp m 2)
    \<and> prefix ''('' (dropWhile (in_set False sp) (grp m 3))"
proof -
  from assms obtain st where st: "st \<in> set (ml (compiled OPERATOR_NAME) (MSt [] line []))" "m_caps m = caps st"
    by (rule Match_Some)
  from st(1) obtain w where w: "w \<in> set (ml operator_regex (MSt [] line []))"
    and st2: "st \<in> set (ml (RSeq (RGroup 2 (RRep True 1 None (RSet True sp)))
        (RSeq (RGroup 3 (RSeq (RRep True 0 None (RSet False sp)) (RSeq (RChar CHR ''('') (RRep True 0 None RAny)))) REol))
        (close_group 1 (MSt [] line []) w))"
    unfolding OPERATOR_NAME_compiled seq_mem(1) group_mem [of _ 1] by blast
  from operator_regex_end [OF w] obtain u v where u: "line = u @ v" "w = MSt (rev u) v []" "v = [] \<or> \<not> is_word (hd v)"
    "suffix ''operator'' u" by (auto simp: suffix_def)
  from st2 obtain t v' where t: "v = t @ v'" "1 \<le> length t" "list_all (in_set True sp) t"
    and st3: "st \<in> set (ml (RSeq (RGroup 3 (RSeq (RRep True 0 None (RSet False sp)) (RSeq (RChar CHR ''('') (RRep True 0 None RAny)))) REol)
      (MSt (rev t @ rev u) v' [(2, length u, t), (1, 0, u)]))"
    unfolding u(1,2) close_group_append seq_mem(6) by (auto simp del: ml.simps)
  from st3 obtain x where x: "x \<in> set (ml (RSeq (RRep True 0 None (RSet False sp)) (RSeq (RChar CHR ''('') (RRep True 0 None RAny)))
      (MSt (rev t @ rev u) v' [(2, length u, t), (1, 0, u)]))"
    "st \<in> set (ml REol (close_group 3 (MSt (rev t @ rev u) v' [(2, length u, t), (1, 0, u)]) x))"
    unfolding group_mem by blast
  from x(1) obtain a r v3 where a: "list_all (in_set False sp) a" and t3: "v' = (a @ CHR ''('' # r) @ v3"
    "x = MSt (rev (a @ CHR ''('' # r) @ rev t @ rev u) v3 [(2, length u, t), (1, 0, u)]"
    unfolding seq_mem mem_rep_any mst.sel by auto
  let ?t3 = "a @ CHR ''('' # r"
  have k: "caps st = [(3, length (rev t @ rev u), ?t3), (2, length u, t), (1, 0, u)]" "v3 \<in> {[], [nl]}"
    using x(2) unfolding t3 close_group_append by (auto simp: seq_mem)
  have "dropWhile (in_set False sp) ?t3 = CHR ''('' # r"
    using a by (simp add: dropWhile_append list_all_iff in_set_def in_range_def)
  moreover from k(1) have "grp m 1 = u" "grp m 2 = t" "grp m 3 = ?t3" using st(2) by (simp_all add: grp_def group_def)
  ultimately show ?thesis using u t t3(1) k(2) by (cases t) auto
qed

definition mask_operator :: "mobj \<Rightarrow> string" where
  "mask_operator m = grp m 1 @ replicate (length (grp m 2)) (CHR ''_'') @ grp m 3"

lemma mask_operator_decreases: "Match OPERATOR_NAME line = Some m \<Longrightarrow> symbols (mask_operator m) < symbols line"
proof -
  assume "Match OPERATOR_NAME line = Some m"
  from operator_name_match [OF this] obtain c t v where
    "line = grp m 1 @ grp m 2 @ grp m 3 @ v" "grp m 2 = c # t" "\<not> is_word c" by blast
  moreover have "is_word (CHR ''_'')" by code_simp
  ultimately show ?thesis by (simp add: mask_operator_def symbols_def)
qed

function mask_operators :: "string \<Rightarrow> string" where
  "mask_operators line =
     (case Match OPERATOR_NAME line of None \<Rightarrow> line | Some m \<Rightarrow> mask_operators (mask_operator m))"
  by pat_completeness auto
termination
  by (relation "measure symbols") (auto simp: mask_operator_decreases)

declare mask_operators.simps [simp del]

lemma mask_operators_length: "length (mask_operators line) \<le> length line"
proof (induction line rule: mask_operators.induct)
  case (1 line)
  show ?case
  proof (cases "Match OPERATOR_NAME line")
    case (Some m)
    from operator_name_match [OF this] have "length (mask_operator m) \<le> length line"
      by (auto simp: mask_operator_def)
    with 1 [OF Some] Some show ?thesis by (subst mask_operators.simps) simp
  qed (subst mask_operators.simps, simp)
qed

section \<open>The backward search returns\<close>

lemma start_step_found: "start_step line i c st = Found_start p \<Longrightarrow> p = i \<or> p = -1"
  by (auto simp: start_step_def split: if_splits list.splits)

lemma find_start_total:
  "i < int (length line) \<Longrightarrow> \<exists>p st'. FindStartOfExpressionInLine line i st = Inr (p, st') \<and> p < int (length line)"
proof (induction line i st rule: FindStartOfExpressionInLine.induct)
  case (1 line i st)
  show ?case
  proof (cases "i \<ge> 0")
    case True
    with "1.prems" have c: "py_index line i = Inr (line ! nat i)" by simp
    show ?thesis
    proof (cases "start_step line i (line ! nat i) st")
      case (Back extra st')
      with "1.IH" [OF True c Back] "1.prems" c True show ?thesis
        by (subst FindStartOfExpressionInLine.simps) simp
    next
      case (Found_start p)
      with start_step_found [OF this] "1.prems" c True show ?thesis
        by (subst FindStartOfExpressionInLine.simps) auto
    qed
  qed (subst FindStartOfExpressionInLine.simps, simp)
qed

definition start_found :: "cleansed_lines \<Rightarrow> string \<times> int \<times> int \<Rightarrow> bool" where
  "start_found cl = (\<lambda>(line, l, p). 0 \<le> p \<longrightarrow> in_file cl l \<and> line = elided cl ! nat l \<and> p < int (length line))"

lemma reverse_close_from_total:
  "(\<And>l. l \<in> set ls \<Longrightarrow> in_file cl l) \<Longrightarrow> \<exists>r. reverse_close_from cl line ls st = Inr r \<and> start_found cl r"
proof (induction ls arbitrary: line st)
  case (Cons l ls)
  then have l: "in_file cl l" by simp
  let ?line = "elided cl ! nat l"
  obtain p st' where fs: "FindStartOfExpressionInLine ?line (int (length ?line) - 1) (the st) = Inr (p, st')"
      "p < int (length ?line)"
    using find_start_total [of "int (length ?line) - 1" ?line "the st"] by auto
  have "\<exists>r. reverse_close_from cl ?line ls st' = Inr r \<and> start_found cl r"
    using Cons by simp
  with fs l show ?case by (cases st) (auto simp: start_found_def)
qed (simp add: start_found_def)

lemma ReverseCloseExpression_total:
  assumes "in_file cl l" "- int (length (elided cl ! nat l)) \<le> p" "p < int (length (elided cl ! nat l))"
  shows "\<exists>line l' e. ReverseCloseExpression cl l p = Inr (line, l', e) \<and> start_found cl (line, l', e)"
proof -
  let ?line = "elided cl ! nat l"
  obtain q st where fs: "FindStartOfExpressionInLine ?line p [] = Inr (q, st)" "q < int (length ?line)"
    using find_start_total [OF assms(3)] by blast
  obtain r where r: "reverse_close_from cl ?line (rev [0..l - 1]) st = Inr r" "start_found cl r"
    using reverse_close_from_total [of "rev [0..l - 1]" cl ?line st] assms(1) by (auto simp: in_file_def)
  have "\<exists>c. py_index ?line p = Inr c" using assms(2,3) by (auto simp: py_index_def from_start_def)
  with r show ?thesis using assms(1) fs by (cases r) (auto simp: ReverseCloseExpression_def start_found_def)
qed

section \<open>Operator spacing\<close>

definition check_angles :: "string \<Rightarrow> cleansed_lines \<Rightarrow> int \<Rightarrow> string \<Rightarrow> error_fn \<Rightarrow> (lint, unit) py" where
  "check_angles filename cl linenum line error =
     block
       [(case Match (rx ''^(.*[^`s<])<[^`s=<,]'') line of
           None \<Rightarrow> pass
         | Some m \<Rightarrow>
             let_r (CloseExpression cl linenum (int (length (grp m 1)))) (\<lambda>(_, _, end_pos).
               do_when (end_pos \<le> -1)
                 (error filename linenum ''whitespace/operators'' 3 ''Missing spaces around <''))),
        (case Match (rx ''^(.*[^-`s>])>[^`s=>,]'') line of
           None \<Rightarrow> pass
         | Some m \<Rightarrow>
             let_r (ReverseCloseExpression cl linenum (int (length (grp m 1)))) (\<lambda>(_, _, start_pos).
               do_when (start_pos \<le> -1)
                 (error filename linenum ''whitespace/operators'' 3 ''Missing spaces around >'')))]"

definition CheckOperatorSpacing :: "string \<Rightarrow> cleansed_lines \<Rightarrow> int \<Rightarrow> error_fn \<Rightarrow> (lint, unit) py" where
  "CheckOperatorSpacing filename cl linenum error =
     let_r (py_index (elided cl) linenum) (\<lambda>line0.
       let line = mask_operators line0 in
       block
         [do_when ((found (rx ''[`w.]='') line \<or> found (rx ''=[`w.]'') line)
              \<and> \<not> found (rx ''`b(if|while|for) '') line
              \<and> \<not> found (rx ''(>=|<=|==|!=|&=|`^=|`|=|`+=|`*=|`/=|`%=)'') line
              \<and> \<not> found ''operator='' line)
            (error filename linenum ''whitespace/operators'' 4 ''Missing spaces around =''),
          (case Search (rx ''[^<>=!`s](==|!=|<=|>=|`|`|)[^<>=!`s,;`)]'') line of
             Some m \<Rightarrow> error filename linenum ''whitespace/operators'' 3
               (msg_of [''Missing spaces around '', grp m 1])
           | None \<Rightarrow>
               do_when (\<not> matches ''#.*include'' line) (check_angles filename cl linenum line error)),
          (case Search (rx ''(operator|[^`s(<])(?:L|UL|LL|ULL|l|ul|ll|ull)?<<([^`s,=<])'') line of
             None \<Rightarrow> pass
           | Some m \<Rightarrow>
               do_when (\<not> (isdigit (grp m 1) \<and> isdigit (grp m 2)) \<and> \<not> (grp m 1 = ''operator'' \<and> grp m 2 = '';''))
                 (error filename linenum ''whitespace/operators'' 3 ''Missing spaces around <<'')),
          do_when (found ''>>[a-zA-Z_]'' line)
            (error filename linenum ''whitespace/operators'' 3 ''Missing spaces around >>''),
          (case Search (rx ''(!`s|~`s|[`s]--[`s;]|[`s]`+`+[`s;])'') line of
             None \<Rightarrow> pass
           | Some m \<Rightarrow> error filename linenum ''whitespace/operators'' 4
               (msg_of [''Extra space for operator '', grp m 1]))])"

section \<open>Parentheses, commas and braces\<close>

definition CheckParenthesisSpacing :: "string \<Rightarrow> cleansed_lines \<Rightarrow> int \<Rightarrow> error_fn \<Rightarrow> (lint, unit) py" where
  "CheckParenthesisSpacing filename cl linenum error =
     let_r (py_index (elided cl) linenum) (\<lambda>line.
       block
         [(case Search (rx '' (if`(|for`(|while`(|switch`()'') line of
             None \<Rightarrow> pass
           | Some m \<Rightarrow> error filename linenum ''whitespace/parens'' 5
               (msg_of [''Missing space before ( in '', grp m 1])),
          (case Search (rx ''`b(if|for|while|switch)`s*`(([ ]*)(.).*[^ ]+([ ]*)`)`s*{`s*$'') line of
             None \<Rightarrow> pass
           | Some m \<Rightarrow> block
               [do_when (length (grp m 2) \<noteq> length (grp m 4)
                    \<and> \<not> (grp m 3 = '';'' \<and> length (grp m 2) = 1 + length (grp m 4)
                         \<or> grp m 2 = [] \<and> found (rx ''`bfor`s*`(.*; `)'') line))
                  (error filename linenum ''whitespace/parens'' 5
                    (msg_of [''Mismatching spaces inside () in '', grp m 1])),
                do_when (length (grp m 2) \<notin> {0, 1})
                  (error filename linenum ''whitespace/parens'' 5
                    (msg_of [''Should have zero or one spaces inside ( and ) in '', grp m 1]))])])"

definition CheckCommaSpacing :: "string \<Rightarrow> cleansed_lines \<Rightarrow> int \<Rightarrow> error_fn \<Rightarrow> (lint, unit) py" where
  "CheckCommaSpacing filename cl linenum error =
     let_r (py_index (elided cl) linenum) (\<lambda>line.
     let_r (py_index (lines_without_raw_strings cl) linenum) (\<lambda>raw.
       block
         [do_when (found (rx '',[^,`s]'') (ReplaceAll (rx ''`boperator`s*,`s*`('') ''F('' line) \<and> found (rx '',[^,`s]'') raw)
            (error filename linenum ''whitespace/comma'' 3 ''Missing space after ,''),
          do_when (found (rx '';[^`s};``)/]'') line)
            (error filename linenum ''whitespace/semicolon'' 3 ''Missing space after ;'')]))"

definition TYPES :: string where
  "TYPES = ''^(?:(char(16_t|32_t)?)|wchar_t|bool|short|int|long|signed|unsigned|float|double|(ptrdiff_t|size_t|max_align_t|nullptr_t)|(u?int(_fast|_least)?(8|16|32|64)_t)|(u?int(max|ptr)_t)|)$''"

fun find_template :: "cleansed_lines \<Rightarrow> int list \<Rightarrow> int option result" where
  "find_template cl [] = Inr None"
| "find_template cl (n # ns) =
     bind_r (py_index (elided cl) n) (\<lambda>line.
       if find_str line ''template'' \<ge> 0 then Inr (Some n) else find_template cl ns)"

fun search_lines :: "cleansed_lines \<Rightarrow> string \<Rightarrow> int list \<Rightarrow> bool result" where
  "search_lines cl pattern [] = Inr False"
| "search_lines cl pattern (n # ns) =
     bind_r (py_index (elided cl) n) (\<lambda>line. if found pattern line then Inr True else search_lines cl pattern ns)"

text \<open>The walk up the nesting stack, whose top comes first.\<close>

fun template_parameter :: "cleansed_lines \<Rightarrow> string \<Rightarrow> block_info list \<Rightarrow> bool result" where
  "template_parameter cl pattern [] = Inr False"
| "template_parameter cl pattern (b # bs) =
     (if is_namespace b then Inr False
      else
        let last_line = starting_linenum b;
            next_block_start = (case bs of [] \<Rightarrow> 0 | outer # _ \<Rightarrow> starting_linenum outer)
        in bind_r (find_template cl (rev [next_block_start..last_line])) (\<lambda>first_line.
             case first_line of
               None \<Rightarrow> template_parameter cl pattern bs
             | Some n \<Rightarrow>
                 bind_r (search_lines cl pattern [n..last_line]) (\<lambda>hit.
                   if hit then Inr True else template_parameter cl pattern bs)))"

definition last_token :: "string \<Rightarrow> string" where
  "last_token expr = (case Match (rx ''^.*(`b`S+)$'') expr of None \<Rightarrow> expr | Some m \<Rightarrow> grp m 1)"

definition IsType :: "cleansed_lines \<Rightarrow> nesting_state \<Rightarrow> string \<Rightarrow> bool result" where
  "IsType cl ns expr =
     (let token = last_token expr in
      if matches TYPES token then Inr True
      else template_parameter cl
             (rx ''`b(?:typename|class|struct)`s+'' @ re_escape token @ rx ''`b'') (stack ns))"

fun append_lines :: "cleansed_lines \<Rightarrow> int list \<Rightarrow> string \<Rightarrow> string result" where
  "append_lines cl [] acc = Inr acc"
| "append_lines cl (n # ns) acc = bind_r (py_index (elided cl) n) (\<lambda>line. append_lines cl ns (acc @ line))"

definition check_space_before_brace :: "string \<Rightarrow> cleansed_lines \<Rightarrow> int \<Rightarrow> nesting_state \<Rightarrow> string \<Rightarrow> error_fn \<Rightarrow> (lint, unit) py" where
  "check_space_before_brace filename cl linenum ns leading_text error =
     let_r (CloseExpression cl linenum (int (length leading_text))) (\<lambda>(endline, endlinenum, endpos).
       let_r (append_lines cl [endlinenum + 1..min (endlinenum + 3) (NumLines cl - 1) - 1]
               (if endpos > -1 then slice_from endline endpos else [])) (\<lambda>trailing_text.
         if matches (rx ''^[`s}]*[{.;,)<>`]:]'') trailing_text then pass
         else let_r (IsType cl ns leading_text) (\<lambda>is_type.
           do_when (\<not> is_type)
             (error filename linenum ''whitespace/braces'' 5 ''Missing space before {''))))"

definition CheckBracesSpacing :: "string \<Rightarrow> cleansed_lines \<Rightarrow> int \<Rightarrow> nesting_state \<Rightarrow> error_fn \<Rightarrow> (lint, unit) py" where
  "CheckBracesSpacing filename cl linenum ns error =
     let_r (py_index (elided cl) linenum) (\<lambda>line.
       block
         [(case Match ''^(.*[^ ({>]){'' line of
             None \<Rightarrow> pass
           | Some m \<Rightarrow> check_space_before_brace filename cl linenum ns (grp m 1) error),
          do_when (found ''}else'' line)
            (error filename linenum ''whitespace/braces'' 5 ''Missing space before else''),
          (if found (rx '':`s*;`s*$'') line
           then error filename linenum ''whitespace/semicolon'' 5
             ''Semicolon defining empty statement. Use {} instead.''
           else if found (rx ''^`s*;`s*$'') line
           then error filename linenum ''whitespace/semicolon'' 5
             ''Line contains only semicolon. If this should be an empty statement, use {} instead.''
           else do_when (found (rx ''`s+;`s*$'') line \<and> \<not> found (rx ''`bfor`b'') line)
             (error filename linenum ''whitespace/semicolon'' 5
               ''Extra space before last semicolon. If this should be an empty statement, use {} instead.''))])"

definition IsDecltype :: "cleansed_lines \<Rightarrow> int \<Rightarrow> int \<Rightarrow> bool result" where
  "IsDecltype cl linenum column =
     bind_r (ReverseCloseExpression cl linenum column) (\<lambda>(text, _, start_col).
       Inr (start_col \<ge> 0 \<and> found (rx ''`bdecltype`s*$'') (py_slice text 0 start_col)))"

section \<open>The checks return\<close>

lemma skip_initializers_total:
  "(\<And>n. n \<in> set ns \<Longrightarrow> in_file cl n) \<Longrightarrow>
    \<exists>r. skip_initializers cl ns = Inr r \<and> (0 \<le> r \<longrightarrow> in_file cl r)"
  by (induction ns) auto

lemma blank_exception_total:
  assumes "in_file cl linenum"
  shows "\<exists>b. blank_exception cl linenum prev = Inr b"
proof -
  from assms have "\<And>n. n \<in> set (rev [0..linenum - 2]) \<Longrightarrow> in_file cl n" by (auto simp: in_file_def)
  from skip_initializers_total [OF this] obtain r where
    r: "skip_initializers cl (rev [0..linenum - 2]) = Inr r" "0 \<le> r \<longrightarrow> in_file cl r" by blast
  show ?thesis unfolding blank_exception_def r(1) bind_r_simps
    by (intro total_if) (use r(2) in auto)
qed

lemma previous_line:
  "in_file cl linenum \<Longrightarrow> \<exists>line. py_index (elided cl) (linenum - 1) = Inr line"
  by (auto simp: py_index_def from_start_def in_file_def cl_ok_def)

lemma next_line_start_total: "in_file cl linenum \<Longrightarrow> \<exists>n. next_line_start cl linenum = Inr n"
  by (auto simp: next_line_start_def NumLines_def in_file_def cl_ok_def)

lemma next_in_file: "in_file cl linenum \<Longrightarrow> linenum + 1 < NumLines cl \<Longrightarrow> in_file cl (linenum + 1)"
  by (simp add: in_file_def NumLines_def)

lemma angle_patterns:
  "head_group 1 (CHR ''<'') (compiled (rx ''^(.*[^`s<])<[^`s=<,]''))"
  "head_group 1 (CHR ''>'') (compiled (rx ''^(.*[^-`s>])>[^`s=>,]''))"
  "head_group 1 (CHR ''{'') (compiled ''^(.*[^ ({>]){'')"
  by code_simp+

lemma head_group_length:
  assumes "head_group n c (compiled p)" "Match p s = Some m"
  shows "length (grp m n) < length s"
proof -
  from head_group_Match [OF assms] obtain v where "s = grp m n @ c # v" by blast
  from arg_cong [OF this, of length] show ?thesis by simp
qed

lemma find_template_total:
  "(\<And>n. n \<in> set ns \<Longrightarrow> in_file cl n) \<Longrightarrow> \<exists>r. find_template cl ns = Inr r \<and> (\<forall>n. r = Some n \<longrightarrow> n \<in> set ns)"
  by (induction ns) auto

lemma search_lines_total: "(\<And>n. n \<in> set ns \<Longrightarrow> in_file cl n) \<Longrightarrow> \<exists>b. search_lines cl p ns = Inr b"
proof (induction ns)
  case (Cons n ns)
  then have "in_file cl n" "\<exists>b. search_lines cl p ns = Inr b" by simp_all
  then show ?case by (simp only: search_lines.simps in_file_index bind_r_simps) (intro total_if total_Inr)
qed (simp only: search_lines.simps total_Inr)

lemma append_lines_total: "(\<And>n. n \<in> set ns \<Longrightarrow> in_file cl n) \<Longrightarrow> \<exists>t. append_lines cl ns acc = Inr t"
  by (induction ns arbitrary: acc) auto

lemma template_parameter_total:
  assumes "cl_ok cl" and "\<forall>b \<in> set bs. within (num_lines cl) (starting_linenum b)"
  shows "\<exists>b. template_parameter cl p bs = Inr b"
  using assms(2)
proof (induction bs)
  case (Cons b bs)
  let ?start = "case bs of [] \<Rightarrow> 0 | outer # _ \<Rightarrow> starting_linenum outer" and ?last = "starting_linenum b"
  have "0 \<le> ?start" "?last < num_lines cl"
    using Cons.prems by (auto simp: within_def split: list.split)
  with assms(1) have lines: "\<And>n. n \<in> set (rev [?start..?last]) \<Longrightarrow> in_file cl n" by (simp add: in_file_def)
  from find_template_total [OF this] obtain r where
    r: "find_template cl (rev [?start..?last]) = Inr r" "\<forall>n. r = Some n \<longrightarrow> n \<in> set (rev [?start..?last])" by blast
  from Cons obtain t where t: "template_parameter cl p bs = Inr t" by auto
  show ?case
  proof (cases r)
    case None
    with r(1) t show ?thesis by (simp only: template_parameter.simps Let_def bind_r_simps option.case) (intro total_if total_Inr)
  next
    case (Some n)
    with r(2) lines have "\<And>i. i \<in> set [n..?last] \<Longrightarrow> in_file cl i" by simp
    from search_lines_total [OF this] obtain h where "search_lines cl p [n..?last] = Inr h" by blast
    with r(1) t Some show ?thesis
      by (simp only: template_parameter.simps Let_def bind_r_simps option.case) (intro total_if total_Inr)
  qed
qed (simp only: template_parameter.simps total_Inr)

lemma ns_ok_stack: "ns_ok N ns \<Longrightarrow> \<forall>b \<in> set (stack ns). within N (starting_linenum b)"
  by (simp add: ns_ok_def all_blocks_def blocks_ok_def)

lemma IsType_total: "cl_ok cl \<Longrightarrow> ns_ok (num_lines cl) ns \<Longrightarrow> \<exists>b. IsType cl ns expr = Inr b"
  unfolding IsType_def Let_def
  by (intro total_if total_Inr template_parameter_total) (assumption, erule ns_ok_stack)

lemma IsDecltype_total:
  "in_file cl l \<Longrightarrow> 0 \<le> p \<Longrightarrow> p < int (length (elided cl ! nat l)) \<Longrightarrow> \<exists>b. IsDecltype cl l p = Inr b"
  using ReverseCloseExpression_total [of cl l p] by (auto simp: IsDecltype_def)

lemma CloseExpression_not_found:
  assumes "CloseExpression cl l p = Inr (line, l', e)" "\<not> 0 \<le> e"
  shows "l' = NumLines cl"
proof -
  have "close_from cl ln ls st = Inr (line, l', e) \<Longrightarrow> l' = NumLines cl" for ln ls st
    using assms(2) by (induction ls arbitrary: ln st) (auto simp: bind_r_eq_Inr split: option.splits if_splits)
  with assms show ?thesis by (auto simp: CloseExpression_def bind_r_eq_Inr split: if_splits)
qed

context reporter
begin

lemma check_blank_line_safe [safe_intros]:
  assumes "in_file cl linenum"
  shows "safe_unit I (check_blank_line filename cl linenum error)"
proof -
  obtain prev where prev: "py_index (elided cl) (linenum - 1) = Inr prev" using previous_line [OF assms] by blast
  obtain b where b: "blank_exception cl linenum prev = Inr b" using blank_exception_total [OF assms] by blast
  show ?thesis unfolding check_blank_line_def prev let_r_simps b
    by (intro safe_intros) (simp_all add: next_in_file assms)
qed

lemma CheckSpacing_safe [safe_intros]:
  assumes "in_file cl linenum"
  shows "safe_unit I (CheckSpacing filename cl linenum ns error)"
proof -
  obtain n where n: "next_line_start cl linenum = Inr n" using next_line_start_total [OF assms] by blast
  show ?thesis unfolding CheckSpacing_def n let_r_simps
    by (intro safe_intros assms) simp_all
qed

lemma check_angles_safe:
  assumes "in_file cl linenum" "length line \<le> length (elided cl ! nat linenum)"
  shows "safe_unit I (check_angles filename cl linenum line error)"
proof -
  have "safe_unit I (let_r (CloseExpression cl linenum (int (length (grp m 1)))) (\<lambda>(_, _, end_pos).
      do_when (end_pos \<le> -1) (error filename linenum ''whitespace/operators'' 3 ''Missing spaces around <'')))"
    if "Match (rx ''^(.*[^`s<])<[^`s=<,]'') line = Some m" for m
  proof -
    from head_group_length [OF angle_patterns(1) that] assms CloseExpression_total [of cl linenum "int (length (grp m 1))"]
    obtain r where "CloseExpression cl linenum (int (length (grp m 1))) = Inr r" by auto
    then show ?thesis by (simp only: let_r_simps) (intro safe_intros; simp)
  qed
  moreover have "safe_unit I (let_r (ReverseCloseExpression cl linenum (int (length (grp m 1)))) (\<lambda>(_, _, start_pos).
      do_when (start_pos \<le> -1) (error filename linenum ''whitespace/operators'' 3 ''Missing spaces around >'')))"
    if "Match (rx ''^(.*[^-`s>])>[^`s=>,]'') line = Some m" for m
  proof -
    from head_group_length [OF angle_patterns(2) that] assms ReverseCloseExpression_total [of cl linenum "int (length (grp m 1))"]
    obtain r where "ReverseCloseExpression cl linenum (int (length (grp m 1))) = Inr r" by auto
    then show ?thesis by (simp only: let_r_simps) (intro safe_intros; simp)
  qed
  ultimately show ?thesis unfolding check_angles_def by (intro safe_intros) blast+
qed

lemma CheckOperatorSpacing_safe [safe_intros]:
  assumes "in_file cl linenum"
  shows "safe_unit I (CheckOperatorSpacing filename cl linenum error)"
  unfolding CheckOperatorSpacing_def
  by (intro safe_intros assms check_angles_safe) (simp_all add: mask_operators_length)

lemma CheckParenthesisSpacing_safe [safe_intros]:
  "in_file cl linenum \<Longrightarrow> safe_unit I (CheckParenthesisSpacing filename cl linenum error)"
  unfolding CheckParenthesisSpacing_def by (intro safe_intros) simp_all

lemma CheckCommaSpacing_safe [safe_intros]:
  "in_file cl linenum \<Longrightarrow> safe_unit I (CheckCommaSpacing filename cl linenum error)"
  unfolding CheckCommaSpacing_def by (intro safe_intros) simp_all

lemma check_space_before_brace_safe:
  assumes "in_file cl linenum" "ns_ok (num_lines cl) ns" "length leading < length (elided cl ! nat linenum)"
  shows "safe_unit I (check_space_before_brace filename cl linenum ns leading error)"
proof -
  obtain line l e where ce: "CloseExpression cl linenum (int (length leading)) = Inr (line, l, e)"
    using CloseExpression_total [OF assms(1), of "int (length leading)"] assms(3) by auto
  have "0 \<le> l"
    using CloseExpression_in_file [OF assms(1) ce] CloseExpression_not_found [OF ce] assms(1)
    by (cases "0 \<le> e") (auto simp: in_file_def NumLines_def)
  with assms(1) have "\<And>n. n \<in> set [l + 1..min (l + 3) (NumLines cl - 1) - 1] \<Longrightarrow> in_file cl n"
    by (simp add: in_file_def NumLines_def)
  from append_lines_total [OF this] obtain t where
    t: "append_lines cl [l + 1..min (l + 3) (NumLines cl - 1) - 1] (if e > -1 then slice_from line e else []) = Inr t"
    by blast
  obtain b where b: "IsType cl ns leading = Inr b" using IsType_total [of cl ns] assms by (auto simp: in_file_def)
  show ?thesis unfolding check_space_before_brace_def ce let_r_simps prod.case t b
    by (intro safe_intros) simp_all
qed

lemma CheckBracesSpacing_safe [safe_intros]:
  "in_file cl linenum \<Longrightarrow> ns_ok (num_lines cl) ns \<Longrightarrow> safe_unit I (CheckBracesSpacing filename cl linenum ns error)"
  unfolding CheckBracesSpacing_def
  by (intro safe_intros check_space_before_brace_safe) (simp_all del: One_nat_def add: head_group_length [OF angle_patterns(3)])

end

section \<open>Properties\<close>

text \<open>Some characters of a line are replaced by underscores, the others stay in their columns; nothing is cut but line
  feeds at the end.\<close>

definition masks :: "string \<Rightarrow> string \<Rightarrow> bool" where
  "masks line line' \<longleftrightarrow> (\<exists>u n. line = u @ replicate n nl \<and> list_all2 (\<lambda>c d. d = c \<or> d = CHR ''_'') u line')"

lemma masks_trans: "masks a b \<Longrightarrow> masks b c \<Longrightarrow> masks a c"
proof -
  let ?R = "\<lambda>c d. d = c \<or> d = CHR ''_''"
  assume "masks a b" "masks b c"
  then obtain u n v k where a: "a = u @ replicate n nl" "list_all2 ?R u b" and b: "b = v @ replicate k nl" "list_all2 ?R v c"
    unfolding masks_def by blast
  from a(2) b(1) obtain x y where x: "u = x @ y" "list_all2 ?R x v" "list_all2 ?R y (replicate k nl)"
    by (auto simp: list_all2_append2)
  have "y = replicate k nl" using x(3) by (auto simp: list_all2_conv_all_nth intro!: nth_equalityI)
  moreover have "list_all2 ?R x c" using list_all2_trans [OF _ x(2) b(2), of ?R] by auto
  ultimately show "masks a c" unfolding masks_def a(1) x(1)
    by (intro exI [of _ x] exI [of _ "k + n"]) (simp add: replicate_add)
qed

lemma mask_operator_masks: "Match OPERATOR_NAME line = Some m \<Longrightarrow> masks line (mask_operator m)"
proof -
  assume "Match OPERATOR_NAME line = Some m"
  from operator_name_match [OF this] obtain v where v: "line = (grp m 1 @ grp m 2 @ grp m 3) @ v" "v \<in> {[], [nl]}" by auto
  have "\<exists>n. v = replicate n nl" using v(2) by (auto intro: exI [of _ 0] exI [of _ 1])
  moreover have "list_all2 (\<lambda>c d. d = c \<or> d = CHR ''_'') xs (replicate (length xs) (CHR ''_''))" for xs :: string
    by (induction xs) auto
  then have "list_all2 (\<lambda>c d. d = c \<or> d = CHR ''_'') (grp m 1 @ grp m 2 @ grp m 3) (mask_operator m)"
    by (simp add: mask_operator_def list_all2_append list_all2_refl)
  ultimately show ?thesis unfolding masks_def v(1) by blast
qed

lemma masks_refl: "masks line line"
  unfolding masks_def by (intro exI [of _ line] exI [of _ 0]) (simp add: list_all2_refl)

text \<open>One round of the loop, without regular expressions: the symbols between the word \<open>operator\<close> and an opening
  parenthesis become underscores.\<close>

definition hides :: "string \<Rightarrow> string \<Rightarrow> bool" where
  "hides line line' \<longleftrightarrow>
     (\<exists>pre name rest v. line = pre @ ''operator'' @ name @ rest @ v \<and> v \<in> {[], [nl]}
        \<and> line' = pre @ ''operator'' @ replicate (length name) (CHR ''_'') @ rest
        \<and> name \<noteq> [] \<and> list_all (\<lambda>c. \<not> ascii_space c) name \<and> prefix ''('' (dropWhile ascii_space rest))"

lemma mask_operator_hides: "Match OPERATOR_NAME line = Some m \<Longrightarrow> hides line (mask_operator m)"
proof -
  assume "Match OPERATOR_NAME line = Some m"
  from operator_name_match [OF this] obtain pre v where v: "grp m 1 = pre @ ''operator''"
    "line = (pre @ ''operator'') @ grp m 2 @ grp m 3 @ v" "v \<in> {[], [nl]}" "grp m 2 \<noteq> []"
    "list_all (in_set True sp) (grp m 2)" "prefix ''('' (dropWhile (in_set False sp) (grp m 3))"
    by (auto simp: suffix_def)
  have "in_set False sp = ascii_space" "in_set True sp = (\<lambda>c. \<not> ascii_space c)"
    by (auto simp: in_set_def ascii_space_def fun_eq_iff)
  with v show ?thesis unfolding hides_def
    by (intro exI [of _ pre] exI [of _ "grp m 2"] exI [of _ "grp m 3"] exI [of _ v]) (simp add: mask_operator_def)
qed

text \<open>C36: the loop that hides the names of operators ends on every line, it does nothing but such rounds, and nothing is
  left that it would hide.  Every character that is not replaced by an underscore is still in its column; the
  result is as long as the line, but for line feeds at its end, which no line of a file has.\<close>

theorem mask_operators_result:
  "hides\<^sup>*\<^sup>* line (mask_operators line) \<and> Match OPERATOR_NAME (mask_operators line) = None \<and> masks line (mask_operators line)"
proof (induction line rule: mask_operators.induct)
  case (1 line)
  show ?case
  proof (cases "Match OPERATOR_NAME line")
    case None
    then show ?thesis by (simp add: mask_operators.simps [of line] masks_refl)
  next
    case (Some m)
    with 1 [OF Some] mask_operator_masks [OF Some] mask_operator_hides [OF Some] show ?thesis
      by (auto simp: mask_operators.simps [of line] intro: masks_trans converse_rtranclp_into_rtranclp)
  qed
qed

end
