(* ===== verification/Brace_Checks.thy ===== *)
theory Brace_Checks
  imports Spacing_Checks
begin

text \<open>
  The checks of braces and blocks: \<open>CheckSectionSpacing\<close>, \<open>GetPreviousNonBlankLine\<close>, \<open>CheckBraces\<close>,
  \<open>CheckTrailingSemicolon\<close> and \<open>CheckEmptyBlockBody\<close>.  A loop over line numbers is a function on the
  list of the lines it may still visit; what the loop found is its result.
\<close>

section \<open>Sections of a class\<close>

fun end_of_class_head :: "cleansed_lines \<Rightarrow> int list \<Rightarrow> int \<Rightarrow> int result" where
  "end_of_class_head cl [] start = Inr start"
| "end_of_class_head cl (i # is) start =
     bind_r (py_index (lines cl) i) (\<lambda>line.
       if found (rx ''`{`s*$'') line then Inr i else end_of_class_head cl is start)"

definition CheckSectionSpacing :: "string \<Rightarrow> cleansed_lines \<Rightarrow> block_info \<times> class_info \<Rightarrow> int \<Rightarrow> error_fn \<Rightarrow> (lint, unit) py" where
  "CheckSectionSpacing filename cl info linenum error =
     (case info of (b, ci) \<Rightarrow>
       if last_line ci - starting_linenum b \<le> 24 \<or> linenum \<le> starting_linenum b then pass
       else let_r (py_index (lines cl) linenum) (\<lambda>line.
         case Match (rx ''`s*(public|protected|private):'') line of
           None \<Rightarrow> pass
         | Some matched \<Rightarrow>
             let_r (py_index (lines cl) (linenum - 1)) (\<lambda>prev_line.
               do_when (\<not> IsBlankLine prev_line \<and> \<not> found (rx ''`b(class|struct)`b'') prev_line
                   \<and> \<not> found (rx ''``$'') prev_line)
                 (let_r (end_of_class_head cl [starting_linenum b..linenum - 1] (starting_linenum b)) (\<lambda>end_class_head.
                   do_when (end_class_head < linenum - 1)
                     (error filename linenum ''whitespace/blank_line'' 3
                       (msg_of [[dquote], grp matched 1, '':'', [dquote], '' should be preceded by a blank line''])))))))"

section \<open>The previous line with text\<close>

fun previous_non_blank :: "cleansed_lines \<Rightarrow> int list \<Rightarrow> (string \<times> int) result" where
  "previous_non_blank cl [] = Inr ([], -1)"
| "previous_non_blank cl (n # ns) =
     bind_r (py_index (elided cl) n) (\<lambda>prevline.
       if \<not> IsBlankLine prevline then Inr (prevline, n) else previous_non_blank cl ns)"

definition GetPreviousNonBlankLine :: "cleansed_lines \<Rightarrow> int \<Rightarrow> (string \<times> int) result" where
  "GetPreviousNonBlankLine cl linenum = previous_non_blank cl (rev [0..linenum - 1])"

text \<open>On the code points 0 to 255 no character is wide or combining, so the width is the length.\<close>

definition GetLineWidth :: "string \<Rightarrow> int" where
  "GetLineWidth line = int (length line)"

section \<open>Braces\<close>

definition check_brace_position :: "string \<Rightarrow> cleansed_lines \<Rightarrow> int \<Rightarrow> error_fn \<Rightarrow> (lint, unit) py" where
  "check_brace_position filename cl linenum error =
     let_r (GetPreviousNonBlankLine cl linenum) (\<lambda>(prevline, _).
       andthen (gets line_length) (\<lambda>limit.
         do_when (\<not> found (rx ''[,;:}{(]`s*$'') prevline \<and> \<not> matches (rx ''`s*#'') prevline
             \<and> \<not> (GetLineWidth prevline > limit - 2 \<and> contains prevline ''[]''))
           (error filename linenum ''whitespace/braces'' 4
             ''{ should almost always be at the end of the previous line'')))"

definition check_else_position :: "string \<Rightarrow> cleansed_lines \<Rightarrow> int \<Rightarrow> error_fn \<Rightarrow> (lint, unit) py" where
  "check_else_position filename cl linenum error =
     let_r (GetPreviousNonBlankLine cl linenum) (\<lambda>(prevline, _).
       do_when (matches (rx ''`s*}`s*$'') prevline)
         (error filename linenum ''whitespace/newline'' 4 ''An else should appear on the same line as the preceding }''))"

definition check_else_if :: "string \<Rightarrow> cleansed_lines \<Rightarrow> int \<Rightarrow> string \<Rightarrow> error_fn \<Rightarrow> (lint, unit) py" where
  "check_else_if filename cl linenum line error =
     (let brace_on_left = found (rx ''}`s*else if`s*`('') line;
          pos = find_from line ''('' (find_str line ''else if'') in
      if pos > 0 then
        let_r (CloseExpression cl linenum pos) (\<lambda>(endline, _, endpos).
          do_when (brace_on_left \<noteq> (find_str (slice_from endline endpos) ''{'' \<noteq> -1))
            (error filename linenum ''readability/braces'' 5
              ''If an else has a brace on one side, it should have it on both''))
      else pass)"

definition next_line_opens :: "cleansed_lines \<Rightarrow> int \<Rightarrow> string \<Rightarrow> bool result" where
  "next_line_opens cl endlinenum rest =
     (if matches (rx ''`s*$'') rest \<and> endlinenum < int (length (elided cl)) - 1
      then bind_r (py_index (elided cl) (endlinenum + 1)) (\<lambda>line. Inr (matches (rx ''`s*{'') line))
      else Inr False)"

fun skip_to_semicolon :: "cleansed_lines \<Rightarrow> int list \<Rightarrow> int \<Rightarrow> int option result" where
  "skip_to_semicolon cl [] endpos = Inr None"
| "skip_to_semicolon cl (n # ns) endpos =
     bind_r (py_index (elided cl) n) (\<lambda>line.
       if contains (slice_from line endpos) '';'' then Inr (Some n) else skip_to_semicolon cl ns 0)"

definition check_statement_end :: "string \<Rightarrow> cleansed_lines \<Rightarrow> int \<Rightarrow> int \<Rightarrow> bool \<Rightarrow> int \<Rightarrow> error_fn \<Rightarrow> (lint, unit) py" where
  "check_statement_end filename cl linenum if_indent if_match endlinenum error =
     let_r (py_index (elided cl) endlinenum) (\<lambda>endline.
       if \<not> matches (rx '';[`s}]*(``?)$'') (slice_from endline (find_str endline '';'')) then
         do_when (\<not> matches (rx ''^[^{};]*`[[^`[`]]*`][^{}]*`{[^{}]*`}`s*`)*[;,]`s*$'') endline)
           (error filename linenum ''readability/braces'' 4 ''If/else bodies with multiple statements require braces'')
       else do_when (endlinenum < int (length (elided cl)) - 1)
         (let_r (py_index (elided cl) (endlinenum + 1)) (\<lambda>next_line.
           let next_indent = GetIndentLevel next_line in
           if if_match \<and> matches (rx ''`s*else`b'') next_line \<and> next_indent \<noteq> if_indent
           then error filename linenum ''readability/braces'' 4
             ''Else clause should be indented at the same level as if. Ambiguous nested if/else chains require braces.''
           else do_when (next_indent > if_indent)
             (error filename linenum ''readability/braces'' 4
               ''If/else bodies with multiple statements require braces''))))"

definition check_if_else_body :: "string \<Rightarrow> cleansed_lines \<Rightarrow> int \<Rightarrow> string \<Rightarrow> mobj \<Rightarrow> error_fn \<Rightarrow> (lint, unit) py" where
  "check_if_else_body filename cl linenum line if_else_match error =
     (let if_match = Search (rx ''`bif`s*`('') line in
      let_r (case if_match of
               None \<Rightarrow> Inr (line, linenum, int (m_end if_else_match))
             | Some m \<Rightarrow> CloseExpression cl linenum (int (m_end m) - 1)) (\<lambda>(endline, endlinenum, endpos).
        let_r (next_line_opens cl endlinenum (slice_from endline endpos)) (\<lambda>opens.
          if matches (rx ''`s*{'') (slice_from endline endpos) \<or> opens then pass
          else let_r (skip_to_semicolon cl [endlinenum..int (length (elided cl)) - 1] endpos) (\<lambda>semicolon.
            case semicolon of
              None \<Rightarrow> pass
            | Some n \<Rightarrow> check_statement_end filename cl linenum (GetIndentLevel line) (if_match \<noteq> None) n error))))"

definition CheckBraces :: "string \<Rightarrow> cleansed_lines \<Rightarrow> int \<Rightarrow> error_fn \<Rightarrow> (lint, unit) py" where
  "CheckBraces filename cl linenum error =
     let_r (py_index (elided cl) linenum) (\<lambda>line.
       block
         [do_when (matches (rx ''`s*{`s*$'') line) (check_brace_position filename cl linenum error),
          do_when (matches (rx ''`s*else`b`s*(?:if`b|`{|$)'') line) (check_else_position filename cl linenum error),
          (if found (rx ''else if`s*`('') line then check_else_if filename cl linenum line error
           else do_when (found (rx ''}`s*else[^{]*$'') line \<or> matches (rx ''[^}]*else`s*{'') line)
             (error filename linenum ''readability/braces'' 5
               ''If an else has a brace on one side, it should have it on both'')),
          do_when (found (rx ''`belse [^`s{]'') line \<and> \<not> found (rx ''`belse if`b'') line)
            (error filename linenum ''whitespace/newline'' 4
              ''Else clause should never be on same line as else (use 2 lines)''),
          do_when (matches (rx ''`s*do [^`s{]'') line)
            (error filename linenum ''whitespace/newline'' 4 ''do/while clauses should not be on a single line''),
          (case Search (rx ''`b(if`s*`(|else`b)'') line of
             None \<Rightarrow> pass
           | Some m \<Rightarrow>
               do_when (\<not> matches (rx ''`s*#'') line) (check_if_else_body filename cl linenum line m error))])"

section \<open>Trailing semicolons\<close>

text \<open>What precedes the parenthesis is a macro, a lambda, a specifier or an initialiser, and no block follows.\<close>

definition no_block_follows :: "string \<Rightarrow> bool" where
  "no_block_follows line_prefix \<longleftrightarrow>
     (case Search (rx ''`b([A-Z_][A-Z0-9_]*)`s*$'') line_prefix of
        None \<Rightarrow> False
      | Some macro \<Rightarrow> grp macro 1 \<notin> {''TEST'', ''TEST_F'', ''MATCHER'', ''MATCHER_P'', ''TYPED_TEST'',
          ''EXCLUSIVE_LOCKS_REQUIRED'', ''SHARED_LOCKS_REQUIRED'', ''LOCKS_EXCLUDED'', ''INTERFACE_DEF''})
     \<or> (case Match (rx ''^(.*`])`s*$'') line_prefix of
          None \<Rightarrow> False
        | Some func \<Rightarrow> \<not> found (rx ''`boperator`s*`[`s*`]'') (grp func 1))
     \<or> found (rx ''`b(?:struct|union)`s+alignas`s*$'') line_prefix
     \<or> found (rx ''`bdecltype$'') line_prefix
     \<or> found (rx ''`s+=`s*$'') line_prefix"

text \<open>The text before the brace whose block should not be followed by a semicolon.\<close>

definition block_candidate :: "cleansed_lines \<Rightarrow> int \<Rightarrow> string \<Rightarrow> string option result" where
  "block_candidate cl linenum line =
     (case Match (rx ''^(.*`)`s*)`{'') line of
        Some m \<Rightarrow>
          bind_r (ReverseCloseExpression cl linenum (rfind (grp m 1) '')'')) (\<lambda>(text, l, p).
            if p > -1 \<and> no_block_follows (py_slice text 0 p) then Inr None
            else if l > 1 then
              bind_r (py_index (elided cl) (l - 1)) (\<lambda>prev.
                Inr (if found (rx ''`]`s*$'') prev then None else Some (grp m 1)))
            else Inr (Some (grp m 1)))
      | None \<Rightarrow>
          (case Match (rx ''^(.*(?:else|`)`s*const)`s*)`{'') line of
             Some m \<Rightarrow> Inr (Some (grp m 1))
           | None \<Rightarrow>
               bind_r (GetPreviousNonBlankLine cl linenum) (\<lambda>(prevline, _).
                 Inr (if prevline \<noteq> [] \<and> found (rx ''[;{}]`s*$'') prevline
                      then map_option (\<lambda>m. grp m 1) (Match (rx ''^(`s*)`{'') line) else None))))"

definition CheckTrailingSemicolon :: "string \<Rightarrow> cleansed_lines \<Rightarrow> int \<Rightarrow> error_fn \<Rightarrow> (lint, unit) py" where
  "CheckTrailingSemicolon filename cl linenum error =
     let_r (py_index (elided cl) linenum) (\<lambda>line.
       let_r (block_candidate cl linenum line) (\<lambda>candidate.
         case candidate of
           None \<Rightarrow> pass
         | Some leading \<Rightarrow>
             let_r (CloseExpression cl linenum (int (length leading))) (\<lambda>(endline, endlinenum, endpos).
               if endpos > -1 \<and> matches (rx ''^`s*;'') (slice_from endline endpos) then
                 let_r (py_index (raw_lines cl) (endlinenum - 1)) (\<lambda>raw_before.
                   seq (ParseNolintSuppressions filename raw_before (endlinenum - 1) error)
                   (let_r (py_index (raw_lines cl) endlinenum) (\<lambda>raw.
                     seq (ParseNolintSuppressions filename raw endlinenum error)
                       (error filename endlinenum ''readability/braces'' 4
                         (msg_of [''You don'', [squote], ''t need a ; after a }''])))))
               else pass)))"

section \<open>Empty bodies\<close>

text \<open>The line with the brace that opens the body, if only white space comes before it.\<close>

fun find_opening :: "cleansed_lines \<Rightarrow> int \<Rightarrow> string \<Rightarrow> int list \<Rightarrow> (int \<times> string) option result" where
  "find_opening cl n fragment ns =
     (if found (rx ''^`s*`{'') fragment then Inr (Some (n, fragment))
      else if found (rx ''^(?!`s*$)'') fragment then Inr None
      else case ns of
          [] \<Rightarrow> Inr None
        | n' # ns' \<Rightarrow> bind_r (py_index (elided cl) n') (\<lambda>line. find_opening cl n' line ns'))"

declare find_opening.simps [simp del]

text \<open>No \<open>else\<close> follows on the rest of the line or on the lines after it.\<close>

fun no_else_follows :: "cleansed_lines \<Rightarrow> string \<Rightarrow> int list \<Rightarrow> bool result" where
  "no_else_follows cl fragment ns =
     (if \<not> found (rx ''^`s*$|^(?=`s*else)'') fragment then Inr True
      else if found (rx ''^(?=`s*else)'') fragment then Inr False
      else case ns of
          [] \<Rightarrow> Inr True
        | n # ns' \<Rightarrow> bind_r (py_index (elided cl) n) (\<lambda>line. no_else_follows cl line ns'))"

declare no_else_follows.simps [simp del]

definition EMPTY_CONDITIONAL_BODY_PATTERN :: string where
  "EMPTY_CONDITIONAL_BODY_PATTERN = rx ''^`s*$''"

definition body_text :: "cleansed_lines \<Rightarrow> int \<Rightarrow> string \<Rightarrow> int \<Rightarrow> int \<Rightarrow> int \<Rightarrow> string result" where
  "body_text cl opening_linenum opening_line opening_pos closing_linenum closing_pos =
     (if closing_linenum > opening_linenum then
        bind_r (py_index (elided cl) closing_linenum) (\<lambda>closing.
          Inr (join [nl] (map (\<lambda>c. [c]) (slice_from opening_line (opening_pos + 1))
            @ py_slice (raw_lines cl) (opening_linenum + 1) closing_linenum
            @ [slice_to closing (closing_pos - 1)])))
      else Inr (py_slice opening_line (opening_pos + 1) (closing_pos - 1)))"

definition check_empty_if :: "string \<Rightarrow> cleansed_lines \<Rightarrow> string \<Rightarrow> int \<Rightarrow> int \<Rightarrow> error_fn \<Rightarrow> (lint, unit) py" where
  "check_empty_if filename cl end_line end_linenum end_pos error =
     let_r (find_opening cl end_linenum (slice_from end_line end_pos) [end_linenum + 1..int (length (elided cl)) - 1]) (\<lambda>opening.
       case opening of
         None \<Rightarrow> pass
       | Some (opening_linenum, fragment) \<Rightarrow>
           let_r (py_index (elided cl) opening_linenum) (\<lambda>opening_line.
             let opening_pos = find_str fragment ''{'' + (if opening_linenum = end_linenum then end_pos else 0) in
             let_r (CloseExpression cl opening_linenum opening_pos) (\<lambda>(closing_line, closing_linenum, closing_pos).
               if closing_pos < 0 then pass
               else let_r (py_index (raw_lines cl) opening_linenum) (\<lambda>raw.
                 if raw \<noteq> CleanseComments raw then pass
                 else let_r (body_text cl opening_linenum opening_line opening_pos closing_linenum closing_pos) (\<lambda>body.
                   if \<not> found EMPTY_CONDITIONAL_BODY_PATTERN body then pass
                   else let_r (no_else_follows cl (slice_from closing_line closing_pos)
                       [closing_linenum + 1..int (length (elided cl)) - 1]) (\<lambda>no_else.
                     do_when no_else
                       (error filename end_linenum ''whitespace/empty_if_body'' 4
                         ''If statement had no body and no else clause'')))))))"

definition CheckEmptyBlockBody :: "string \<Rightarrow> cleansed_lines \<Rightarrow> int \<Rightarrow> error_fn \<Rightarrow> (lint, unit) py" where
  "CheckEmptyBlockBody filename cl linenum error =
     let_r (py_index (elided cl) linenum) (\<lambda>line.
       case Match (rx ''`s*(for|while|if)`s*`('') line of
         None \<Rightarrow> pass
       | Some matched \<Rightarrow>
           let_r (CloseExpression cl linenum (find_str line ''('')) (\<lambda>(end_line, end_linenum, end_pos).
             block
               [do_when (end_pos \<ge> 0 \<and> matches '';'' (slice_from end_line end_pos))
                  (if grp matched 1 = ''if''
                   then error filename end_linenum ''whitespace/empty_conditional_body'' 5
                     ''Empty conditional bodies should use {}''
                   else error filename end_linenum ''whitespace/empty_loop_body'' 5
                     ''Empty loop bodies should use {} or continue''),
                do_when (end_pos \<ge> 0 \<and> grp matched 1 = ''if'')
                  (check_empty_if filename cl end_line end_linenum end_pos error)]))"

section \<open>The checks return\<close>

lemma previous_non_blank_total:
  "(\<And>n. n \<in> set ns \<Longrightarrow> in_file cl n) \<Longrightarrow> \<exists>r. previous_non_blank cl ns = Inr r"
  by (induction ns) auto

lemma GetPreviousNonBlankLine_total: "in_file cl linenum \<Longrightarrow> \<exists>r. GetPreviousNonBlankLine cl linenum = Inr r"
  unfolding GetPreviousNonBlankLine_def by (rule previous_non_blank_total) (auto simp: in_file_def)

lemma end_of_class_head_total:
  "(\<And>n. n \<in> set ns \<Longrightarrow> in_file cl n) \<Longrightarrow> \<exists>r. end_of_class_head cl ns start = Inr r"
  by (induction ns) auto

lemma skip_to_semicolon_total:
  "(\<And>n. n \<in> set ns \<Longrightarrow> in_file cl n) \<Longrightarrow>
    \<exists>r. skip_to_semicolon cl ns endpos = Inr r \<and> (\<forall>n. r = Some n \<longrightarrow> in_file cl n)"
  by (induction ns arbitrary: endpos) auto

text \<open>What a successful search for the opening brace means.\<close>

definition opens_at :: "cleansed_lines \<Rightarrow> int \<Rightarrow> string \<Rightarrow> int list \<Rightarrow> (int \<times> string) option \<Rightarrow> bool" where
  "opens_at cl n fragment ns r \<longleftrightarrow>
     (\<forall>n' f. r = Some (n', f) \<longrightarrow> found (rx ''^`s*`{'') f
        \<and> ((n' = n \<and> f = fragment) \<or> (n' \<in> set ns \<and> f = elided cl ! nat n')))"

lemma find_opening_total:
  "(\<And>i. i \<in> set ns \<Longrightarrow> in_file cl i) \<Longrightarrow> \<exists>r. find_opening cl n frag ns = Inr r \<and> opens_at cl n frag ns r"
proof (induction ns arbitrary: n frag)
  case Nil
  show ?case by (subst find_opening.simps) (simp add: opens_at_def)
next
  case (Cons i ns)
  then have i: "in_file cl i" by simp
  from Cons obtain r where r: "find_opening cl i (elided cl ! nat i) ns = Inr r" "opens_at cl i (elided cl ! nat i) ns r"
    by (meson list.set_intros(2))
  from r(2) have "opens_at cl n frag (i # ns) r" unfolding opens_at_def by fastforce
  moreover have "opens_at cl n frag (i # ns) None" by (simp add: opens_at_def)
  moreover have "found (rx ''^`s*`{'') frag \<Longrightarrow> opens_at cl n frag (i # ns) (Some (n, frag))" by (simp add: opens_at_def)
  ultimately show ?case using i r(1)
    by (subst find_opening.simps) (simp only: list.case in_file_index bind_r_simps, metis)
qed

lemma no_else_follows_total:
  "(\<And>n. n \<in> set ns \<Longrightarrow> in_file cl n) \<Longrightarrow> \<exists>b. no_else_follows cl frag ns = Inr b"
proof (induction ns arbitrary: frag)
  case Nil
  show ?case by (subst no_else_follows.simps) (simp only: list.case, intro total_if total_Inr)
next
  case (Cons n ns)
  then obtain b where b: "no_else_follows cl (elided cl ! nat n) ns = Inr b" by auto
  have "in_file cl n" using Cons.prems by simp
  with b show ?case
    by (subst no_else_follows.simps) (simp only: list.case in_file_index bind_r_simps, intro total_if total_Inr)
qed

lemma body_text_total: "in_file cl cn \<Longrightarrow> \<exists>body. body_text cl n line p cn c = Inr body"
  by (simp add: body_text_def)

lemma lines_after: "in_file cl l \<Longrightarrow> n \<in> set [l + 1..int (length (elided cl)) - 1] \<Longrightarrow> in_file cl n"
  by (auto simp: in_file_def cl_ok_def)

lemma lines_from: "in_file cl l \<Longrightarrow> n \<in> set [l..int (length (elided cl)) - 1] \<Longrightarrow> in_file cl n"
  by (auto simp: in_file_def cl_ok_def)

lemma close_from_line:
  "close_from cl ln ls st = Inr (line, l', e) \<Longrightarrow> (\<And>l. l \<in> set ls \<Longrightarrow> in_file cl l) \<Longrightarrow> 0 \<le> e \<Longrightarrow> line = elided cl ! nat l'"
  by (induction ls arbitrary: ln st) (auto simp: bind_r_eq_Inr split: option.splits if_splits)

lemma CloseExpression_line:
  assumes "CloseExpression cl l p = Inr (line, l', e)" "in_file cl l" "0 \<le> e"
  shows "line = elided cl ! nat l'"
proof -
  have "\<And>n. n \<in> set [l + 1..NumLines cl - 1] \<Longrightarrow> in_file cl n"
    using assms(2) by (auto simp: in_file_def NumLines_def)
  with assms close_from_line [where ls = "[l + 1..NumLines cl - 1]"] show ?thesis
    by (auto simp: CloseExpression_def bind_r_eq_Inr split: if_splits)
qed

text \<open>What the callers of \<open>CloseExpression\<close> rely on.\<close>

lemma CloseExpression_answer:
  assumes "in_file cl l" "0 \<le> p" "p < int (length (elided cl ! nat l))"
  shows "\<exists>line l' e. CloseExpression cl l p = Inr (line, l', e)
    \<and> (0 \<le> e \<and> in_file cl l' \<and> line = elided cl ! nat l' \<or> e < 0 \<and> l' = num_lines cl)"
proof -
  obtain line l' e where ce: "CloseExpression cl l p = Inr (line, l', e)" using CloseExpression_total [OF assms] by blast
  then show ?thesis
    using CloseExpression_in_file [OF assms(1) ce] CloseExpression_line [OF ce assms(1)] CloseExpression_not_found [OF ce]
    by (cases "0 \<le> e") (auto simp: NumLines_def)
qed

lemma block_patterns:
  "head_group 1 (CHR ''{'') (compiled (rx ''^(.*`)`s*)`{''))"
  "head_group 1 (CHR ''{'') (compiled (rx ''^(.*(?:else|`)`s*const)`s*)`{''))"
  "head_group 1 (CHR ''{'') (compiled (rx ''^(`s*)`{''))"
  "last_char (CHR ''{'') (compiled (rx ''^`s*`{''))"
  "last_char (CHR ''('') (compiled (rx ''`s*(for|while|if)`s*`(''))"
  "consumes (compiled (rx ''`bif`s*`('')) = 3"
  by code_simp+

lemma ReverseCloseExpression_not_found:
  assumes "ReverseCloseExpression cl l p = Inr (line, l', e)" "\<not> 0 \<le> e"
  shows "l' = 0"
proof -
  have "reverse_close_from cl ln ls st = Inr (line, l', e) \<Longrightarrow> l' = 0" for ln ls st
    using assms(2) by (induction ls arbitrary: ln st) (auto simp: bind_r_eq_Inr split: option.splits if_splits)
  with assms show ?thesis by (auto simp: ReverseCloseExpression_def bind_r_eq_Inr split: if_splits)
qed

lemma block_candidate_total:
  assumes "in_file cl linenum" "line = elided cl ! nat linenum"
  shows "\<exists>r. block_candidate cl linenum line = Inr r \<and> (\<forall>t. r = Some t \<longrightarrow> length t < length line)"
proof -
  obtain prev n where prev: "GetPreviousNonBlankLine cl linenum = Inr (prev, n)"
    using GetPreviousNonBlankLine_total [OF assms(1)] by auto
  show ?thesis
  proof (cases "Match (rx ''^(.*`)`s*)`{'') line")
    case None
    then show ?thesis using head_group_length [OF block_patterns(2), of line] head_group_length [OF block_patterns(3), of line]
      by (auto simp: block_candidate_def prev split: option.split)
  next
    case (Some m)
    note len = head_group_length [OF block_patterns(1) Some]
    then have "- int (length line) \<le> rfind (grp m 1) '')''" "rfind (grp m 1) '')'' < int (length line)"
      using rfind_bounds [of "'')''" "grp m 1"] by auto
    then obtain before l p where rev: "ReverseCloseExpression cl linenum (rfind (grp m 1) '')'') = Inr (before, l, p)"
      "start_found cl (before, l, p)"
      using ReverseCloseExpression_total [OF assms(1)] assms(2) by metis
    have "l = 0 \<or> in_file cl l" using rev
      using ReverseCloseExpression_not_found [OF rev(1)] by (cases "0 \<le> p") (auto simp: start_found_def)
    then have "l > 1 \<Longrightarrow> in_file cl (l - 1)" by (auto simp: in_file_def)
    then show ?thesis using Some rev(1) len by (auto simp: block_candidate_def)
  qed
qed

context reporter
begin

lemma CheckSectionSpacing_safe [safe_intros]:
  assumes "in_file cl linenum" "within (num_lines cl) (starting_linenum (fst info))"
  shows "safe_unit I (CheckSectionSpacing filename cl info linenum error)"
proof -
  obtain b ci where info: "info = (b, ci)" by fastforce
  have "\<And>n. n \<in> set [starting_linenum b..linenum - 1] \<Longrightarrow> in_file cl n"
    using assms by (auto simp: info in_file_def within_def)
  from end_of_class_head_total [OF this] obtain e where
    e: "end_of_class_head cl [starting_linenum b..linenum - 1] (starting_linenum b) = Inr e" by blast
  have "in_file cl (linenum - 1)" if "\<not> linenum \<le> starting_linenum b"
    using that assms by (auto simp: info in_file_def within_def)
  then show ?thesis unfolding CheckSectionSpacing_def info prod.case e let_r_simps
    by (intro safe_intros assms(1)) simp_all
qed

lemma check_brace_position_safe [safe_intros]:
  assumes "in_file cl linenum"
  shows "safe_unit I (check_brace_position filename cl linenum error)"
proof -
  obtain prev n where prev: "GetPreviousNonBlankLine cl linenum = Inr (prev, n)"
    using GetPreviousNonBlankLine_total [OF assms(1)] by auto
  show ?thesis unfolding check_brace_position_def prev let_r_simps prod.case
    by (intro safe_intros safe_andthen [where P = "\<lambda>_. True"]) simp_all
qed

lemma check_else_position_safe [safe_intros]:
  assumes "in_file cl linenum"
  shows "safe_unit I (check_else_position filename cl linenum error)"
proof -
  obtain prev n where prev: "GetPreviousNonBlankLine cl linenum = Inr (prev, n)"
    using GetPreviousNonBlankLine_total [OF assms(1)] by auto
  show ?thesis unfolding check_else_position_def prev let_r_simps prod.case by (intro safe_intros) simp_all
qed

lemma check_else_if_safe [safe_intros]:
  assumes "in_file cl linenum" "line = elided cl ! nat linenum"
  shows "safe_unit I (check_else_if filename cl linenum line error)"
proof (cases "find_from line ''('' (find_str line ''else if'') > 0")
  case True
  with find_from_bounds [of "''(''" line "find_str line ''else if''"] assms
  obtain r where "CloseExpression cl linenum (find_from line ''('' (find_str line ''else if'')) = Inr r"
    using CloseExpression_total [OF assms(1)] by force
  then show ?thesis unfolding check_else_if_def Let_def by (simp only: let_r_simps) (intro safe_intros; simp)
qed (simp add: check_else_if_def safe_intros)

lemma check_statement_end_safe:
  "in_file cl n \<Longrightarrow> safe_unit I (check_statement_end filename cl linenum if_indent if_match n error)"
  unfolding check_statement_end_def
  by (intro safe_intros) (simp_all add: in_file_def cl_ok_def)

lemma check_if_else_body_safe [safe_intros]:
  assumes "in_file cl linenum" "line = elided cl ! nat linenum"
  shows "safe_unit I (check_if_else_body filename cl linenum line m error)"
proof -
  have "\<exists>endline l e. (case Search (rx ''`bif`s*`('') line of None \<Rightarrow> Inr (line, linenum, int (m_end m))
      | Some m \<Rightarrow> CloseExpression cl linenum (int (m_end m) - 1)) = Inr (endline, l, e) \<and> (in_file cl l \<or> l = num_lines cl)"
  proof (cases "Search (rx ''`bif`s*`('') line")
    case (Some k)
    from Search_end [OF Some] block_patterns(6) have "0 \<le> int (m_end k) - 1" "int (m_end k) - 1 < int (length line)"
      by (auto simp: m_end_def)
    from CloseExpression_answer [OF assms(1) this(1)] this(2) assms(2) Some show ?thesis by auto
  qed (use assms in auto)
  then obtain endline l e where close: "(case Search (rx ''`bif`s*`('') line of None \<Rightarrow> Inr (line, linenum, int (m_end m))
      | Some m \<Rightarrow> CloseExpression cl linenum (int (m_end m) - 1)) = Inr (endline, l, e)" "in_file cl l \<or> l = num_lines cl" by blast
  have "\<exists>b. next_line_opens cl l (slice_from endline e) = Inr b"
    unfolding next_line_opens_def using close(2) assms(1)
    by (intro total_if total_Inr) (auto simp: in_file_def cl_ok_def)
  then obtain b where b: "next_line_opens cl l (slice_from endline e) = Inr b" by blast
  have "\<And>n. n \<in> set [l..int (length (elided cl)) - 1] \<Longrightarrow> in_file cl n"
    using close(2) assms(1) lines_from [of cl l] by (auto simp: in_file_def cl_ok_def)
  from skip_to_semicolon_total [OF this] obtain r where
    r: "skip_to_semicolon cl [l..int (length (elided cl)) - 1] e = Inr r" "\<forall>n. r = Some n \<longrightarrow> in_file cl n" by blast
  show ?thesis unfolding check_if_else_body_def Let_def close(1) let_r_simps prod.case b r(1)
    by (intro safe_intros check_statement_end_safe) (use r(2) in auto)
qed

lemma CheckBraces_safe [safe_intros]:
  "in_file cl linenum \<Longrightarrow> safe_unit I (CheckBraces filename cl linenum error)"
  unfolding CheckBraces_def by (intro safe_intros) simp_all

lemma CheckTrailingSemicolon_safe [safe_intros]:
  assumes "in_file cl linenum"
  shows "safe_unit I (CheckTrailingSemicolon filename cl linenum error)"
proof -
  let ?line = "elided cl ! nat linenum"
  obtain r where r: "block_candidate cl linenum ?line = Inr r" "\<forall>t. r = Some t \<longrightarrow> length t < length ?line"
    using block_candidate_total [OF assms refl] by blast
  show ?thesis
  proof (cases r)
    case (Some t)
    with r(2) have "0 \<le> int (length t)" "int (length t) < int (length ?line)" by simp_all
    from CloseExpression_answer [OF assms this] obtain line l e where
      ce: "CloseExpression cl linenum (int (length t)) = Inr (line, l, e)" "0 \<le> e \<and> in_file cl l \<or> e < 0" by auto
    show ?thesis
    proof (cases "0 \<le> e")
      case True
      with ce(2) have l: "in_file cl l" by simp
      then obtain raw where raw: "py_index (raw_lines cl) (l - 1) = Inr raw"
        by (fastforce simp: py_index_def from_start_def in_file_def cl_ok_def)
      show ?thesis using ce(1) Some r(1) assms raw unfolding CheckTrailingSemicolon_def
        by (simp only: in_file_index let_r_simps option.case prod.case) (intro safe_intros l; simp)
    next
      case False
      with ce(1) Some r(1) assms show ?thesis unfolding CheckTrailingSemicolon_def by (simp add: safe_intros)
    qed
  qed (use r(1) assms in \<open>simp add: CheckTrailingSemicolon_def safe_intros\<close>)
qed

lemma check_empty_if_safe:
  assumes "in_file cl l" "0 \<le> e" "line = elided cl ! nat l"
  shows "safe_unit I (check_empty_if filename cl line l e error)"
proof -
  let ?ls = "[l + 1..int (length (elided cl)) - 1]"
  obtain r where r: "find_opening cl l (slice_from line e) ?ls = Inr r" "opens_at cl l (slice_from line e) ?ls r"
    using find_opening_total [OF lines_after [OF assms(1)]] by blast
  have "safe_unit I (let_r (py_index (elided cl) n) (\<lambda>opening_line.
      let opening_pos = find_str f ''{'' + (if n = l then e else 0) in
      let_r (CloseExpression cl n opening_pos) (\<lambda>(closing_line, closing_linenum, closing_pos).
        if closing_pos < 0 then pass
        else let_r (py_index (raw_lines cl) n) (\<lambda>raw.
          if raw \<noteq> CleanseComments raw then pass
          else let_r (body_text cl n opening_line opening_pos closing_linenum closing_pos) (\<lambda>body.
            if \<not> found EMPTY_CONDITIONAL_BODY_PATTERN body then pass
            else let_r (no_else_follows cl (slice_from closing_line closing_pos)
                [closing_linenum + 1..int (length (elided cl)) - 1]) (\<lambda>no_else.
              do_when no_else (error filename l ''whitespace/empty_if_body'' 4
                  ''If statement had no body and no else clause'')))))))" if "r = Some (n, f)" for n f
  proof -
    have f: "found (rx ''^`s*`{'') f" and at: "(n = l \<and> f = slice_from line e) \<or> (n \<in> set ?ls \<and> f = elided cl ! nat n)"
      using r(2) that by (auto simp: opens_at_def)
    then have n: "in_file cl n" using lines_after [OF assms(1)] assms(1) by blast
    from f have brace: "0 \<le> find_str f ''{''" unfolding find_str_char
      using last_char_Search [OF block_patterns(4)] by auto
    let ?p = "find_str f ''{'' + (if n = l then e else 0)"
    have "find_str f ''{'' < int (length f)" using brace by (intro find_str_less) auto
    then have p: "0 \<le> ?p" "?p < int (length (elided cl ! nat n))"
      using brace at assms(2,3) by (auto simp: slice_from_def clip_def Let_def) linarith
    obtain cline cn c where ce: "CloseExpression cl n ?p = Inr (cline, cn, c)" "0 \<le> c \<Longrightarrow> in_file cl cn"
      using CloseExpression_answer [OF n p] by auto
    show ?thesis
    proof (cases "0 \<le> c")
      case True
      with ce have cn: "in_file cl cn" by simp
      obtain body where body: "body_text cl n (elided cl ! nat n) ?p cn c = Inr body"
        using body_text_total [OF cn] by blast
      obtain b where b: "no_else_follows cl (slice_from cline c) [cn + 1..int (length (elided cl)) - 1] = Inr b"
        using no_else_follows_total [OF lines_after [OF cn]] by blast
      show ?thesis unfolding in_file_index [OF n] let_r_simps Let_def ce(1) prod.case body b
        by (intro safe_intros) simp_all
    qed (use n ce(1) in \<open>simp add: Let_def safe_intros\<close>)
  qed
  note opened = this
  show ?thesis
  proof (cases r)
    case (Some nf)
    obtain n f where "nf = (n, f)" by fastforce
    with Some opened [of n f] r(1) show ?thesis unfolding check_empty_if_def
      by (simp only: let_r_simps option.case prod.case)
  qed (use r(1) in \<open>simp add: check_empty_if_def safe_intros\<close>)
qed

lemma CheckEmptyBlockBody_safe [safe_intros]:
  assumes "in_file cl linenum"
  shows "safe_unit I (CheckEmptyBlockBody filename cl linenum error)"
proof (cases "Match (rx ''`s*(for|while|if)`s*`('') (elided cl ! nat linenum)")
  case (Some m)
  let ?line = "elided cl ! nat linenum"
  have paren: "0 \<le> find_str ?line ''(''" unfolding find_str_char by (rule last_char_Match [OF block_patterns(5) Some])
  then have "find_str ?line ''('' < int (length ?line)" by (intro find_str_less) auto
  from CloseExpression_answer [OF assms paren this] obtain line l e where
    ce: "CloseExpression cl linenum (find_str ?line ''('') = Inr (line, l, e)"
      "0 \<le> e \<Longrightarrow> in_file cl l" "0 \<le> e \<Longrightarrow> line = elided cl ! nat l" by auto
  show ?thesis unfolding CheckEmptyBlockBody_def in_file_index [OF assms] let_r_simps Some option.case ce(1) prod.case
    by (intro safe_intros check_empty_if_safe) (auto intro: ce(2,3))
qed (use assms in \<open>simp add: CheckEmptyBlockBody_def safe_intros\<close>)

end

end
