(* ===== verification/Style_Checks.thy ===== *)
theory Style_Checks
  imports Brace_Checks
begin

text \<open>
  \<open>CheckStyle\<close> and the checks it calls that are not in another theory: \<open>FindCheckMacro\<close>, \<open>CheckCheck\<close> and
  \<open>CheckAltTokens\<close>.  The parser of a \<open>CHECK\<close> expression is shown to end by the length of what is left;
  the lookups of a replacement macro and of an operator are shown never to raise a \<open>KeyError\<close>.
\<close>

section \<open>Dictionaries\<close>

definition lookup :: "('a \<times> 'b) list \<Rightarrow> 'a \<Rightarrow> 'b result" where
  "lookup d k = (case map_of d k of None \<Rightarrow> Inl KeyError | Some v \<Rightarrow> Inr v)"

section \<open>CHECK macros\<close>

definition CHECK_MACROS :: "string list" where
  "CHECK_MACROS = [''DCHECK'', ''CHECK'', ''EXPECT_TRUE'', ''ASSERT_TRUE'', ''EXPECT_FALSE'', ''ASSERT_FALSE'']"

definition with_prefix :: "string \<Rightarrow> (string \<times> string) list \<Rightarrow> (string \<times> string) list" where
  "with_prefix macro = map (\<lambda>(operator, replacement). (operator, macro @ replacement))"

definition relations :: "(string \<times> string) list" where
  "relations = [(''=='', ''EQ''), (''!='', ''NE''), (''>='', ''GE''), (''>'', ''GT''), (''<='', ''LE''), (''<'', ''LT'')]"

definition inverse_relations :: "(string \<times> string) list" where
  "inverse_relations = [(''=='', ''NE''), (''!='', ''EQ''), (''>='', ''LT''), (''>'', ''LE''), (''<='', ''GT''), (''<'', ''GE'')]"

definition CHECK_REPLACEMENT :: "(string \<times> (string \<times> string) list) list" where
  "CHECK_REPLACEMENT =
     [(''DCHECK'', with_prefix ''DCHECK_'' relations), (''CHECK'', with_prefix ''CHECK_'' relations),
      (''EXPECT_TRUE'', with_prefix ''EXPECT_'' relations), (''ASSERT_TRUE'', with_prefix ''ASSERT_'' relations),
      (''EXPECT_FALSE'', with_prefix ''EXPECT_'' inverse_relations),
      (''ASSERT_FALSE'', with_prefix ''ASSERT_'' inverse_relations)]"

definition MACRO_CALL :: "string \<Rightarrow> string" where
  "MACRO_CALL macro = rx ''^(.*`b'' @ macro @ rx ''`s*)`(''"

fun find_macro :: "string list \<Rightarrow> string \<Rightarrow> (string \<times> int) option" where
  "find_macro [] line = None"
| "find_macro (macro # macros) line =
     (if find_str line macro \<ge> 0 then
        (case Match (MACRO_CALL macro) line of
           None \<Rightarrow> find_macro macros line
         | Some matched \<Rightarrow> Some (macro, int (length (grp matched 1))))
      else find_macro macros line)"

text \<open>\<open>None\<close> stands for the pair \<open>(None, -1)\<close>.\<close>

definition FindCheckMacro :: "string \<Rightarrow> (string \<times> int) option" where
  "FindCheckMacro line = find_macro CHECK_MACROS line"

definition CHECK_TOKEN :: string where
  "CHECK_TOKEN = rx ''^`s*(<<|<<=|>>|>>=|->`*|->|&&|`|`||==|!=|>=|>|<=|<|`()(.*)$''"

definition CHECK_OPERAND :: string where
  "CHECK_OPERAND = rx ''^([^-=!<>()&|]+)(.*)$''"

definition CHECK_CHAR :: string where
  "CHECK_CHAR = rx ''^(`s*`S)(.*)$''"

lemma check_patterns:
  "lead 2 (compiled CHECK_TOKEN) = Some 1" "lead 2 (compiled CHECK_OPERAND) = Some 1" "lead 2 (compiled CHECK_CHAR) = Some 1"
  "group_texts 1 (compiled CHECK_TOKEN) = Some [''<<'', ''<<='', ''>>'', ''>>='', ''->*'', ''->'', ''&&'', ''||'',
     ''=='', ''!='', ''>='', ''>'', ''<='', ''<'', ''('']"
  by code_simp+

lemma check_rest_shorter:
  "Match CHECK_TOKEN e = Some m \<Longrightarrow> length (grp m 2) < length e"
  "Match CHECK_OPERAND e = Some m \<Longrightarrow> length (grp m 2) < length e"
  "Match CHECK_CHAR e = Some m \<Longrightarrow> length (grp m 2) < length e"
  using check_patterns(1-3) [THEN lead_Match, of e m] by simp_all

text \<open>The loop that splits the expression: \<open>None\<close> where the source returns, otherwise the left side, the
  relational operator if one was found, and the right side.\<close>

function parse_check :: "string \<Rightarrow> string \<Rightarrow> (string \<times> string option \<times> string) option result" where
  "parse_check lhs expression =
     (if expression = [] then Inr (Some (lhs, None, []))
      else case Match CHECK_TOKEN expression of
          Some matched \<Rightarrow>
            if grp matched 1 = ''('' then
              bind_r (FindEndOfExpressionInLine (grp matched 2) 0 ''('') (\<lambda>(end_pos, _).
                if end_pos < 0 then Inr None
                else parse_check (lhs @ ''('' @ py_slice (grp matched 2) 0 end_pos) (slice_from (grp matched 2) end_pos))
            else if grp matched 1 \<in> {''&&'', ''||''} then Inr None
            else if grp matched 1 \<in> {''<<'', ''<<='', ''>>'', ''>>='', ''->*'', ''->''}
            then parse_check (lhs @ grp matched 1) (grp matched 2)
            else Inr (Some (lhs, Some (grp matched 1), grp matched 2))
        | None \<Rightarrow>
            (case Match CHECK_OPERAND expression of
               Some matched \<Rightarrow> parse_check (lhs @ grp matched 1) (grp matched 2)
             | None \<Rightarrow>
                 (case Match CHECK_CHAR expression of
                    None \<Rightarrow> Inr (Some (lhs, None, []))
                  | Some matched \<Rightarrow> parse_check (lhs @ grp matched 1) (grp matched 2))))"
  by pat_completeness auto
termination
  by (relation "measure (\<lambda>(lhs, expression). length expression)")
    (auto simp: check_rest_shorter intro: le_less_trans [OF length_slice_from])

declare parse_check.simps [simp del]

definition MATCH_CONSTANT :: string where
  \<open>MATCH_CONSTANT = rx ''^([-+]?(`d+|0[xX][0-9a-fA-F]+)[lLuU]{0,3}|".*"|`'.*`')$''\<close>

definition check_expression :: "cleansed_lines \<Rightarrow> int \<Rightarrow> string \<Rightarrow> int \<Rightarrow> string \<Rightarrow> int \<Rightarrow> int \<Rightarrow> string result" where
  "check_expression cl linenum line start_pos final_line end_line end_pos =
     (if linenum = end_line then Inr (py_slice line (start_pos + 1) (end_pos - 1))
      else bind_r (append_lines cl [linenum + 1..end_line - 1] (slice_from line (start_pos + 1))) (\<lambda>expression.
        Inr (expression @ py_slice final_line 0 (end_pos - 1))))"

definition suggest_macro :: "string \<Rightarrow> int \<Rightarrow> string \<Rightarrow> string \<Rightarrow> string \<Rightarrow> string \<Rightarrow> error_fn \<Rightarrow> (lint, unit) py" where
  "suggest_macro filename linenum macro lhs operator rhs error =
     do_when (lhs \<noteq> [] \<and> rhs \<noteq> [] \<and> \<not> (find_str rhs ''&&'' > -1 \<or> find_str rhs ''||'' > -1)
         \<and> (matches MATCH_CONSTANT (strip lhs) \<or> matches MATCH_CONSTANT (strip rhs)))
       (let_r (lookup CHECK_REPLACEMENT macro) (\<lambda>table.
         let_r (lookup table operator) (\<lambda>replacement.
           error filename linenum ''readability/check'' 2
             (msg_of [''Consider using '', replacement, '' instead of '', macro, ''(a '', operator, '' b)'']))))"

definition CheckCheck :: "string \<Rightarrow> cleansed_lines \<Rightarrow> int \<Rightarrow> error_fn \<Rightarrow> (lint, unit) py" where
  "CheckCheck filename cl linenum error =
     let_r (py_index (elided cl) linenum) (\<lambda>line.
       case FindCheckMacro line of
         None \<Rightarrow> pass
       | Some (check_macro, start_pos) \<Rightarrow>
           let_r (CloseExpression cl linenum start_pos) (\<lambda>(final_line, end_line, end_pos).
             if end_pos < 0 \<or> \<not> matches (rx ''`s*;'') (slice_from final_line end_pos) then pass
             else let_r (check_expression cl linenum line start_pos final_line end_line end_pos) (\<lambda>expression.
               let_r (parse_check [] expression) (\<lambda>parsed.
                 case parsed of
                   None \<Rightarrow> pass
                 | Some (lhs, operator, rhs) \<Rightarrow>
                     (case operator of
                        None \<Rightarrow> pass
                      | Some op \<Rightarrow> suggest_macro filename linenum check_macro lhs op rhs error)))))"

section \<open>Alternative tokens\<close>

definition ALT_TOKEN_REPLACEMENT :: "(string \<times> string) list" where
  "ALT_TOKEN_REPLACEMENT =
     [(''and'', ''&&''), (''bitor'', ''|''), (''or'', ''||''), (''xor'', ''^''), (''compl'', ''~''), (''bitand'', ''&''),
      (''and_eq'', ''&=''), (''or_eq'', ''|=''), (''xor_eq'', ''^=''), (''not'', ''!''), (''not_eq'', ''!='')]"

text \<open>The alternatives are joined in the order in which the dictionary is written; the order does not
  matter, because the lookahead determines where the token ends.\<close>

definition ALT_TOKEN_REPLACEMENT_PATTERN :: string where
  "ALT_TOKEN_REPLACEMENT_PATTERN = ''[ =()]('' @ join ''|'' (map fst ALT_TOKEN_REPLACEMENT) @ '')(?=[ (]|$)''"

definition CheckAltTokens :: "string \<Rightarrow> cleansed_lines \<Rightarrow> int \<Rightarrow> error_fn \<Rightarrow> (lint, unit) py" where
  "CheckAltTokens filename cl linenum error =
     let_r (py_index (elided cl) linenum) (\<lambda>line.
       if matches (rx ''^`s*#'') line then pass
       else if find_str line ''/*'' \<ge> 0 \<or> find_str line ''*/'' \<ge> 0 then pass
       else for_each (re_finditer (compiled ALT_TOKEN_REPLACEMENT_PATTERN) line) (\<lambda>m.
         let_r (lookup ALT_TOKEN_REPLACEMENT (grp m 1)) (\<lambda>operator.
           error filename linenum ''readability/alt_tokens'' 2
             (msg_of [''Use operator '', operator, '' instead of '', grp m 1]))))"

section \<open>CheckStyle\<close>

definition weird_indent :: "cleansed_lines \<Rightarrow> int \<Rightarrow> string \<Rightarrow> string \<Rightarrow> string \<Rightarrow> string \<Rightarrow> bool" where
  \<open>weird_indent cl linenum raw line prev cleansed_line \<longleftrightarrow>
     (let initial_spaces = length (takeWhile (\<lambda>c. c = CHR '' '') line) in
      \<not> found ''[",=><] *$'' prev \<and> (initial_spaces = 1 \<or> initial_spaces = 3)
      \<and> \<not> matches (rx ''`s*`w+`s*:`s*``?$'') cleansed_line
      \<and> \<not> (raw \<noteq> line \<and> matches (rx ''^`s*""'') line))\<close>

definition is_header_guard :: "os_env \<Rightarrow> string option \<Rightarrow> string \<Rightarrow> string \<Rightarrow> string \<Rightarrow> bool result" where
  "is_header_guard env rt filename file_extension line =
     (if file_extension = ''h'' then
        bind_r (GetHeaderGuardCPPVariable env rt filename) (\<lambda>cppvar.
          Inr (startswith line (''#ifndef '' @ cppvar) \<or> startswith line (''#define '' @ cppvar)
             \<or> startswith line (''#endif  // '' @ cppvar)))
      else Inr False)"

definition check_line_length :: "string \<Rightarrow> int \<Rightarrow> string \<Rightarrow> bool \<Rightarrow> error_fn \<Rightarrow> (lint, unit) py" where
  "check_line_length filename linenum line guard error =
     do_when (\<not> startswith line ''#include'' \<and> \<not> guard \<and> \<not> matches (rx ''^`s*//.*http(s?)://`S*$'') line
         \<and> \<not> matches (rx ''^`s*//`s*[^`s]*$'') line \<and> \<not> matches (rx ''^// `$Id:.*#[0-9]+ `$$'') line)
       (andthen (gets line_length) (\<lambda>limit.
         do_when (GetLineWidth line > limit)
           (error filename linenum ''whitespace/line_length'' 2
             (msg_of [''Lines should be <= '', show_int limit, '' characters long'']))))"

definition several_commands :: "cleansed_lines \<Rightarrow> int \<Rightarrow> string \<Rightarrow> bool result" where
  "several_commands cl linenum cleansed_line =
     (if count_str cleansed_line '';'' > 1 \<and> find_str cleansed_line ''for'' = -1 then
        bind_r (GetPreviousNonBlankLine cl linenum) (\<lambda>(prevline, _).
          Inr ((find_str prevline ''for'' = -1 \<or> find_str prevline '';'' \<noteq> -1)
            \<and> \<not> ((find_str cleansed_line ''case '' \<noteq> -1 \<or> find_str cleansed_line ''default:'' \<noteq> -1)
                 \<and> find_str cleansed_line ''break;'' \<noteq> -1)))
      else Inr False)"

definition CheckStyle :: "os_env \<Rightarrow> string \<Rightarrow> cleansed_lines \<Rightarrow> int \<Rightarrow> string \<Rightarrow> nesting_state \<Rightarrow> error_fn \<Rightarrow> (lint, unit) py" where
  "CheckStyle env filename cl linenum file_extension ns error =
     let_r (py_index (lines_without_raw_strings cl) linenum) (\<lambda>line.
     let_r (if linenum > 0 then py_index (lines_without_raw_strings cl) (linenum - 1) else Inr []) (\<lambda>prev.
     let_r (py_index (elided cl) linenum) (\<lambda>cleansed_line.
     let_r (py_index (raw_lines cl) linenum) (\<lambda>raw.
       seq (block
         [do_when (find_str line [tab] \<noteq> -1)
            (error filename linenum ''whitespace/tab'' 1 ''Tab found; better to use spaces''),
          do_when (weird_indent cl linenum raw line prev cleansed_line)
            (error filename linenum ''whitespace/indent'' 3
              ''Weird number of spaces at line-start.  Are you using a 2-space indent?''),
          do_when (line \<noteq> [] \<and> uspace (last line))
            (error filename linenum ''whitespace/end_of_line'' 4
              ''Line ends in whitespace.  Consider deleting these extra spaces.'')])
       (andthen (gets root) (\<lambda>rt.
       let_r (is_header_guard env rt filename file_extension line) (\<lambda>guard.
       seq (check_line_length filename linenum line guard error)
       (let_r (several_commands cl linenum cleansed_line) (\<lambda>several.
       block
         [do_when several
            (error filename linenum ''whitespace/newline'' 0 ''More than one command on the same line''),
          CheckBraces filename cl linenum error,
          CheckTrailingSemicolon filename cl linenum error,
          CheckEmptyBlockBody filename cl linenum error,
          CheckAccess filename cl linenum ns error,
          CheckSpacing filename cl linenum ns error,
          CheckOperatorSpacing filename cl linenum error,
          CheckParenthesisSpacing filename cl linenum error,
          CheckCommaSpacing filename cl linenum error,
          CheckBracesSpacing filename cl linenum ns error,
          CheckSpacingForFunctionCall filename cl linenum error,
          CheckCheck filename cl linenum error,
          CheckAltTokens filename cl linenum error,
          (case InnermostClass ns of
             None \<Rightarrow> pass
           | Some info \<Rightarrow> CheckSectionSpacing filename cl info linenum error)])))))))))"

section \<open>The checks return\<close>

lemma find_macro_length:
  assumes "\<And>macro. macro \<in> set macros \<Longrightarrow> head_group 1 (CHR ''('') (compiled (MACRO_CALL macro))"
    and "find_macro macros line = Some (macro, p)"
  shows "macro \<in> set macros \<and> 0 \<le> p \<and> p < int (length line)"
  using assms
proof (induction macros)
  case (Cons a macros)
  show ?case
  proof (cases "find_str line a \<ge> 0 \<and> matches (MACRO_CALL a) line")
    case True
    then obtain m where m: "Match (MACRO_CALL a) line = Some m" by auto
    have "head_group 1 (CHR ''('') (compiled (MACRO_CALL a))" by (rule Cons.prems(1)) simp
    from head_group_length [OF this m] Cons.prems(2) True m show ?thesis by auto
  next
    case False
    with Cons.prems(2) have "find_macro macros line = Some (macro, p)" by (auto split: if_splits)
    with Cons.IH Cons.prems(1) show ?thesis by simp
  qed
qed simp

lemma check_macros_call: "\<forall>macro \<in> set CHECK_MACROS. head_group 1 (CHR ''('') (compiled (MACRO_CALL macro))"
  by code_simp

lemma FindCheckMacro_position:
  "FindCheckMacro line = Some (macro, p) \<Longrightarrow> macro \<in> set CHECK_MACROS \<and> 0 \<le> p \<and> p < int (length line)"
  unfolding FindCheckMacro_def by (rule find_macro_length) (use check_macros_call in auto)

definition check_operators :: "string list" where
  "check_operators = [''=='', ''!='', ''>='', ''>'', ''<='', ''<'']"

lemma replacements_complete:
  "list_all (\<lambda>macro. list_all (\<lambda>operator.
     case lookup CHECK_REPLACEMENT macro of Inl _ \<Rightarrow> False | Inr table \<Rightarrow> lookup table operator \<noteq> Inl KeyError)
     check_operators) CHECK_MACROS"
  by code_simp

lemma lookup_cases: "lookup d k = Inl KeyError \<or> (\<exists>v. lookup d k = Inr v)"
  by (simp add: lookup_def split: option.split)

lemma replacement_found:
  assumes "macro \<in> set CHECK_MACROS" "operator \<in> set check_operators"
  obtains table replacement where "lookup CHECK_REPLACEMENT macro = Inr table" "lookup table operator = Inr replacement"
proof -
  from replacements_complete assms have c: "case lookup CHECK_REPLACEMENT macro of Inl _ \<Rightarrow> False
      | Inr table \<Rightarrow> lookup table operator \<noteq> Inl KeyError"
    by (simp add: list_all_iff)
  then obtain table where "lookup CHECK_REPLACEMENT macro = Inr table" by (auto split: sum.splits)
  with c lookup_cases [of table operator] that show thesis by auto
qed

lemma find_end_in_line: "\<exists>p st'. FindEndOfExpressionInLine line 0 st = Inr (p, st')"
  using find_end_total [of "[0..int (length line) - 1]" line st] by (force simp: FindEndOfExpressionInLine_def)

lemma parse_check_total:
  "\<exists>r. parse_check lhs expression = Inr r \<and> (\<forall>l op rhs. r = Some (l, Some op, rhs) \<longrightarrow> op \<in> set check_operators)"
proof (induction lhs expression rule: parse_check.induct)
  case (1 lhs expression)
  show ?case
  proof (cases "expression = []")
    case False
    show ?thesis
    proof (cases "Match CHECK_TOKEN expression")
      case (Some m)
      from Match_group_texts [OF this check_patterns(4)]
      consider "grp m 1 = ''(''" | "grp m 1 \<in> {''&&'', ''||''}"
        | "grp m 1 \<in> {''<<'', ''<<='', ''>>'', ''>>='', ''->*'', ''->''}" | "grp m 1 \<in> set check_operators"
        by (auto simp: check_operators_def)
      then show ?thesis
      proof cases
        case 1
        obtain p st where fe: "FindEndOfExpressionInLine (grp m 2) 0 ''('' = Inr (p, st)" using find_end_in_line by blast
        show ?thesis
        proof (cases "p < 0")
          case True
          then show ?thesis using False Some 1 fe by (subst parse_check.simps) simp
        next
          case False
          with "1.IH"(3) [OF \<open>expression \<noteq> []\<close> Some 1 fe refl] \<open>expression \<noteq> []\<close> Some 1 fe show ?thesis
            by (subst parse_check.simps) simp
        qed
      next
        case 2
        then show ?thesis using False Some by (subst parse_check.simps) auto
      next
        case 3
        then have "grp m 1 \<noteq> ''(''" "grp m 1 \<notin> {''&&'', ''||''}" by auto
        with 3 "1.IH"(4) [OF False Some this 3] False Some show ?thesis by (subst parse_check.simps) simp
      next
        case 4
        then show ?thesis using False Some by (subst parse_check.simps) (auto simp: check_operators_def)
      qed
    next
      case None
      show ?thesis
      proof (cases "Match CHECK_OPERAND expression")
        case (Some m)
        with "1.IH"(2) [OF False None Some] False None show ?thesis by (subst parse_check.simps) simp
      next
        case no_operand: None
        show ?thesis
        proof (cases "Match CHECK_CHAR expression")
          case (Some m)
          with "1.IH"(1) [OF False None no_operand Some] False None no_operand show ?thesis
            by (subst parse_check.simps) simp
        qed (use False None no_operand in \<open>subst parse_check.simps, simp\<close>)
      qed
    qed
  qed (subst parse_check.simps, simp)
qed

lemma check_expression_total:
  assumes "in_file cl linenum" "in_file cl end_line"
  shows "\<exists>t. check_expression cl linenum line p fl end_line e = Inr t"
proof -
  have "\<And>n. n \<in> set [linenum + 1..end_line - 1] \<Longrightarrow> in_file cl n" using assms by (auto simp: in_file_def)
  from append_lines_total [OF this] obtain t where
    "append_lines cl [linenum + 1..end_line - 1] (slice_from line (p + 1)) = Inr t" by blast
  then show ?thesis unfolding check_expression_def by (intro total_if total_Inr) simp
qed

lemma alt_tokens_found:
  assumes "m \<in> set (re_finditer (compiled ALT_TOKEN_REPLACEMENT_PATTERN) line)"
  shows "\<exists>operator. lookup ALT_TOKEN_REPLACEMENT (grp m 1) = Inr operator"
proof -
  have texts: "group_texts 1 (compiled ALT_TOKEN_REPLACEMENT_PATTERN) = Some (map fst ALT_TOKEN_REPLACEMENT)" by code_simp
  have "list_all (\<lambda>k. lookup ALT_TOKEN_REPLACEMENT k \<noteq> Inl KeyError) (map fst ALT_TOKEN_REPLACEMENT)" by code_simp
  from bspec [OF this [unfolded list_all_iff] finditer_group_texts [OF assms texts zero_less_one]]
  have "lookup ALT_TOKEN_REPLACEMENT (grp m 1) \<noteq> Inl KeyError" .
  with lookup_cases [of ALT_TOKEN_REPLACEMENT "grp m 1"] show ?thesis by simp
qed

lemma several_commands_total: "in_file cl linenum \<Longrightarrow> \<exists>b. several_commands cl linenum line = Inr b"
  unfolding several_commands_def using GetPreviousNonBlankLine_total [of cl linenum]
  by (intro total_if total_Inr) auto

lemma innermost_start:
  "ns_ok N ns \<Longrightarrow> InnermostClass ns = Some info \<Longrightarrow> within N (starting_linenum (fst info))"
  using ns_ok_stack [of N ns]
  by (auto simp: InnermostClass_def split: option.splits block_kind.splits dest!: find_mem)

context reporter
begin

lemma suggest_macro_safe:
  assumes "macro \<in> set CHECK_MACROS" "operator \<in> set check_operators"
  shows "safe_unit I (suggest_macro filename linenum macro lhs operator rhs error)"
proof -
  obtain table replacement where "lookup CHECK_REPLACEMENT macro = Inr table" "lookup table operator = Inr replacement"
    using replacement_found [OF assms] .
  then show ?thesis unfolding suggest_macro_def by (simp only: let_r_simps) (intro safe_intros; simp)
qed

lemma CheckCheck_safe [safe_intros]:
  assumes "in_file cl linenum"
  shows "safe_unit I (CheckCheck filename cl linenum error)"
proof (cases "FindCheckMacro (elided cl ! nat linenum)")
  case (Some mp)
  obtain macro p where mp: "mp = (macro, p)" by fastforce
  note pos = FindCheckMacro_position [OF Some [unfolded mp]]
  obtain fl l e where ce: "CloseExpression cl linenum p = Inr (fl, l, e)" "0 \<le> e \<Longrightarrow> in_file cl l"
    using CloseExpression_answer [OF assms, of p] pos by auto
  show ?thesis
  proof (cases "0 \<le> e")
    case True
    obtain t where t: "check_expression cl linenum (elided cl ! nat linenum) p fl l e = Inr t"
      using check_expression_total [OF assms ce(2) [OF True]] by blast
    obtain r where r: "parse_check [] t = Inr r" "\<forall>l op rhs. r = Some (l, Some op, rhs) \<longrightarrow> op \<in> set check_operators"
      using parse_check_total [of "[]" t] by blast
    show ?thesis unfolding CheckCheck_def in_file_index [OF assms] let_r_simps Some mp option.case prod.case ce(1) t r(1)
      by (intro safe_intros suggest_macro_safe) (use pos r(2) in auto)
  qed (use assms Some mp ce(1) in \<open>simp add: CheckCheck_def safe_intros\<close>)
qed (use assms in \<open>simp add: CheckCheck_def safe_intros\<close>)

lemma CheckAltTokens_safe [safe_intros]:
  assumes "in_file cl linenum"
  shows "safe_unit I (CheckAltTokens filename cl linenum error)"
proof -
  have "safe_unit I (let_r (lookup ALT_TOKEN_REPLACEMENT (grp m 1)) (\<lambda>operator.
      error filename linenum ''readability/alt_tokens'' 2 (msg_of [''Use operator '', operator, '' instead of '', grp m 1])))"
    if "m \<in> set (re_finditer (compiled ALT_TOKEN_REPLACEMENT_PATTERN) (elided cl ! nat linenum))" for m
  proof -
    from alt_tokens_found [OF that] obtain operator where "lookup ALT_TOKEN_REPLACEMENT (grp m 1) = Inr operator" by blast
    then show ?thesis by (simp only: let_r_simps) (intro safe_intros; simp)
  qed
  then show ?thesis unfolding CheckAltTokens_def by (intro safe_intros assms) simp_all
qed

end

context usable_reporter
begin

lemma is_header_guard_total:
  "walks_end env \<Longrightarrow> root_ok rt \<Longrightarrow> \<exists>b. is_header_guard env rt filename ext line = Inr b"
  using GetHeaderGuardCPPVariable_total [of env rt filename] unfolding is_header_guard_def
  by (intro total_if total_Inr) auto

lemma check_line_length_safe [safe_intros]: "safe_unit I (check_line_length filename linenum line guard error)"
  unfolding check_line_length_def
  by (intro safe_intros safe_andthen [where P = "\<lambda>_. True"]) simp_all

lemma CheckStyle_safe [safe_intros]:
  assumes "in_file cl linenum" "walks_end env" "ns_ok (num_lines cl) ns"
  shows "safe_unit I (CheckStyle env filename cl linenum ext ns error)"
proof -
  obtain prev where prev: "(if linenum > 0 then py_index (lines_without_raw_strings cl) (linenum - 1) else Inr []) = Inr prev"
    using assms(1) by (cases "linenum > 0") (auto simp: in_file_def cl_ok_def)
  obtain several where several: "several_commands cl linenum (elided cl ! nat linenum) = Inr several"
    using several_commands_total [OF assms(1)] by blast
  have guard: "safe I Q (let_r (is_header_guard env rt filename ext line) f)"
    if "root_ok rt" "\<And>g. safe I Q (f g)" for rt line f and Q :: "unit \<Rightarrow> bool"
  proof -
    from is_header_guard_total [OF assms(2) that(1)] obtain g where "is_header_guard env rt filename ext line = Inr g" by blast
    with that(2) show ?thesis by simp
  qed
  show ?thesis unfolding CheckStyle_def in_file_index [OF assms(1)] let_r_simps prev several
    by (intro safe_intros safe_andthen [where P = root_ok] safe_gets guard assms innermost_start [OF assms(3)])
      (auto simp: usable_def dest: usable)
qed

end

section \<open>Properties\<close>

text \<open>A text without its white space, and the patterns that split an expression without losing any other text.\<close>

abbreviation solid :: "string \<Rightarrow> string" where
  "solid \<equiv> filter (\<lambda>c. \<not> ascii_space c)"

lemma check_token_compiled:
  "\<exists>r. compiled CHECK_TOKEN = RSeq RBol (RSeq (RRep True 0 None (RSet False sp)) (RSeq (RGroup 1 r) (RSeq (RGroup 2 (RRep True 0 None RAny)) REol)))"
  "\<exists>r. compiled CHECK_OPERAND = RSeq RBol (RSeq (RGroup 1 r) (RSeq (RGroup 2 (RRep True 0 None RAny)) REol))"
  "\<exists>r. compiled CHECK_CHAR = RSeq RBol (RSeq (RGroup 1 r) (RSeq (RGroup 2 (RRep True 0 None RAny)) REol))"
  by (rule exI, code_simp)+

lemma space_solid: "list_all (in_set False sp) u \<Longrightarrow> solid u = []" "w \<in> {[], [nl]} \<Longrightarrow> solid w = []"
proof -
  show "list_all (in_set False sp) u \<Longrightarrow> solid u = []" by (induction u) (auto simp: in_set_def ascii_space_def)
  show "w \<in> {[], [nl]} \<Longrightarrow> solid w = []" by (auto simp: ascii_space_def in_range_def)
qed

lemma two_groups_solid:
  assumes "Match q s = Some m"
    and "compiled q = RSeq RBol (RSeq (RRep True 0 None (RSet False sp)) (RSeq (RGroup 1 r) (RSeq (RGroup 2 (RRep True 0 None RAny)) REol)))
      \<or> compiled q = RSeq RBol (RSeq (RGroup 1 r) (RSeq (RGroup 2 (RRep True 0 None RAny)) REol))"
  shows "solid (grp m 1) @ solid (grp m 2) = solid s"
proof -
  from assms(1) obtain st where st: "st \<in> set (ml (compiled q) (MSt [] s []))" "m_caps m = caps st" by (rule Match_Some)
  with assms(2) obtain p t u where "s = u @ t" "list_all (in_set False sp) u"
    and "st \<in> set (ml (RSeq (RGroup 1 r) (RSeq (RGroup 2 (RRep True 0 None RAny)) REol)) (MSt p t []))"
    unfolding seq_mem by (metis append_Nil list.pred_inject(1) seq_mem(1) seq_mem(8))
  moreover from two_groups [OF this(3)] obtain v w x i j k where
    "t = v @ w @ x" "x \<in> {[], [nl]}" "caps st = (2, i, w) # (1, j, v) # k" by blast
  ultimately show ?thesis using st(2) space_solid(1) [of u] space_solid(2) [of x] by (simp add: grp_def group_def)
qed

lemma check_token_solid:
  "Match CHECK_TOKEN s = Some m \<Longrightarrow> solid (grp m 1) @ solid (grp m 2) = solid s"
  "Match CHECK_OPERAND s = Some m \<Longrightarrow> solid (grp m 1) @ solid (grp m 2) = solid s"
  "Match CHECK_CHAR s = Some m \<Longrightarrow> solid (grp m 1) @ solid (grp m 2) = solid s"
  by (metis check_token_compiled(1) two_groups_solid) (metis check_token_compiled(2,3) two_groups_solid)+

lemma slice_solid: "0 \<le> p \<Longrightarrow> solid (py_slice t 0 p) @ solid (slice_from t p) = solid t"
  by (simp add: py_slice_def slice_from_def clip_def filter_append [symmetric] del: filter_append)

lemma parse_check_solid:
  "parse_check lhs expression = Inr (Some (l, Some op, rhs)) \<Longrightarrow> solid (lhs @ expression) = solid (l @ op @ rhs)"
proof (induction lhs expression rule: parse_check.induct)
  case (1 lhs expression)
  note pc = "1.prems" [unfolded parse_check.simps [of lhs expression]]
  from pc have ne: "expression \<noteq> []" by auto
  show ?case
  proof (cases "Match CHECK_TOKEN expression")
    case (Some m)
    note sol = check_token_solid(1) [OF Some]
    consider (paren) "grp m 1 = ''(''" | (shift) "grp m 1 \<in> {''<<'', ''<<='', ''>>'', ''>>='', ''->*'', ''->''}"
      | (rel) "l = lhs" "op = grp m 1" "rhs = grp m 2"
      using pc ne Some by (auto split: if_splits)
    then show ?thesis
    proof cases
      case paren
      obtain p st where fe: "FindEndOfExpressionInLine (grp m 2) 0 ''('' = Inr (p, st)" using find_end_in_line by blast
      with pc ne Some paren have p: "\<not> p < 0"
        "parse_check (lhs @ ''('' @ py_slice (grp m 2) 0 p) (slice_from (grp m 2) p) = Inr (Some (l, Some op, rhs))"
        by (auto split: if_splits)
      from "1.IH"(3) [OF ne Some paren fe refl p] slice_solid [of p "grp m 2"] p(1) sol paren show ?thesis by (simp split: if_splits)
    next
      case shift
      then have no: "grp m 1 \<noteq> ''(''" "grp m 1 \<notin> {''&&'', ''||''}" by auto
      with pc ne Some shift have "parse_check (lhs @ grp m 1) (grp m 2) = Inr (Some (l, Some op, rhs))" by simp
      from "1.IH"(4) [OF ne Some no shift this] sol show ?thesis by simp
    qed (use sol in simp)
  next
    case None
    show ?thesis
    proof (cases "Match CHECK_OPERAND expression")
      case (Some m)
      with pc ne None have "parse_check (lhs @ grp m 1) (grp m 2) = Inr (Some (l, Some op, rhs))" by simp
      from "1.IH"(2) [OF ne None Some this] check_token_solid(2) [OF Some] show ?thesis by simp
    next
      case no_operand: None
      with pc ne None obtain m where m: "Match CHECK_CHAR expression = Some m"
        "parse_check (lhs @ grp m 1) (grp m 2) = Inr (Some (l, Some op, rhs))" by (auto split: option.splits)
      from "1.IH"(1) [OF ne None no_operand m] check_token_solid(3) [OF m(1)] show ?thesis by simp
    qed
  qed
qed

text \<open>C25: splitting the argument of a \<open>CHECK\<close> macro loses nothing but white space: when a relational operator is found
  it is one of the six that have a replacement macro, and the left side, the operator and the right side are
  the expression.\<close>

theorem parse_check_splits:
  assumes "parse_check [] expression = Inr (Some (lhs, Some op, rhs))"
  shows "op \<in> {''=='', ''!='', ''>='', ''>'', ''<='', ''<''} \<and> solid expression = solid lhs @ op @ solid rhs"
proof -
  from parse_check_total [of "[]" expression] assms have op: "op \<in> {''=='', ''!='', ''>='', ''>'', ''<='', ''<''}"
    by (auto simp: check_operators_def)
  then have "solid op = op" by (auto simp: ascii_space_def in_range_def)
  with op parse_check_solid [OF assms] show ?thesis by simp
qed

theorem parse_check_splits_witness:
  "parse_check [] ''(a < 4) == b'' = Inr (Some (''(a < 4)'', Some ''=='', '' b''))
   \<and> filter (\<lambda>c. \<not> ascii_space c) ''(a < 4) == b'' = ''(a<4)==b''"
proof -
  have pc: "parse_check [] ''(a < 4) == b'' = Inr (Some (''(a < 4)'', Some ''=='', '' b''))" by code_simp
  from parse_check_splits [OF pc] pc show ?thesis by (simp add: ascii_space_def in_range_def)
qed

end
