(* ===== verification/Include_Checks.thy ===== *)
theory Include_Checks
  imports Include_State Style_Checks
begin

text \<open>
  The checks of \<open>#include\<close> lines: the classification of a header, \<open>CheckIncludeLine\<close>, and the report of
  missing headers (\<open>CheckForIncludeWhatYouUse\<close>) with the functions it calls.  Three things come from
  outside the program: the file system (\<open>os_env\<close>), the lines of a header file that is opened (the
  parameter \<open>io\<close>, \<open>None\<close> for an \<open>IOError\<close>), and the order in which Python iterates over the keys of a
  dictionary (the parameter \<open>ord\<close>, a rearrangement of the keys).
\<close>

section \<open>Classification\<close>

definition CPP_HEADERS :: "string list" where
  "CPP_HEADERS =
     [''algobase.h'', ''algo.h'', ''alloc.h'', ''builtinbuf.h'', ''bvector.h'', ''complex.h'', ''defalloc.h'',
      ''deque.h'', ''editbuf.h'', ''fstream.h'', ''function.h'', ''hash_map'', ''hash_map.h'', ''hash_set'',
      ''hash_set.h'', ''hashtable.h'', ''heap.h'', ''indstream.h'', ''iomanip.h'', ''iostream.h'', ''istream.h'',
      ''iterator.h'', ''list.h'', ''map.h'', ''multimap.h'', ''multiset.h'', ''ostream.h'', ''pair.h'',
      ''parsestream.h'', ''pfstream.h'', ''procbuf.h'', ''pthread_alloc'', ''pthread_alloc.h'', ''rope'',
      ''rope.h'', ''ropeimpl.h'', ''set.h'', ''slist'', ''slist.h'', ''stack.h'', ''stdiostream.h'',
      ''stl_alloc.h'', ''stl_relops.h'', ''streambuf.h'', ''stream.h'', ''strfile.h'', ''strstream.h'',
      ''tempbuf.h'', ''tree.h'', ''type_traits.h'', ''vector.h'', ''algorithm'', ''array'', ''atomic'', ''bitset'',
      ''chrono'', ''codecvt'', ''complex'', ''condition_variable'', ''deque'', ''exception'', ''forward_list'',
      ''fstream'', ''functional'', ''future'', ''initializer_list'', ''iomanip'', ''ios'', ''iosfwd'',
      ''iostream'', ''istream'', ''iterator'', ''limits'', ''list'', ''locale'', ''map'', ''memory'', ''mutex'',
      ''new'', ''numeric'', ''optional'', ''ostream'', ''queue'', ''random'', ''ratio'', ''regex'',
      ''scoped_allocator'', ''set'', ''sstream'', ''stack'', ''stdexcept'', ''streambuf'', ''string'',
      ''strstream'', ''system_error'', ''thread'', ''tuple'', ''typeindex'', ''typeinfo'', ''type_traits'',
      ''unordered_map'', ''unordered_set'', ''utility'', ''valarray'', ''vector'', ''cassert'', ''ccomplex'',
      ''cctype'', ''cerrno'', ''cfenv'', ''cfloat'', ''cinttypes'', ''ciso646'', ''climits'', ''clocale'',
      ''cmath'', ''csetjmp'', ''csignal'', ''cstdalign'', ''cstdarg'', ''cstdbool'', ''cstddef'', ''cstdint'',
      ''cstdio'', ''cstdlib'', ''cstring'', ''ctgmath'', ''ctime'', ''cuchar'', ''cwchar'', ''cwctype'']"

fun drop_suffix :: "string list \<Rightarrow> string \<Rightarrow> string" where
  "drop_suffix [] filename = fst (splitext filename)"
| "drop_suffix (e # ends) filename =
     (if endswith filename e \<and> length filename > length e
         \<and> filename ! (length filename - length e - 1) \<in> {CHR ''-'', CHR ''_''}
      then take (length filename - length e - 1) filename
      else drop_suffix ends filename)"

definition COMMON_SUFFIXES :: "string list" where
  "COMMON_SUFFIXES = [''test.cc'', ''regtest.cc'', ''unittest.cc'', ''inl.h'', ''impl.h'', ''internal.h'']"

definition DropCommonSuffixes :: "string \<Rightarrow> string" where
  "DropCommonSuffixes filename = drop_suffix COMMON_SUFFIXES filename"

definition FIRST_COMPONENT :: string where
  "FIRST_COMPONENT = ''^[^-_.]+''"

definition same_first_component :: "string \<Rightarrow> string \<Rightarrow> bool" where
  "same_first_component target_base include_base =
     (case (Match FIRST_COMPONENT target_base, Match FIRST_COMPONENT include_base) of
        (Some t, Some i) \<Rightarrow> grp t 0 = grp i 0
      | _ \<Rightarrow> False)"

definition ClassifyInclude :: "os_env \<Rightarrow> string \<Rightarrow> string \<Rightarrow> bool \<Rightarrow> header_type result" where
  "ClassifyInclude env filename include is_system =
     (if is_system then Inr (if include \<in> set CPP_HEADERS then CPP_SYS_HEADER else C_SYS_HEADER)
      else bind_r (RepositoryName env filename) (\<lambda>repository.
        let (target_dir, target_base) = path_split (DropCommonSuffixes repository);
            (include_dir, include_base) = path_split (DropCommonSuffixes include)
        in Inr (if target_base = include_base
                   \<and> (include_dir = target_dir \<or> include_dir = normpath (target_dir @ ''/../public''))
                then LIKELY_MY_HEADER
                else if same_first_component target_base include_base then POSSIBLE_MY_HEADER
                else OTHER_HEADER)))"

section \<open>Include lines\<close>

definition THIRD_PARTY_HEADERS_PATTERN :: string where
  "THIRD_PARTY_HEADERS_PATTERN = rx ''^(?:[^/]*[A-Z][^/]*`.h|lua`.h|lauxlib`.h|lualib`.h)$''"

definition NEW_STYLE_INCLUDE :: string where
  \<open>NEW_STYLE_INCLUDE = rx ''#include`s*"([^/]+`.h)"''\<close>

text \<open>The last branch: the header is recorded, its place and its alphabetical order are checked.\<close>

definition check_include_order :: "os_env \<Rightarrow> string \<Rightarrow> cleansed_lines \<Rightarrow> int \<Rightarrow> string \<Rightarrow> bool \<Rightarrow> include_state
    \<Rightarrow> error_fn \<Rightarrow> (lint, include_state) py" where
  "check_include_order env filename cl linenum include is_system incs error =
     let_r (append_include include linenum incs) (\<lambda>incs.
     let_r (ClassifyInclude env filename include is_system) (\<lambda>header.
     let_r (CheckNextIncludeOrder header incs) (\<lambda>(error_message, incs).
     seq (if error_message = [] then pass
          else let_r (BaseName env filename) (\<lambda>base.
            error filename linenum ''build/include_order'' 4
              (msg_of [error_message, ''. Should be: '', base, ''.h, c system, c++ system, other.''])))
     (let canonical_include = CanonicalizeAlphabeticalOrder include in
      let_r (IsInAlphabeticalOrder (elided cl) linenum canonical_include incs) (\<lambda>in_order.
      seq (do_when (\<not> in_order)
            (error filename linenum ''build/include_alpha'' 4
              (msg_of [''Include '', [dquote], include, [dquote], '' not in alphabetical order''])))
          (ret (SetLastHeader canonical_include incs)))))))"

definition foreign_cc :: "os_env \<Rightarrow> string \<Rightarrow> string \<Rightarrow> bool result" where
  "foreign_cc env filename include =
     (if endswith include ''.cc''
      then bind_r (RepositoryName env filename) (\<lambda>repository. Inr (dirname repository \<noteq> dirname include))
      else Inr False)"

definition CheckIncludeLine :: "os_env \<Rightarrow> string \<Rightarrow> cleansed_lines \<Rightarrow> int \<Rightarrow> include_state \<Rightarrow> error_fn \<Rightarrow> (lint, include_state) py" where
  "CheckIncludeLine env filename cl linenum incs error =
     let_r (py_index (lines cl) linenum) (\<lambda>line.
       seq (case Match NEW_STYLE_INCLUDE line of
              None \<Rightarrow> pass
            | Some m \<Rightarrow> do_when (\<not> matches THIRD_PARTY_HEADERS_PATTERN (grp m 1))
                (error filename linenum ''build/include'' 4 ''Include the directory when naming .h files''))
       (case Search PATTERN_INCLUDE line of
          None \<Rightarrow> ret incs
        | Some m \<Rightarrow>
            let include = grp m 2; is_system = (grp m 1 = ''<''); duplicate_line = FindHeader include incs in
            if duplicate_line \<ge> 0 then
              seq (error filename linenum ''build/include'' 4
                    (msg_of [[dquote], include, [dquote], '' already included at '', filename, '':'', show_int duplicate_line]))
                  (ret incs)
            else let_r (foreign_cc env filename include) (\<lambda>foreign.
              if foreign then
                seq (error filename linenum ''build/include'' 4 ''Do not include .cc files from other packages'') (ret incs)
              else if \<not> matches THIRD_PARTY_HEADERS_PATTERN include
              then check_include_order env filename cl linenum include is_system incs error
              else ret incs)))"

section \<open>Text inside brackets\<close>

definition closing_of :: "char \<Rightarrow> char option" where
  "closing_of c = (if c = CHR ''('' then Some (CHR '')'') else if c = CHR ''{'' then Some (CHR ''}'')
     else if c = CHR ''['' then Some (CHR '']'') else None)"

text \<open>The loop over the text after the opening bracket; the stack holds the closing brackets that are expected.\<close>

fun inside :: "string \<Rightarrow> string \<Rightarrow> string \<Rightarrow> string option" where
  "inside [] acc rest = Some (rev (tl acc))"
| "inside (p # ps) acc [] = None"
| "inside (p # ps) acc (c # cs) =
     (if c = p then inside ps (c # acc) cs
      else if c \<in> set '')}]'' then None
      else case closing_of c of
          None \<Rightarrow> inside (p # ps) (c # acc) cs
        | Some q \<Rightarrow> inside (q # p # ps) (c # acc) cs)"

text \<open>The flag \<open>re.M\<close> only changes \<open>^\<close> and \<open>$\<close>, which no start pattern of the program contains.\<close>

definition GetTextInside :: "string \<Rightarrow> string \<Rightarrow> string option result" where
  "GetTextInside text start_pattern =
     (case Search start_pattern text of
        None \<Rightarrow> Inr None
      | Some m \<Rightarrow>
          if m_end m = 0 then Inl AssertionError
          else case closing_of (text ! (m_end m - 1)) of
              None \<Rightarrow> Inl AssertionError
            | Some close \<Rightarrow> Inr (inside [close] [] (drop (m_end m) text)))"

section \<open>Missing headers\<close>

definition HEADERS_CONTAINING_TEMPLATES :: "(string \<times> string list) list" where
  "HEADERS_CONTAINING_TEMPLATES =
     [(''<deque>'', [''deque'']),
      (''<functional>'', [''unary_function'', ''binary_function'', ''plus'', ''minus'', ''multiplies'', ''divides'', ''modulus'',
        ''negate'', ''equal_to'', ''not_equal_to'', ''greater'', ''less'', ''greater_equal'', ''less_equal'',
        ''logical_and'', ''logical_or'', ''logical_not'', ''unary_negate'', ''not1'', ''binary_negate'', ''not2'',
        ''bind1st'', ''bind2nd'', ''pointer_to_unary_function'', ''pointer_to_binary_function'', ''ptr_fun'',
        ''mem_fun_t'', ''mem_fun'', ''mem_fun1_t'', ''mem_fun1_ref_t'', ''mem_fun_ref_t'', ''const_mem_fun_t'',
        ''const_mem_fun1_t'', ''const_mem_fun_ref_t'', ''const_mem_fun1_ref_t'', ''mem_fun_ref'']),
      (''<limits>'', [''numeric_limits'']),
      (''<list>'', [''list'']),
      (''<map>'', [''map'', ''multimap'']),
      (''<memory>'', [''allocator'', ''make_shared'', ''make_unique'', ''shared_ptr'', ''unique_ptr'', ''weak_ptr'']),
      (''<queue>'', [''queue'', ''priority_queue'']),
      (''<set>'', [''set'', ''multiset'']),
      (''<stack>'', [''stack'']),
      (''<string>'', [''char_traits'', ''basic_string'']),
      (''<tuple>'', [''tuple'']),
      (''<unordered_map>'', [''unordered_map'', ''unordered_multimap'']),
      (''<unordered_set>'', [''unordered_set'', ''unordered_multiset'']),
      (''<utility>'', [''pair'']),
      (''<vector>'', [''vector'']),
      (''<hash_map>'', [''hash_map'', ''hash_multimap'']),
      (''<hash_set>'', [''hash_set'', ''hash_multiset'']),
      (''<slist>'', [''slist''])]"

definition HEADERS_MAYBE_TEMPLATES :: "(string \<times> string list) list" where
  "HEADERS_MAYBE_TEMPLATES =
     [(''<algorithm>'', [''copy'', ''max'', ''min'', ''min_element'', ''sort'', ''transform'']),
      (''<utility>'', [''forward'', ''make_pair'', ''move'', ''swap''])]"

text \<open>Pattern, name of the template, header.\<close>

definition re_pattern_headers_maybe_templates :: "(string \<times> string \<times> string) list" where
  "re_pattern_headers_maybe_templates =
     concat (map (\<lambda>(header, templates). map (\<lambda>template.
       (rx ''[^>.]`b'' @ template @ rx ''(<.*?>)?`([^`)]'', template, header)) templates) HEADERS_MAYBE_TEMPLATES)"

definition re_pattern_templates :: "(string \<times> string \<times> string) list" where
  "re_pattern_templates =
     concat (map (\<lambda>(header, templates). map (\<lambda>template.
       (rx ''(`<|`b)'' @ template @ rx ''`s*`<'', template @ ''<>'', header)) templates) HEADERS_CONTAINING_TEMPLATES)"

definition FilesBelongToSameModule :: "os_env \<Rightarrow> string \<Rightarrow> string \<Rightarrow> (bool \<times> string) result" where
  "FilesBelongToSameModule env filename_cc filename_h =
     bind_r (IsSource env filename_cc) (\<lambda>source.
       if \<not> source then Inr (False, [])
       else bind_r (Extension env filename_cc) (\<lambda>ext.
         bind_r (BaseName env filename_cc) (\<lambda>base.
           let cc = slice_to filename_cc (- int (length ext));
               cc = (case Search TEST_FILE_SUFFIX base of None \<Rightarrow> cc | Some m \<Rightarrow> slice_to cc (- int (length (grp m 1))));
               cc = replace_str (replace_str cc ''/public/'' ''/'') ''/internal/'' ''/''
           in if \<not> endswith filename_h ''.h'' then Inr (False, [])
              else
                let h = slice_to filename_h (-2);
                    h = (if endswith h ''-inl'' then slice_to h (-4) else h);
                    h = replace_str (replace_str h ''/public/'' ''/'') ''/internal/'' ''/''
                in if endswith cc h then Inr (True, slice_to cc (- int (length h))) else Inr (False, []))))"

type_synonym include_dict = "string \<rightharpoonup> int"

definition setdefault :: "'k \<Rightarrow> 'v \<Rightarrow> ('k \<rightharpoonup> 'v) \<Rightarrow> 'k \<rightharpoonup> 'v" where
  "setdefault k v d = (case d k of None \<Rightarrow> d(k \<mapsto> v) | Some _ \<Rightarrow> d)"

fun add_includes :: "string list \<Rightarrow> int \<Rightarrow> include_dict \<Rightarrow> include_dict" where
  "add_includes [] linenum d = d"
| "add_includes (line # ls) linenum d =
     add_includes ls (linenum + 1)
       (case Search PATTERN_INCLUDE (CleanseComments line) of
          None \<Rightarrow> d
        | Some m \<Rightarrow> setdefault (grp m 2) linenum d)"

definition UpdateIncludeState :: "(string \<Rightarrow> string list option) \<Rightarrow> string \<Rightarrow> include_dict \<Rightarrow> bool \<times> include_dict" where
  "UpdateIncludeState io filename d =
     (case io filename of
        None \<Rightarrow> (False, d)
      | Some ls \<Rightarrow> (True, add_includes ls 1 d))"

text \<open>A dictionary with its keys in the order of their insertion.\<close>

fun dict_set :: "'k \<Rightarrow> 'v \<Rightarrow> ('k \<times> 'v) list \<Rightarrow> ('k \<times> 'v) list" where
  "dict_set k v [] = [(k, v)]"
| "dict_set k v (e # d) = (if fst e = k then (k, v) # d else e # dict_set k v d)"

type_synonym required = "(string \<times> int \<times> string) list"

definition std_prefix :: "string \<Rightarrow> mobj \<Rightarrow> bool" where
  "std_prefix line m \<longleftrightarrow> endswith (take (m_start m) line) ''std::'' \<or> \<not> endswith (take (m_start m) line) ''::''"

definition require_maybe :: "string \<Rightarrow> int \<Rightarrow> required \<Rightarrow> required" where
  "require_maybe line linenum required =
     fold (\<lambda>(pattern, template, header) req. if found pattern line then dict_set header (linenum, template) req else req)
       re_pattern_headers_maybe_templates required"

definition require_templates :: "string \<Rightarrow> int \<Rightarrow> required \<Rightarrow> required" where
  "require_templates line linenum required =
     fold (\<lambda>(pattern, template, header) req.
         case Search pattern line of
           None \<Rightarrow> req
         | Some m \<Rightarrow> if std_prefix line m then dict_set header (linenum, template) req else req)
       re_pattern_templates required"

definition require_line :: "string \<Rightarrow> int \<Rightarrow> required \<Rightarrow> required" where
  "require_line line linenum required =
     (if line = [] \<or> hd line = CHR ''#'' then required
      else
        let req = (case Search (rx ''`bstring`b'') line of
                None \<Rightarrow> required
              | Some m \<Rightarrow> if std_prefix line m then dict_set ''<string>'' (linenum, ''string'') required else required);
            req = require_maybe line linenum req
        in if contains line ''<'' then require_templates line linenum req else req)"

fun require_lines :: "cleansed_lines \<Rightarrow> int list \<Rightarrow> required \<Rightarrow> required result" where
  "require_lines cl [] req = Inr req"
| "require_lines cl (n # ns) req =
     bind_r (py_index (elided cl) n) (\<lambda>line. require_lines cl ns (require_line line n req))"

fun load_headers :: "os_env \<Rightarrow> (string \<Rightarrow> string list option) \<Rightarrow> string \<Rightarrow> string list \<Rightarrow> bool \<Rightarrow> include_dict
    \<Rightarrow> (bool \<times> include_dict) result" where
  "load_headers env io abs_filename [] header_found d = Inr (header_found, d)"
| "load_headers env io abs_filename (header # headers) header_found d =
     bind_r (FilesBelongToSameModule env abs_filename header) (\<lambda>(same_module, common_path).
       if same_module
       then let (loaded, d') = UpdateIncludeState io (common_path @ header) d
            in load_headers env io abs_filename headers (header_found \<or> loaded) d'
       else load_headers env io abs_filename headers header_found d)"

definition include_dict_of :: "include_state \<Rightarrow> include_dict" where
  "include_dict_of incs = map_of (rev (concat (include_list incs)))"

definition CheckForIncludeWhatYouUse :: "os_env \<Rightarrow> (string \<Rightarrow> string list option) \<Rightarrow> (string list \<Rightarrow> string list)
    \<Rightarrow> string \<Rightarrow> cleansed_lines \<Rightarrow> include_state \<Rightarrow> error_fn \<Rightarrow> (lint, unit) py" where
  "CheckForIncludeWhatYouUse env io ord filename cl incs error =
     let_r (require_lines cl [0..NumLines cl - 1] []) (\<lambda>required.
       let abs_filename = ReplaceAll (rx ''_flymake`.cc$'') ''.cc'' (FullName env filename);
           header_keys = ord (remdups (map fst (concat (include_list incs)))) in
       let_r (load_headers env io abs_filename header_keys False (include_dict_of incs)) (\<lambda>(header_found, d).
         if endswith filename ''.cc'' \<and> \<not> header_found then pass
         else for_each (ord (map fst required)) (\<lambda>header.
           let_r (lookup required header) (\<lambda>(linenum, template).
             do_when (d (rstrip_chars (lstrip_chars header [CHR ''<'', CHR ''>'', dquote]) [CHR ''<'', CHR ''>'', dquote]) = None)
               (error filename linenum ''build/include_what_you_use'' 4
                 (msg_of [''Add #include '', header, '' for '', template]))))))"

section \<open>The checks return\<close>

lemma file_parts:
  assumes "walks_end env"
  obtains r p b e where "RepositoryName env filename = Inr r" "Split env filename = Inr (p, b, e)"
    "BaseName env filename = Inr b" "Extension env filename = Inr e"
proof -
  obtain p b e where "Split env filename = Inr (p, b, e)" using Split_total [OF assms] by blast
  moreover obtain r where "RepositoryName env filename = Inr r" using RepositoryName_total [OF assms] by blast
  ultimately show thesis by (intro that) (simp_all add: BaseName_def Extension_def)
qed

lemma ClassifyInclude_total: "walks_end env \<Longrightarrow> \<exists>t. ClassifyInclude env filename include is_system = Inr t"
  using RepositoryName_total [of env filename] by (auto simp: ClassifyInclude_def split: prod.split)

lemma foreign_cc_total: "walks_end env \<Longrightarrow> \<exists>b. foreign_cc env filename include = Inr b"
  unfolding foreign_cc_def using RepositoryName_total [of env filename]
  by (intro total_if total_Inr) auto

lemma IsInAlphabeticalOrder_total:
  assumes "in_file cl linenum"
  shows "\<exists>b. IsInAlphabeticalOrder (elided cl) linenum h incs = Inr b"
  unfolding IsInAlphabeticalOrder_def using previous_line [OF assms]
  by (intro total_if total_Inr) auto

lemma SetLastHeader_ok [simp]: "inc_ok (SetLastHeader h incs) = inc_ok incs"
  by (simp add: SetLastHeader_def inc_ok_def)

lemma FilesBelongToSameModule_total:
  assumes "walks_end env"
  shows "\<exists>same path. FilesBelongToSameModule env cc h = Inr (same, path)"
proof -
  obtain b e where "BaseName env cc = Inr b" "Extension env cc = Inr e" using file_parts [OF assms] by metis
  then show ?thesis by (auto simp: FilesBelongToSameModule_def IsSource_def Let_def)
qed

lemma load_headers_total:
  "walks_end env \<Longrightarrow> \<exists>f d'. load_headers env io a hs hf d = Inr (f, d')"
proof (induction hs arbitrary: hf d)
  case (Cons h hs)
  obtain same path where "FilesBelongToSameModule env a h = Inr (same, path)"
    using FilesBelongToSameModule_total [OF Cons.prems] by blast
  then show ?case using Cons by (cases "UpdateIncludeState io (path @ h) d") auto
qed simp

lemma require_lines_total: "(\<And>n. n \<in> set ns \<Longrightarrow> in_file cl n) \<Longrightarrow> \<exists>r. require_lines cl ns req = Inr r"
  by (induction ns arbitrary: req) auto

definition key_order :: "(string list \<Rightarrow> string list) \<Rightarrow> bool" where
  "key_order ord \<longleftrightarrow> (\<forall>ks. set (ord ks) = set ks \<and> (distinct ks \<longrightarrow> distinct (ord ks)))"

lemma lookup_key: "k \<in> set (map fst d) \<Longrightarrow> \<exists>v. lookup d k = Inr v"
  by (cases "map_of d k") (auto simp: lookup_def map_of_eq_None_iff)

context reporter
begin

lemma check_include_order_safe:
  assumes "in_file cl linenum" "walks_end env" "inc_ok incs"
  shows "safe I inc_ok (check_include_order env filename cl linenum include is_system incs error)"
proof -
  have "0 \<le> linenum" using assms(1) by (simp add: in_file_def)
  then obtain incs1 where a: "append_include include linenum incs = Inr incs1" "inc_ok incs1"
    using headers.register_total [OF assms(3)] by blast
  obtain t where t: "ClassifyInclude env filename include is_system = Inr t" using ClassifyInclude_total [OF assms(2)] by blast
  obtain msg incs2 where ord: "CheckNextIncludeOrder t incs1 = Inr (msg, incs2)" "inc_ok incs2"
    using CheckNextIncludeOrder_spec [OF a(2), of t] CheckNextIncludeOrder_ok [OF a(2)] by blast
  obtain base where base: "BaseName env filename = Inr base" using file_parts [OF assms(2)] by metis
  obtain b where b: "IsInAlphabeticalOrder (elided cl) linenum (CanonicalizeAlphabeticalOrder include) incs2 = Inr b"
    using IsInAlphabeticalOrder_total [OF assms(1)] by blast
  show ?thesis unfolding check_include_order_def a(1) t ord(1) base b let_r_simps prod.case Let_def
    by (intro safe_intros) (simp_all add: ord(2))
qed

lemma CheckIncludeLine_safe [safe_intros]:
  assumes "in_file cl linenum" "walks_end env" "inc_ok incs"
  shows "safe I inc_ok (CheckIncludeLine env filename cl linenum incs error)"
proof -
  have foreign: "safe I inc_ok (let_r (foreign_cc env filename h) f)" if "\<And>b. safe I inc_ok (f b)" for h f
  proof -
    obtain b where "foreign_cc env filename h = Inr b" using foreign_cc_total [OF assms(2)] by blast
    with that show ?thesis by simp
  qed
  show ?thesis unfolding CheckIncludeLine_def Let_def
    by (intro safe_intros assms foreign check_include_order_safe) (simp_all add: assms)
qed

lemma CheckForIncludeWhatYouUse_safe [safe_intros]:
  assumes "cl_ok cl" "walks_end env" "key_order ord"
  shows "safe_unit I (CheckForIncludeWhatYouUse env io ord filename cl incs error)"
proof -
  have "\<And>n. n \<in> set [0..NumLines cl - 1] \<Longrightarrow> in_file cl n" using assms(1) by (simp add: in_file_def NumLines_def)
  from require_lines_total [OF this] obtain req where req: "require_lines cl [0..NumLines cl - 1] [] = Inr req" by blast
  obtain f d where load: "load_headers env io (ReplaceAll (rx ''_flymake`.cc$'') ''.cc'' (FullName env filename))
      (ord (remdups (map fst (concat (include_list incs))))) False (include_dict_of incs) = Inr (f, d)"
    using load_headers_total [OF assms(2)] by blast
  have key: "safe_unit I (let_r (lookup req h) g)" if "h \<in> set (ord (map fst req))" "\<And>v. safe_unit I (g v)" for h g
  proof -
    have "h \<in> set (map fst req)" using that(1) assms(3) by (simp add: key_order_def)
    from lookup_key [OF this] obtain v where "lookup req h = Inr v" by blast
    with that(2) show ?thesis by simp
  qed
  show ?thesis unfolding CheckForIncludeWhatYouUse_def Let_def req load let_r_simps prod.case
    by (intro safe_intros key) simp_all
qed

end

section \<open>Properties\<close>

lemma closing_pairs: "closing_of b = Some p \<longleftrightarrow> pairs b p"
  by (auto simp: closing_of_def pairs_def)

lemma inside_scan:
  assumes "list_all2 pairs bs (p # ps)"
  shows "inside (p # ps) acc cs =
    (case scan_forward (zip [n..<n + length cs] cs) bs of Found_at q \<Rightarrow> Some (rev acc @ take (q - n) cs) | _ \<Rightarrow> None)"
  using assms
proof (induction cs arbitrary: p ps acc bs n)
  case (Cons c cs)
  from Cons.prems obtain b bs' where bs: "bs = b # bs'" "pairs b p" "list_all2 pairs bs' ps"
    by (auto simp: list_all2_Cons2)
  have later: "(case scan_forward (zip [Suc n..<Suc n + length cs] cs) st of Found_at q \<Rightarrow> Some (rev (c # acc) @ take (q - Suc n) cs) | _ \<Rightarrow> None)
      = (case scan_forward (zip [Suc n..<Suc n + length cs] cs) st of Found_at q \<Rightarrow> Some (rev acc @ take (q - n) (c # cs)) | _ \<Rightarrow> None)" for st
  proof (cases "scan_forward (zip [Suc n..<Suc n + length cs] cs) st")
    case (Found_at q)
    from scan_found_mem [OF this] have "Suc n \<le> q" by (auto dest!: set_zip_leftD)
    then have "q - n = Suc (q - Suc n)" by simp
    with Found_at show ?thesis by simp
  qed simp_all
  have zip: "zip [n..<n + length (c # cs)] (c # cs) = (n, c) # zip [Suc n..<Suc n + length cs] cs"
    by (simp add: upt_conv_Cons del: upt_Suc)
  consider (opn) q where "closing_of c = Some q" | (cls) "is_close c" | (other) "closing_of c = None" "\<not> is_close c" by blast
  then show ?case
  proof cases
    case opn
    then have c: "is_open c" "\<not> is_close c" "c \<noteq> p"
      using bs(2) by (auto simp: closing_of_def is_open_def is_close_def pairs_def split: if_splits)
    have "list_all2 pairs (c # bs) (q # p # ps)" using opn Cons.prems by (simp add: closing_pairs)
    moreover have "c \<notin> set '')}]''" using c(2) by (auto simp: is_close_def)
    ultimately show ?thesis using Cons.IH [of "c # bs" q "p # ps" "c # acc" "Suc n"] opn c
      unfolding zip later by (simp del: upt_Suc)
  next
    case cls
    then have c: "\<not> is_open c" "closing_of c = None" by (auto simp: closing_of_def is_open_def is_close_def)
    have match: "pairs b c \<longleftrightarrow> c = p" using bs(2) by (auto simp: pairs_def)
    show ?thesis
    proof (cases "c = p")
      case True
      show ?thesis
      proof (cases ps)
        case Nil
        with bs True cls c match show ?thesis unfolding zip by simp
      next
        case (Cons p' ps')
        with bs(3) have st: "list_all2 pairs bs' (p' # ps')" "bs' \<noteq> []" by auto
        with Cons.IH [OF st(1), of "c # acc" "Suc n"] True Cons bs cls c match show ?thesis
          unfolding zip later by (simp del: upt_Suc)
      qed
    next
      case False
      with bs cls c match show ?thesis unfolding zip by (auto simp: is_close_def)
    qed
  next
    case other
    then have "\<not> is_open c" "c \<noteq> p" "c \<notin> set '')}]''"
      using bs(2) by (auto simp: closing_of_def is_open_def is_close_def pairs_def split: if_splits)
    with Cons.IH [OF Cons.prems, of "c # acc" "Suc n"] other bs(1) show ?thesis unfolding zip later by (simp del: upt_Suc)
  qed
qed simp

lemma GetTextInside_Some:
  assumes "Search start_pattern txt = Some m" and "0 < m_end m" and "is_open (txt ! (m_end m - 1))"
  shows "GetTextInside txt start_pattern = Inr (Some t) \<longleftrightarrow>
    (\<exists>c rest. drop (m_end m) txt = t @ c # rest \<and> balanced is_open is_close pairs t \<and> pairs (txt ! (m_end m - 1)) c)"
proof -
  let ?o = "txt ! (m_end m - 1)" and ?cs = "drop (m_end m) txt"
  from assms(3) obtain p where p: "closing_of ?o = Some p" by (auto simp: is_open_def closing_of_def)
  then have all: "list_all2 pairs [?o] [p]" by (simp add: closing_pairs)
  let ?xs = "zip [0..<0 + length ?cs] ?cs"
  have step: "scan_forward ((0, ?o) # ?xs) [] = scan_forward ?xs [?o]" using assms(3) by simp
  have "GetTextInside txt start_pattern = Inr (Some t) \<longleftrightarrow> (\<exists>q. scan_forward ?xs [?o] = Found_at q \<and> t = take q ?cs)"
    using assms(1,2) p inside_scan [OF all, of "[]" ?cs 0]
    by (auto simp: GetTextInside_def split: outcome.splits)
  also have "\<dots> \<longleftrightarrow> (\<exists>q us c vs. ?xs = us @ (q, c) # vs \<and> balanced is_open is_close pairs (map snd us) \<and> pairs ?o c \<and> t = take q ?cs)"
    unfolding step [symmetric] forward.scan_match [OF assms(3)] by blast
  also have "\<dots> \<longleftrightarrow> (\<exists>c rest. ?cs = t @ c # rest \<and> balanced is_open is_close pairs t \<and> pairs ?o c)" (is "?l \<longleftrightarrow> ?r")
  proof
    assume ?l
    then obtain q us c vs where xs: "?xs = us @ (q, c) # vs" and rest: "balanced is_open is_close pairs (map snd us)" "pairs ?o c" "t = take q ?cs"
      by blast
    from arg_cong [OF xs, of "map snd"] have cs: "?cs = map snd us @ c # map snd vs" by simp
    have "q = length us" using arg_cong [OF xs, of "\<lambda>l. map fst l ! length us"] arg_cong [OF xs, of length]
      by (simp add: nth_append del: upt_Suc)
    with cs rest have "t = map snd us" by simp
    with cs rest show ?r by auto
  next
    assume ?r
    then obtain c rest where cs: "?cs = t @ c # rest" "balanced is_open is_close pairs t" "pairs ?o c" by blast
    have upt: "[0..<Suc (length t + length rest)] = [0..<length t] @ length t # [Suc (length t)..<Suc (length t + length rest)]"
      using upt_add_eq_append [of 0 "length t" "Suc (length rest)"] by (simp add: upt_conv_Cons del: upt_Suc)
    have "?xs = zip [0..<length t] t @ (length t, c) # zip [Suc (length t)..<length ?cs] rest"
      unfolding cs(1) by (simp add: upt del: upt_Suc)
    with cs show ?l
      by (intro exI [of _ "length t"] exI [of _ "zip [0..<length t] t"] exI [of _ c]
          exI [of _ "zip [Suc (length t)..<length ?cs] rest"]) simp
  qed
  finally show ?thesis .
qed

text \<open>C17: where the start pattern matches and ends with an opening bracket, \<open>_GetTextInside\<close> returns: exactly the
  text between that bracket and its matching closing bracket, and \<open>None\<close> when there is no such bracket.\<close>

theorem GetTextInside_matching:
  assumes "Search start_pattern txt = Some m" and "0 < m_end m" and "is_open (txt ! (m_end m - 1))"
  shows "\<exists>r. GetTextInside txt start_pattern = Inr r
    \<and> (\<forall>t. r = Some t \<longleftrightarrow> (\<exists>c rest. drop (m_end m) txt = t @ c # rest \<and> balanced is_open is_close pairs t
          \<and> pairs (txt ! (m_end m - 1)) c))"
proof -
  from assms(3) obtain p where "closing_of (txt ! (m_end m - 1)) = Some p" by (auto simp: is_open_def closing_of_def)
  with assms(1,2) obtain r where r: "GetTextInside txt start_pattern = Inr r" by (simp add: GetTextInside_def)
  with GetTextInside_Some [OF assms] show ?thesis by (intro exI [of _ r]) auto
qed

theorem GetTextInside_matching_witness:
  "GetTextInside ''x = printf(a(), b[c]);'' (rx ''printf`s*`('') = Inr (Some ''a(), b[c]'')
    \<and> GetTextInside ''x = printf(a(), b[c];'' (rx ''printf`s*`('') = Inr None
    \<and> (\<exists>c rest. drop 11 ''x = printf(a(), b[c]);'' = ''a(), b[c]'' @ c # rest
       \<and> balanced is_open is_close pairs ''a(), b[c]'' \<and> pairs (CHR ''('') c)"
proof -
  let ?t = "''x = printf(a(), b[c]);''"
  have "map_option m_end (Search (rx ''printf`s*`('') ?t) = Some 11" by code_simp
  then obtain m where m: "Search (rx ''printf`s*`('') ?t = Some m" "m_end m = 11" by auto
  have opener: "?t ! (m_end m - 1) = CHR ''(''" unfolding m(2) by code_simp
  have run: "GetTextInside ?t (rx ''printf`s*`('') = Inr (Some ''a(), b[c]'')"
    "GetTextInside ''x = printf(a(), b[c];'' (rx ''printf`s*`('') = Inr None" by code_simp+
  have "0 < m_end m" "is_open (?t ! (m_end m - 1))" unfolding opener by (simp_all add: m(2) is_open_def)
  from GetTextInside_matching [OF m(1) this] obtain r where
    r: "GetTextInside ?t (rx ''printf`s*`('') = Inr r" "\<And>t. r = Some t \<longleftrightarrow> (\<exists>c rest. drop (m_end m) ?t = t @ c # rest
      \<and> balanced is_open is_close pairs t \<and> pairs (?t ! (m_end m - 1)) c)" by blast
  from r(1) run(1) have "r = Some ''a(), b[c]''" by (simp only: sum.inject)
  then have "\<exists>c rest. drop 11 ?t = ''a(), b[c]'' @ c # rest \<and> balanced is_open is_close pairs ''a(), b[c]'' \<and> pairs (CHR ''('') c"
    unfolding r(2) opener unfolding m(2) .
  with run show ?thesis by blast
qed

lemma suffix_short: "length x \<le> length z \<Longrightarrow> suffix x (y @ z) \<longleftrightarrow> suffix x z"
  by (auto simp: suffix_def append_eq_append_conv2)

text \<open>Whether a suffix is dropped depends on the last characters only.\<close>

definition drops :: "string \<Rightarrow> string \<Rightarrow> bool" where
  "drops e w \<longleftrightarrow> suffix e w \<and> length e < length w \<and> w ! (length w - length e - 1) \<in> {CHR ''-'', CHR ''_''}"

lemma drop_suffix_stem:
  assumes "length e < length w"
  shows "drop_suffix (e # es) (stem @ w) =
    (if drops e w then stem @ take (length w - length e - 1) w else drop_suffix es (stem @ w))"
proof -
  have n: "length (stem @ w) - length e - 1 = length stem + (length w - length e - 1)" using assms by simp
  show ?thesis unfolding drop_suffix.simps n nth_append_length_plus using assms by (auto simp: drops_def suffix_short)
qed

lemma drop_suffix_longer:
  assumes "length w \<le> length e" "\<not> suffix w e"
  shows "drop_suffix (e # es) (stem @ w) = drop_suffix es (stem @ w)"
proof -
  have "\<not> suffix e (stem @ w)"
  proof
    assume "suffix e (stem @ w)"
    moreover have "suffix w (stem @ w)" by (simp add: suffix_def)
    ultimately show False using assms by (metis suffix_length_suffix)
  qed
  then show ?thesis by simp
qed

text \<open>C37: \<open>_DropCommonSuffixes\<close> removes a suffix such as \<open>_unittest.cc\<close> or \<open>-inl.h\<close>, and nothing else,
  from every name that has it, whatever the rest of the name is.\<close>

theorem DropCommonSuffixes_stem:
  assumes "sep \<in> {CHR ''-'', CHR ''_''}" and "e \<in> set COMMON_SUFFIXES"
  shows "DropCommonSuffixes (stem @ sep # e) = stem"
proof -
  have not_suffix: "list_all (\<lambda>(w, e). list_all (\<lambda>s. \<not> suffix (s # w) e) [CHR ''-'', CHR ''_'']) (List.product COMMON_SUFFIXES COMMON_SUFFIXES)"
    by code_simp
  have drops: "list_all (\<lambda>s. drops w (s # w)) [CHR ''-'', CHR ''_'']" if "w \<in> set COMMON_SUFFIXES" for w
    using that by (auto simp: drops_def suffix_def)
  have later: "list_all (\<lambda>(w, e). w = e \<or> list_all (\<lambda>s. \<not> drops e (s # w)) [CHR ''-'', CHR ''_'']) (List.product COMMON_SUFFIXES COMMON_SUFFIXES)"
    by code_simp
  have "drop_suffix es (stem @ sep # e) = stem" if "e \<in> set es" "set es \<subseteq> set COMMON_SUFFIXES" for es
    using that
  proof (induction es)
    case (Cons d es)
    have d: "d \<in> set COMMON_SUFFIXES" using Cons.prems by simp
    show ?case
    proof (cases "d = e")
      case True
      then show ?thesis using drops [OF assms(2)] assms(1) by (subst drop_suffix_stem) auto
    next
      case False
      have "drop_suffix (d # es) (stem @ sep # e) = drop_suffix es (stem @ sep # e)"
      proof (cases "length d < length (sep # e)")
        case True
        have "\<not> drops d (sep # e)" using later assms d False by (auto simp: list_all_iff)
        with drop_suffix_stem [OF True] show ?thesis by simp
      next
        case longer: False
        have "\<not> suffix (sep # e) d" using not_suffix assms d by (auto simp: list_all_iff)
        with longer show ?thesis by (intro drop_suffix_longer) auto
      qed
      with Cons False show ?thesis by simp
    qed
  qed simp
  from this [OF assms(2)] show ?thesis by (simp add: DropCommonSuffixes_def)
qed

theorem DropCommonSuffixes_stem_witness: "DropCommonSuffixes (''foo/foo'' @ CHR ''-'' # ''inl.h'') = ''foo/foo''"
  by (rule DropCommonSuffixes_stem) (simp_all add: COMMON_SUFFIXES_def)

end
