(* ===== verification/Language_Checks.thy ===== *)
theory Language_Checks
  imports Include_Checks
begin

text \<open>
  \<open>CheckLanguage\<close> and the checks around it: casts, global objects, \<open>printf\<close>, non-const references, with
  the helper functions that look at neighbouring lines.  One lookup of \<open>CheckCasts\<close> reads the
  character after a closing bracket, which may be past the end of the line; the model raises there
  as the program does, and the condition under which it does not is \<open>casts_ok\<close>.
\<close>

section \<open>Functions of the surrounding lines\<close>

definition FUNCTION_START :: string where
  "FUNCTION_START = rx ''^([^()]*`w+)`(''"

fun derived_function :: "cleansed_lines \<Rightarrow> int list \<Rightarrow> bool result" where
  "derived_function cl [] = Inr False"
| "derived_function cl (i # is) =
     bind_r (py_index (elided cl) i) (\<lambda>line0.
       case Match FUNCTION_START line0 of
         None \<Rightarrow> derived_function cl is
       | Some m \<Rightarrow>
           bind_r (CloseExpression cl i (int (length (grp m 1)))) (\<lambda>(line, _, closing_paren).
             Inr (closing_paren \<ge> 0 \<and> found (rx ''`boverride`b'') (slice_from line closing_paren))))"

definition IsDerivedFunction :: "cleansed_lines \<Rightarrow> int \<Rightarrow> bool result" where
  "IsDerivedFunction cl linenum = derived_function cl (rev [max (-1) (linenum - 10) + 1..linenum])"

fun out_of_line_method :: "cleansed_lines \<Rightarrow> int list \<Rightarrow> bool result" where
  "out_of_line_method cl [] = Inr False"
| "out_of_line_method cl (i # is) =
     bind_r (py_index (elided cl) i) (\<lambda>line.
       if matches FUNCTION_START line then Inr (matches (rx ''^[^()]*`w+::`w+`('') line)
       else out_of_line_method cl is)"

definition IsOutOfLineMethodDefinition :: "cleansed_lines \<Rightarrow> int \<Rightarrow> bool result" where
  "IsOutOfLineMethodDefinition cl linenum = out_of_line_method cl (rev [max (-1) (linenum - 10) + 1..linenum])"

fun initializer_list_line :: "cleansed_lines \<Rightarrow> int \<Rightarrow> int list \<Rightarrow> bool result" where
  "initializer_list_line cl linenum [] = Inr False"
| "initializer_list_line cl linenum (i # is) =
     bind_r (py_index (elided cl) i) (\<lambda>line0.
       let line = (if i = linenum
             then (case Match (rx ''^(.*)`{`s*$'') line0 of None \<Rightarrow> line0 | Some m \<Rightarrow> grp m 1) else line0)
       in if found (rx ''`s:`s*`w+[({]'') line then Inr True
          else if found (rx ''`}`s*,`s*$'') line then Inr True
          else if found (rx ''[{};]`s*$'') line then Inr False
          else initializer_list_line cl linenum is)"

definition IsInitializerList :: "cleansed_lines \<Rightarrow> int \<Rightarrow> bool result" where
  "IsInitializerList cl linenum = initializer_list_line cl linenum (rev [2..linenum])"

definition ExpectingFunctionArgs :: "cleansed_lines \<Rightarrow> int \<Rightarrow> bool result" where
  "ExpectingFunctionArgs cl linenum =
     bind_r (py_index (elided cl) linenum) (\<lambda>line.
       if matches (rx ''^`s*MOCK_(CONST_)?METHOD`d+(_T)?`('') line then Inr True
       else if linenum \<ge> 2 then
         bind_r (py_index (elided cl) (linenum - 1)) (\<lambda>prev.
         bind_r (py_index (elided cl) (linenum - 2)) (\<lambda>prev2.
           Inr (matches (rx ''^`s*MOCK_(?:CONST_)?METHOD`d+(?:_T)?`((?:`S+,)?`s*$'') prev
              \<or> matches (rx ''^`s*MOCK_(?:CONST_)?METHOD`d+(?:_T)?`(`s*$'') prev2
              \<or> found (rx ''`bstd::m?function`s*`<`s*$'') prev)))
       else Inr False)"

section \<open>References\<close>

definition RE_PATTERN_IDENT :: string where
  "RE_PATTERN_IDENT = rx ''[_a-zA-Z]`w*''"

definition RE_PATTERN_TYPE :: string where
  "RE_PATTERN_TYPE = rx ''(?:const`s+)?(?:typename`s+|class`s+|struct`s+|union`s+|enum`s+)?(?:`w|`s*<(?:<(?:<[^<>]*>|[^<>])*>|[^<>])*>|::)+''"

definition RE_PATTERN_REF_PARAM :: string where
  "RE_PATTERN_REF_PARAM = ''('' @ RE_PATTERN_TYPE @ rx ''(?:`s*(?:`bconst`b|[*]))*`s*&`s*'' @ RE_PATTERN_IDENT
     @ rx '')`s*(?:=[^,()]+)?[,)]''"

definition RE_PATTERN_CONST_REF_PARAM :: string where
  "RE_PATTERN_CONST_REF_PARAM = rx ''(?:.*`s*`bconst`s*&`s*'' @ RE_PATTERN_IDENT @ rx ''|const`s+'' @ RE_PATTERN_TYPE
     @ rx ''`s*&`s*'' @ RE_PATTERN_IDENT @ '')''"

definition RE_PATTERN_REF_STREAM_PARAM :: string where
  "RE_PATTERN_REF_STREAM_PARAM = rx ''(?:.*stream`s*&`s*'' @ RE_PATTERN_IDENT @ '')''"

fun join_stripped :: "cleansed_lines \<Rightarrow> int list \<Rightarrow> string \<Rightarrow> string result" where
  "join_stripped cl [] acc = Inr acc"
| "join_stripped cl (i # is) acc = bind_r (py_index (elided cl) i) (\<lambda>line. join_stripped cl is (acc @ strip line))"

text \<open>The previous piece of a type name that is broken across two lines.\<close>

definition broken_type :: "cleansed_lines \<Rightarrow> int \<Rightarrow> string \<Rightarrow> mobj option result" where
  "broken_type cl linenum line =
     (if matches (rx ''`s*::(?:[`w<>]|::)+`s*&`s*`S'') line
      then bind_r (py_index (elided cl) (linenum - 1)) (\<lambda>prev.
        Inr (Search (rx ''`b((?:const`s*)?(?:[`w<>]|::)+[`w<>])`s*$'') prev))
      else if matches (rx ''`s*[a-zA-Z_]([`w<>]|::)+`s*&`s*`S'') line
      then bind_r (py_index (elided cl) (linenum - 1)) (\<lambda>prev.
        Inr (Search (rx ''`b((?:const`s*)?(?:[`w<>]|::)+::)`s*$'') prev))
      else Inr None)"

definition whole_declaration :: "cleansed_lines \<Rightarrow> int \<Rightarrow> string \<Rightarrow> string result" where
  "whole_declaration cl linenum line =
     (if linenum > 1 then
        bind_r (broken_type cl linenum line) (\<lambda>previous.
          case previous of
            Some m \<Rightarrow> Inr (grp m 1 @ lstrip line)
          | None \<Rightarrow>
              let endpos = rfind line ''>'' in
              if endpos > -1 then
                bind_r (ReverseCloseExpression cl linenum endpos) (\<lambda>(_, startline, startpos).
                  if startpos > -1 \<and> startline < linenum then join_stripped cl [startline..linenum] []
                  else Inr line)
              else Inr line)
      else Inr line)"

fun in_initializers :: "cleansed_lines \<Rightarrow> int list \<Rightarrow> bool result" where
  "in_initializers cl [] = Inr False"
| "in_initializers cl (i # is) =
     bind_r (py_index (elided cl) i) (\<lambda>previous_line.
       if \<not> found (rx ''[),]`s*$'') previous_line then Inr False
       else if matches (rx ''^`s*:`s+`S'') previous_line then Inr True
       else in_initializers cl is)"

definition WHITELISTED_FUNCTIONS :: string where
  "WHITELISTED_FUNCTIONS = rx ''(?:[sS]wap(?:<`w:+>)?|operator`s*[<>][<>]|static_assert|COMPILE_ASSERT)`s*`(''"

fun whitelisted_before :: "cleansed_lines \<Rightarrow> int list \<Rightarrow> bool result" where
  "whitelisted_before cl [] = Inr False"
| "whitelisted_before cl (i # is) =
     bind_r (py_index (elided cl) i) (\<lambda>line. if found WHITELISTED_FUNCTIONS line then Inr True else whitelisted_before cl is)"

definition whitelisted :: "cleansed_lines \<Rightarrow> int \<Rightarrow> string \<Rightarrow> bool result" where
  "whitelisted cl linenum line =
     (if found WHITELISTED_FUNCTIONS line then Inr True
      else if \<not> found (rx ''`S+`([^)]*$'') line
      then whitelisted_before cl (map (\<lambda>i. linenum - i - 1) (filter (\<lambda>i. linenum > i) [0, 1]))
      else Inr False)"

definition in_function_body :: "nesting_state \<Rightarrow> bool" where
  "in_function_body ns =
     (case previous_stack_top ns of None \<Rightarrow> False | Some b \<Rightarrow> \<not> (is_class b \<or> is_namespace b))"

definition report_references :: "string \<Rightarrow> int \<Rightarrow> string \<Rightarrow> error_fn \<Rightarrow> (lint, unit) py" where
  "report_references filename linenum line error =
     for_each (map (\<lambda>m. grp m 1) (re_finditer (compiled RE_PATTERN_REF_PARAM) (ReplaceAll ''{[^}]*}'' '' '' line))) (\<lambda>parameter.
       do_when (\<not> matches RE_PATTERN_CONST_REF_PARAM parameter \<and> \<not> matches RE_PATTERN_REF_STREAM_PARAM parameter)
         (error filename linenum ''runtime/references'' 2
           (msg_of [''Is this a non-const reference? If so, make const or use a pointer: '', ReplaceAll '' *<'' ''<'' parameter])))"

definition CheckForNonConstReference :: "string \<Rightarrow> cleansed_lines \<Rightarrow> int \<Rightarrow> nesting_state \<Rightarrow> error_fn \<Rightarrow> (lint, unit) py" where
  "CheckForNonConstReference filename cl linenum ns error =
     let_r (py_index (elided cl) linenum) (\<lambda>line0.
     if \<not> contains line0 ''&'' then pass
     else let_r (IsDerivedFunction cl linenum) (\<lambda>derived.
     if derived then pass
     else let_r (IsOutOfLineMethodDefinition cl linenum) (\<lambda>out_of_line.
     if out_of_line then pass
     else let_r (whole_declaration cl linenum line0) (\<lambda>line.
     if in_function_body ns then pass
     else let_r (if linenum > 0 then in_initializers cl (rev [max 0 (linenum - 10) + 1..linenum - 1]) else Inr False) (\<lambda>initializers.
     if initializers \<or> found (rx ''```s*$'') line then pass
     else let_r (IsInitializerList cl linenum) (\<lambda>initializer_list.
     if initializer_list then pass
     else let_r (whitelisted cl linenum line) (\<lambda>allowed.
     if allowed then pass
     else report_references filename linenum line error)))))))"

section \<open>Casts\<close>

definition CAST_CONTEXT :: string where
  "CAST_CONTEXT = rx ''.*`b(?:sizeof|alignof|alignas|[_A-Z][_A-Z0-9]*)`s*$''"

definition MACRO_CONTEXT :: string where
  "MACRO_CONTEXT = rx ''.*`b[_A-Z][_A-Z0-9]*`s*`((?:`([^()]*`)|[^()])*$''"

fun prepend_lines :: "cleansed_lines \<Rightarrow> int list \<Rightarrow> string \<Rightarrow> string result" where
  "prepend_lines cl [] acc = Inr acc"
| "prepend_lines cl (i # is) acc = bind_r (py_index (elided cl) i) (\<lambda>line. prepend_lines cl is (line @ acc))"

definition CheckCStyleCast :: "string \<Rightarrow> cleansed_lines \<Rightarrow> int \<Rightarrow> string \<Rightarrow> string \<Rightarrow> error_fn \<Rightarrow> (lint, bool) py" where
  "CheckCStyleCast filename cl linenum cast_type pattern error =
     let_r (py_index (elided cl) linenum) (\<lambda>line.
       case Search pattern line of
         None \<Rightarrow> ret False
       | Some m \<Rightarrow>
           let context0 = py_slice line 0 (group_start m 1 - 1) in
           if matches CAST_CONTEXT context0 then ret False
           else let_r (prepend_lines cl (if linenum > 0 then rev [max 0 (linenum - 5) + 1..linenum - 1] else []) context0) (\<lambda>ctx.
             if matches MACRO_CONTEXT ctx then ret False
             else if endswith ctx '' operator++'' \<or> endswith ctx '' operator--'' then ret False
             else if matches (rx ''^`s*(?:;|const`b|throw`b|final`b|override`b|[=>{),]|->)'') (slice_from line (int (m_end m)))
             then ret False
             else seq (error filename linenum ''readability/casting'' 4
                     (msg_of [''Using C-style cast.  Use '', cast_type, ''<'', grp m 1, ''>(...) instead'']))
                   (ret True)))"

definition CONVERSION_CAST :: string where
  "CONVERSION_CAST = rx ''(`bnew`s+(?:const`s+)?|`S<`s*(?:const`s+)?)?`b(int|float|double|bool|char|int32|uint32|int64|uint64)(`([^)].*)''"

text \<open>Whether the conversion ends the check (an array type), and whether it is reported.\<close>

definition conversion_array :: "mobj option \<Rightarrow> bool" where
  "conversion_array conversion = (case conversion of None \<Rightarrow> False | Some m \<Rightarrow> matches (rx ''`([^()]+`)`s*`['') (grp m 3))"

definition conversion_cast :: "mobj \<Rightarrow> string \<Rightarrow> bool" where
  "conversion_cast m line \<longleftrightarrow>
     group m 1 = None
     \<and> \<not> (grp m 3 \<noteq> [] \<and> (matches (rx ''`((?:[^() ]+::`s*`*`s*)?[^() ]+`)`s*`('') (grp m 3) \<or> startswith (grp m 3) ''(*)''))
     \<and> \<not> matches (rx ''`s*using`s+`S+`s*=`s*'' @ grp m 2) line
     \<and> \<not> found (rx ''new`(`S+`)`s*'' @ grp m 2) line"

definition ADDRESS_OF_CAST :: string where
  "ADDRESS_OF_CAST = rx ''(?:[^`w]&`(([^)*][^)]*)`)[`w(])|(?:[^`w]&(static|dynamic|down|reinterpret)_cast`b)''"

definition CAST_BRACKET :: string where
  "CAST_BRACKET = rx ''^(.*&(?:static|dynamic|down|reinterpret)_cast`b)<''"

definition dereferenced_cast :: "cleansed_lines \<Rightarrow> int \<Rightarrow> string \<Rightarrow> bool result" where
  "dereferenced_cast cl linenum line =
     (case Match CAST_BRACKET line of
        None \<Rightarrow> Inr False
      | Some m \<Rightarrow>
          bind_r (CloseExpression cl linenum (int (length (grp m 1)))) (\<lambda>(_, y1, x1).
            if x1 \<ge> 0 then
              bind_r (py_index (elided cl) y1) (\<lambda>line1.
              bind_r (py_index line1 x1) (\<lambda>c.
                if c = CHR ''('' then
                  bind_r (CloseExpression cl y1 x1) (\<lambda>(_, y2, x2).
                    if x2 \<ge> 0 then
                      bind_r (py_index (elided cl) y2) (\<lambda>line2.
                      bind_r (if y2 < NumLines cl - 1 then py_index (elided cl) (y2 + 1) else Inr []) (\<lambda>next_line.
                        Inr (matches (rx ''`s*(?:->|`[)'') (slice_from line2 x2 @ next_line))))
                    else Inr False)
                else Inr False))
            else Inr False))"

definition check_address_of_cast :: "string \<Rightarrow> cleansed_lines \<Rightarrow> int \<Rightarrow> string \<Rightarrow> error_fn \<Rightarrow> (lint, unit) py" where
  "check_address_of_cast filename cl linenum line error =
     (if found ADDRESS_OF_CAST line then
        let_r (dereferenced_cast cl linenum line) (\<lambda>parenthesis_error.
          if parenthesis_error then
            error filename linenum ''readability/casting'' 4
              ''Are you taking an address of something dereferenced from a cast?  Wrapping the dereferenced expression in parentheses will make the binding more obvious''
          else
            error filename linenum ''runtime/casting'' 4
              ''Are you taking an address of a cast?  This is dangerous: could be a temp var.  Take the address before doing the cast, rather than after'')
      else pass)"

definition CheckCasts :: "string \<Rightarrow> cleansed_lines \<Rightarrow> int \<Rightarrow> error_fn \<Rightarrow> (lint, unit) py" where
  \<open>CheckCasts filename cl linenum error =
     let_r (py_index (elided cl) linenum) (\<lambda>line.
     let_r (ExpectingFunctionArgs cl linenum) (\<lambda>expecting_function.
       let conversion = (if expecting_function then None else Search CONVERSION_CAST line) in
       if conversion_array conversion then pass
       else
         seq (case conversion of
                None \<Rightarrow> pass
              | Some m \<Rightarrow> do_when (conversion_cast m line)
                  (error filename linenum ''readability/casting'' 4
                    (msg_of [''Using deprecated casting style.  Use static_cast<'', grp m 2, ''>(...) instead''])))
         (andthen (if \<not> expecting_function
                   then CheckCStyleCast filename cl linenum ''static_cast''
                     (rx ''`((int|float|double|bool|char|u?int(16|32|64)_t|size_t)`)'') error
                   else ret False) (\<lambda>_.
         andthen (CheckCStyleCast filename cl linenum ''const_cast'' (rx ''`((char`s?`*+`s?)`)`s*"'') error) (\<lambda>reported.
         andthen (if reported then ret False
                  else CheckCStyleCast filename cl linenum ''reinterpret_cast'' (rx ''`((`w+`s?`*+`s?)`)'') error) (\<lambda>_.
         check_address_of_cast filename cl linenum line error))))))\<close>

section \<open>Global objects and printf\<close>

definition CheckGlobalStatic :: "string \<Rightarrow> cleansed_lines \<Rightarrow> int \<Rightarrow> error_fn \<Rightarrow> (lint, unit) py" where
  \<open>CheckGlobalStatic filename cl linenum error =
     let_r (py_index (elided cl) linenum) (\<lambda>line0.
     let_r (if linenum + 1 < NumLines cl \<and> \<not> found ''[;({]'' line0
            then bind_r (py_index (elided cl) (linenum + 1)) (\<lambda>next_line. Inr (line0 @ strip next_line))
            else Inr line0) (\<lambda>line.
     block
       [(case Match (rx ''((?:|static +)(?:|const +))(?::*std::)?string( +const)? +([a-zA-Z0-9_:]+)`b(.*)'') line of
           None \<Rightarrow> pass
         | Some m \<Rightarrow>
             do_when (\<not> found (rx ''`bstring`b(`s+const)?`s*[`*`&]`s*(const`s+)?`w'') line
                 \<and> \<not> found (rx ''`boperator`W'') line
                 \<and> \<not> matches (rx ''`s*(<.*>)?(::[a-zA-Z0-9_]+)*`s*`(([^"]|$)'') (grp m 4))
               (if found (rx ''`bconst`b'') line
                then error filename linenum ''runtime/string'' 4
                  (msg_of [''For a static/global string constant, use a C style string instead: '', [dquote], grp m 1,
                     ''char'', grp m 2, '' '', grp m 3, ''[]'', [dquote], ''.''])
                else error filename linenum ''runtime/string'' 4 ''Static/global string variables are not permitted.'')),
        do_when (found (rx ''`b([A-Za-z0-9_]*_)`(`1`)'') line
            \<or> found (rx ''`b([A-Za-z0-9_]*_)`(CHECK_NOTNULL`(`1`)`)'') line)
          (error filename linenum ''runtime/init'' 4 ''You seem to be initializing a member variable with itself.'')]))\<close>

definition CheckPrintf :: "string \<Rightarrow> cleansed_lines \<Rightarrow> int \<Rightarrow> error_fn \<Rightarrow> (lint, unit) py" where
  "CheckPrintf filename cl linenum error =
     let_r (py_index (elided cl) linenum) (\<lambda>line.
     block
       [(case Search (rx ''snprintf`s*`(([^,]*),`s*([0-9]*)`s*,'') line of
           None \<Rightarrow> pass
         | Some m \<Rightarrow> do_when (grp m 2 \<noteq> ''0'')
             (error filename linenum ''runtime/printf'' 3
               (msg_of [''If you can, use sizeof('', grp m 1, '') instead of '', grp m 2, '' as the 2nd arg to snprintf.'']))),
        do_when (found (rx ''`bsprintf`s*`('') line)
          (error filename linenum ''runtime/printf'' 5 ''Never use sprintf. Use snprintf instead.''),
        (case Search (rx ''`b(strcpy|strcat)`s*`('') line of
           None \<Rightarrow> pass
         | Some m \<Rightarrow> error filename linenum ''runtime/printf'' 4
             (msg_of [''Almost always, snprintf is better than '', grp m 1]))])"

section \<open>CheckLanguage\<close>

text \<open>The tokens of an array size: the second argument says that the next one is to be skipped.\<close>

fun constant_tokens :: "string list \<Rightarrow> bool \<Rightarrow> bool" where
  "constant_tokens [] skip_next = True"
| "constant_tokens (tok0 # toks) skip_next =
     (if skip_next then constant_tokens toks False
      else if found (rx ''sizeof`(.+`)'') tok0 \<or> found (rx ''arraysize`(`w+`)'') tok0 then constant_tokens toks False
      else
        let tok = rstrip_chars (lstrip_chars tok0 ''('') '')'' in
        if tok = [] \<or> matches (rx ''`d+'') tok \<or> matches ''0[xX][0-9a-fA-F]+'' tok \<or> matches (rx ''k[A-Z0-9]`w*'') tok
           \<or> matches (rx ''(.+::)?k[A-Z0-9]`w*'') tok \<or> matches ''(.+::)?[A-Z][A-Z0-9_]*'' tok
        then constant_tokens toks False
        else if startswith tok ''sizeof'' then constant_tokens toks True
        else False)"

definition SIZE_DELIMITERS :: string where
  "SIZE_DELIMITERS = rx ''`s|`+|`-|`*|`/|<<|>>]''"

definition check_array_size :: "string \<Rightarrow> int \<Rightarrow> string \<Rightarrow> error_fn \<Rightarrow> (lint, unit) py" where
  "check_array_size filename linenum line error =
     (case Match (rx ''`s*(.+::)?(`w+) [a-z]`w*`[(.+)];'') line of
        None \<Rightarrow> pass
      | Some m \<Rightarrow>
          do_when (grp m 2 \<noteq> ''return'' \<and> grp m 2 \<noteq> ''delete'' \<and> find_str (grp m 3) '']'' = -1
              \<and> \<not> constant_tokens (re_split (compiled SIZE_DELIMITERS) (grp m 3)) False)
            (error filename linenum ''runtime/arrays'' 1
              (msg_of [''Do not use variable-length arrays.  Use an appropriately named ('', [squote], ''k'', [squote],
                 '' followed by CamelCase) compile-time constant for the size.''])))"

definition PRINTF_START :: string where
  "PRINTF_START = rx ''(?i)`b(string)?printf`s*`(''"

definition PRINTF_NAME :: string where
  "PRINTF_NAME = rx ''`b((?:string)?printf)`s*`(''"

definition check_format_string :: "string \<Rightarrow> int \<Rightarrow> string \<Rightarrow> error_fn \<Rightarrow> (lint, unit) py" where
  "check_format_string filename linenum line error =
     let_r (GetTextInside line PRINTF_START) (\<lambda>printf_args.
       case printf_args of
         None \<Rightarrow> pass
       | Some args \<Rightarrow>
           if args = [] then pass
           else (case Match (rx ''([`w.`->()]+)$'') args of
               None \<Rightarrow> pass
             | Some m \<Rightarrow>
                 if grp m 1 = ''__VA_ARGS__'' then pass
                 else let_r (case Search_ic PRINTF_NAME line of None \<Rightarrow> Inl AttributeError | Some f \<Rightarrow> Inr (grp f 1)) (\<lambda>function_name.
                   error filename linenum ''runtime/printf'' 4
                     (msg_of [''Potential format string bug. Do '', function_name, ''('', [dquote], ''%s'', [dquote], '', '',
                        grp m 1, '') instead.'']))))"

definition MEMSET_CONSTANT :: string where
  "MEMSET_CONSTANT = ''^'' @ [squote, squote] @ ''|-?[0-9]+|0x[0-9A-Fa-f]$''"

definition check_language_line :: "string \<Rightarrow> int \<Rightarrow> string \<Rightarrow> string \<Rightarrow> error_fn \<Rightarrow> (lint, unit) py" where
  "check_language_line filename linenum line file_extension error =
     block
       [(if found (rx ''`bshort port`b'') line then
           do_when (\<not> found (rx ''`bunsigned short port`b'') line)
             (error filename linenum ''runtime/int'' 4
               (msg_of [''Use '', [dquote], ''unsigned short'', [dquote], '' for ports, not '', [dquote], ''short'', [dquote]]))
         else (case Search (rx ''`b(short|long(?! +double)|long long)`b'') line of
             None \<Rightarrow> pass
           | Some m \<Rightarrow> error filename linenum ''runtime/int'' 4
               (msg_of [''Use int16/int64/etc, rather than the C type '', grp m 1]))),
        do_when (found (rx ''`boperator`s*&`s*`(`s*`)'') line)
          (error filename linenum ''runtime/operator'' 4 ''Unary operator& is dangerous.  Do not use it.''),
        do_when (found (rx ''`}`s*if`s*`('') line)
          (error filename linenum ''readability/braces'' 4
            (msg_of [''Did you mean '', [dquote], ''else if'', [dquote], ''? If not, start a new line for '', [dquote], ''if'', [dquote], ''.''])),
        check_format_string filename linenum line error,
        (case Search (rx ''memset`s*`(([^,]*),`s*([^,]*),`s*0`s*`)'') line of
           None \<Rightarrow> pass
         | Some m \<Rightarrow> do_when (\<not> matches MEMSET_CONSTANT (grp m 2))
             (error filename linenum ''runtime/memset'' 4
               (msg_of [''Did you mean '', [dquote], ''memset('', grp m 1, '', 0, '', grp m 2, '')'', [dquote], ''?'']))),
        do_when (found (rx ''`busing namespace`b'') line)
          (error filename linenum ''build/namespaces'' 5
            ''Do not use namespace using-directives.  Use using-declarations instead.''),
        check_array_size filename linenum line error,
        do_when (file_extension = ''h'' \<and> found (rx ''`bnamespace`s*{'') line \<and> last line \<noteq> bslash)
          (error filename linenum ''build/namespaces'' 4
            ''Do not use unnamed namespaces in header files.  See https://google-styleguide.googlecode.com/svn/trunk/cppguide.xml#Namespaces for more information.'')]"

definition CheckLanguage :: "os_env \<Rightarrow> string \<Rightarrow> cleansed_lines \<Rightarrow> int \<Rightarrow> string \<Rightarrow> include_state \<Rightarrow> error_fn
    \<Rightarrow> (lint, include_state) py" where
  "CheckLanguage env filename cl linenum file_extension incs error =
     let_r (py_index (elided cl) linenum) (\<lambda>line.
       if line = [] then ret incs
       else if found PATTERN_INCLUDE line then CheckIncludeLine env filename cl linenum incs error
       else
         let_r (case Match (rx ''^`s*#`s*(if|ifdef|ifndef|elif|else|endif)`b'') line of
                  None \<Rightarrow> Inr incs
                | Some m \<Rightarrow> ResetSection (grp m 1) incs) (\<lambda>incs.
         seq (block
           [CheckCasts filename cl linenum error,
            CheckGlobalStatic filename cl linenum error,
            CheckPrintf filename cl linenum error,
            check_language_line filename linenum line file_extension error])
           (ret incs)))"

section \<open>The name of a printf call is found\<close>

abbreviation ignoring_case :: "char \<Rightarrow> char \<Rightarrow> regex" where
  "ignoring_case c d \<equiv> RSet False [(c, c), (d, d)]"

definition string_word :: regex where
  "string_word = RSeq (ignoring_case CHR ''s'' CHR ''S'') (RSeq (ignoring_case CHR ''t'' CHR ''T'')
     (RSeq (ignoring_case CHR ''r'' CHR ''R'') (RSeq (ignoring_case CHR ''i'' CHR ''I'')
     (RSeq (ignoring_case CHR ''n'' CHR ''N'') (ignoring_case CHR ''g'' CHR ''G'')))))"

definition printf_word :: regex where
  "printf_word = RSeq (ignoring_case CHR ''p'' CHR ''P'') (RSeq (ignoring_case CHR ''r'' CHR ''R'')
     (RSeq (ignoring_case CHR ''i'' CHR ''I'') (RSeq (ignoring_case CHR ''n'' CHR ''N'')
     (RSeq (ignoring_case CHR ''t'' CHR ''T'') (ignoring_case CHR ''f'' CHR ''F'')))))"

definition open_paren :: regex where
  "open_paren = RSeq (RRep True 0 None (RSet False sp)) (RChar CHR ''('')"

primrec then_also :: "regex \<Rightarrow> regex \<Rightarrow> regex" where
  "then_also REmpty c = RSeq REmpty c"
| "then_also (RChar d) c = RSeq (RChar d) c"
| "then_also (RSet neg rs) c = RSeq (RSet neg rs) c"
| "then_also RAny c = RSeq RAny c"
| "then_also RBol c = RSeq RBol c"
| "then_also REol c = RSeq REol c"
| "then_also RWordB c = RSeq RWordB c"
| "then_also (RSeq a b) c = RSeq a (then_also b c)"
| "then_also (RAlt a b) c = RSeq (RAlt a b) c"
| "then_also (RRep g mn mx a) c = RSeq (RRep g mn mx a) c"
| "then_also (RGroup n a) c = RSeq (RGroup n a) c"
| "then_also (RBack n) c = RSeq (RBack n) c"
| "then_also (RLook pos a) c = RSeq (RLook pos a) c"

lemma ml_then_also: "st' \<in> set (ml (then_also a c) st) \<longleftrightarrow> st' \<in> set (ml (RSeq a c) st)"
  by (induction a arbitrary: st) auto

lemma printf_patterns:
  "compiled PRINTF_START = RSeq RWordB (RSeq (RRep True 0 (Some 1) (RGroup 1 string_word)) (then_also printf_word open_paren))"
  "re_compile_flags True PRINTF_NAME =
     Some (RSeq RWordB (RSeq (RGroup 1 (RSeq (RRep True 0 (Some 1) string_word) printf_word)) open_paren))"
  "plain_regex string_word" "plain_regex printf_word" "plain_regex open_paren"
  by (code_simp, code_simp) (auto simp: string_word_def printf_word_def open_paren_def)

lemma printf_name_found:
  assumes "Search PRINTF_START line = Some m"
  shows "\<exists>f. Search_ic PRINTF_NAME line = Some f"
proof -
  obtain S F P where lang: "takes string_word S" "takes printf_word F" "takes open_paren P"
    using plain_takes printf_patterns(3-5) by metis
  from assms obtain u v st where line: "line = u @ v" and st: "st \<in> set (ml (compiled PRINTF_START) (MSt (rev u) v []))"
    by (rule Search_Some)
  let ?st = "MSt (rev u) v []"
  from st have wb: "word_before ?st \<noteq> word_after ?st"
    and st: "st \<in> set (ml (RSeq (RRep True 0 (Some 1) (RGroup 1 string_word)) (then_also printf_word open_paren)) ?st)"
    unfolding printf_patterns(1) word_mem by blast+
  from st obtain w where w: "w \<in> set (ml (RRep True 0 (Some 1) (RGroup 1 string_word)) ?st)"
    and st: "st \<in> set (ml (RSeq printf_word open_paren) w)"
    unfolding mem_seq [of st "RRep True 0 (Some 1) (RGroup 1 string_word)"] ml_then_also by blast
  have "\<exists>t v' k. w = MSt (rev t @ rev u) v' k \<and> v = t @ v' \<and> MSt (rev t @ rev u) v' [] \<in> set (ml (RRep True 0 (Some 1) string_word) ?st)"
    using w lang(1) by (auto simp: takes_def close_group_def)
  then obtain t v' k where w: "w = MSt (rev t @ rev u) v' k" "v = t @ v'"
    "MSt (rev t @ rev u) v' [] \<in> set (ml (RRep True 0 (Some 1) string_word) ?st)" by blast
  from st obtain x y where x: "v' = x @ y" "F x" and st: "st \<in> set (ml open_paren (MSt (rev x @ rev t @ rev u) y k))"
    using lang(2) unfolding w(1) mem_seq takes_def by auto
  from st obtain z r where z: "y = z @ r" "P z" using lang(3) unfolding takes_def by auto
  have name: "MSt (rev x @ rev t @ rev u) y [] \<in> set (ml (RSeq (RRep True 0 (Some 1) string_word) printf_word) ?st)"
    unfolding mem_seq by (rule exI [of _ "MSt (rev t @ rev u) v' []"]) (use w(3) x lang(2) in \<open>simp add: takes_def del: ml.simps\<close>)
  have "MSt (rev z @ rev x @ rev t @ rev u) r [(1, length u, t @ x)] \<in>
      set (ml (RSeq (RGroup 1 (RSeq (RRep True 0 (Some 1) string_word) printf_word)) open_paren) ?st)"
    unfolding group_mem
    by (rule exI [of _ "MSt (rev x @ rev t @ rev u) y []"])
      (use name w(2) x z lang(3) in \<open>simp add: takes_def close_group_def del: ml.simps\<close>)
  then have "ml (RSeq RWordB (RSeq (RGroup 1 (RSeq (RRep True 0 (Some 1) string_word) printf_word)) open_paren)) ?st \<noteq> []"
    using wb by (metis empty_iff list.set(1) word_mem(1))
  then have "re_search (RSeq RWordB (RSeq (RGroup 1 (RSeq (RRep True 0 (Some 1) string_word) printf_word)) open_paren)) line \<noteq> None"
    unfolding re_search_def search_from_None line by (auto simp: run_at_None)
  then show ?thesis by (simp only: Search_ic_def printf_patterns(2) option.case) auto
qed

section \<open>Which lines are checked without an exception\<close>

text \<open>An \<open>&static_cast<...>\<close> (and the like) whose closing bracket is followed by some character of its line: the
  character \<open>CheckCasts\<close> reads.\<close>

definition cast_followed :: "cleansed_lines \<Rightarrow> int \<Rightarrow> bool" where
  "cast_followed cl linenum =
     (case Match CAST_BRACKET (elided cl ! nat linenum) of
        None \<Rightarrow> True
      | Some m \<Rightarrow>
          (case CloseExpression cl linenum (int (length (grp m 1))) of
             Inl _ \<Rightarrow> True | Inr (line, _, x) \<Rightarrow> x < int (length line)))"

lemma language_patterns:
  "head_group 1 (CHR ''('') (compiled FUNCTION_START)"
  "head_group 1 (CHR ''<'') (compiled CAST_BRACKET)"
  "last_char (CHR ''('') (compiled PRINTF_START)"
  "consumes (compiled PRINTF_START) = 7"
  "consumes (compiled (rx ''`bnamespace`s*{'')) = 10"
  by code_simp+

lemma cast_followed_plain: "CHR ''<'' \<notin> set (elided cl ! nat linenum) \<Longrightarrow> cast_followed cl linenum"
  using head_group_Match [OF language_patterns(2), of "elided cl ! nat linenum"]
  by (auto simp: cast_followed_def split: option.split)

lemma derived_function_total:
  "(\<And>n. n \<in> set ns \<Longrightarrow> in_file cl n) \<Longrightarrow> \<exists>b. derived_function cl ns = Inr b"
proof (induction ns)
  case (Cons n ns)
  then have n: "in_file cl n" and IH: "\<exists>b. derived_function cl ns = Inr b" by simp_all
  show ?case
  proof (cases "Match FUNCTION_START (elided cl ! nat n)")
    case (Some m)
    from head_group_length [OF language_patterns(1) Some] CloseExpression_total [OF n, of "int (length (grp m 1))"]
    obtain l y e where "CloseExpression cl n (int (length (grp m 1))) = Inr (l, y, e)" by auto
    with n Some show ?thesis by (simp add: total_Inr)
  qed (use n IH in \<open>simp add: total_Inr\<close>)
qed auto

lemma out_of_line_method_total: "(\<And>n. n \<in> set ns \<Longrightarrow> in_file cl n) \<Longrightarrow> \<exists>b. out_of_line_method cl ns = Inr b"
  by (induction ns) auto

lemma initializer_list_line_total:
  "(\<And>n. n \<in> set ns \<Longrightarrow> in_file cl n) \<Longrightarrow> \<exists>b. initializer_list_line cl linenum ns = Inr b"
  by (induction ns) (auto simp: Let_def)

lemma in_initializers_total: "(\<And>n. n \<in> set ns \<Longrightarrow> in_file cl n) \<Longrightarrow> \<exists>b. in_initializers cl ns = Inr b"
  by (induction ns) auto

lemma whitelisted_before_total: "(\<And>n. n \<in> set ns \<Longrightarrow> in_file cl n) \<Longrightarrow> \<exists>b. whitelisted_before cl ns = Inr b"
  by (induction ns) auto

lemma join_stripped_total: "(\<And>n. n \<in> set ns \<Longrightarrow> in_file cl n) \<Longrightarrow> \<exists>t. join_stripped cl ns acc = Inr t"
  by (induction ns arbitrary: acc) auto

lemma prepend_lines_total: "(\<And>n. n \<in> set ns \<Longrightarrow> in_file cl n) \<Longrightarrow> \<exists>t. prepend_lines cl ns acc = Inr t"
  by (induction ns arbitrary: acc) auto

lemma in_file_window: "in_file cl linenum \<Longrightarrow> 0 \<le> n \<Longrightarrow> n \<le> linenum \<Longrightarrow> in_file cl n"
  by (simp add: in_file_def)

lemma IsDerivedFunction_total: "in_file cl linenum \<Longrightarrow> \<exists>b. IsDerivedFunction cl linenum = Inr b"
  unfolding IsDerivedFunction_def by (rule derived_function_total) (auto simp: in_file_def)

lemma IsOutOfLineMethodDefinition_total: "in_file cl linenum \<Longrightarrow> \<exists>b. IsOutOfLineMethodDefinition cl linenum = Inr b"
  unfolding IsOutOfLineMethodDefinition_def by (rule out_of_line_method_total) (auto simp: in_file_def)

lemma IsInitializerList_total: "in_file cl linenum \<Longrightarrow> \<exists>b. IsInitializerList cl linenum = Inr b"
  unfolding IsInitializerList_def by (rule initializer_list_line_total) (auto simp: in_file_def)

lemma ExpectingFunctionArgs_total: "in_file cl linenum \<Longrightarrow> \<exists>b. ExpectingFunctionArgs cl linenum = Inr b"
  unfolding ExpectingFunctionArgs_def
  by (simp only: in_file_index bind_r_simps) (intro total_if total_Inr, simp add: in_file_window total_Inr)

lemma broken_type_total: "in_file cl linenum \<Longrightarrow> linenum > 1 \<Longrightarrow> \<exists>m. broken_type cl linenum line = Inr m"
  unfolding broken_type_def by (intro total_if total_Inr) (simp_all add: in_file_window)

lemma whole_declaration_total:
  assumes "in_file cl linenum" "line = elided cl ! nat linenum"
  shows "\<exists>t. whole_declaration cl linenum line = Inr t"
proof (cases "linenum > 1")
  case True
  from broken_type_total [OF assms(1) True] obtain b where b: "broken_type cl linenum line = Inr b" by blast
  show ?thesis
  proof (cases "b = None \<and> rfind line ''>'' > -1")
    case none: True
    have "rfind line ''>'' < int (length line)" using rfind_bounds [of "''>''" line] by auto
    with ReverseCloseExpression_total [OF assms(1), of "rfind line ''>''"] none assms(2)
    obtain l y p where r: "ReverseCloseExpression cl linenum (rfind line ''>'') = Inr (l, y, p)" "start_found cl (l, y, p)" by auto
    have "\<exists>t. join_stripped cl [y..linenum] [] = Inr t" if "p > -1"
      by (rule join_stripped_total) (use r(2) that assms(1) in \<open>auto simp: start_found_def in_file_def\<close>)
    with b none r(1) True show ?thesis by (auto simp: whole_declaration_def)
  qed (use b True in \<open>auto simp: whole_declaration_def Let_def split: option.splits\<close>)
qed (simp add: whole_declaration_def)

lemma whitelisted_total: "in_file cl linenum \<Longrightarrow> \<exists>b. whitelisted cl linenum line = Inr b"
  unfolding whitelisted_def by (intro total_if total_Inr whitelisted_before_total) (auto simp: in_file_def split: if_splits)

lemma dereferenced_cast_total:
  assumes "in_file cl linenum" "cast_followed cl linenum"
  shows "\<exists>b. dereferenced_cast cl linenum (elided cl ! nat linenum) = Inr b"
proof (cases "Match CAST_BRACKET (elided cl ! nat linenum)")
  case (Some m)
  from head_group_length [OF language_patterns(2) Some] CloseExpression_answer [OF assms(1), of "int (length (grp m 1))"]
  obtain l y x where first: "CloseExpression cl linenum (int (length (grp m 1))) = Inr (l, y, x)"
    "0 \<le> x \<and> in_file cl y \<and> l = elided cl ! nat y \<or> x < 0" by auto
  from assms(2) Some first(1) have x: "x < int (length l)" by (simp add: cast_followed_def)
  show ?thesis
  proof (cases "0 \<le> x")
    case True
    with first(2) have y: "in_file cl y" "l = elided cl ! nat y" by auto
    from CloseExpression_answer [OF y(1) True] x y(2) obtain l2 y2 x2 where second: "CloseExpression cl y x = Inr (l2, y2, x2)"
      "0 \<le> x2 \<Longrightarrow> in_file cl y2" by auto
    have after: "in_file cl (y2 + 1)" if "0 \<le> x2" "y2 < NumLines cl - 1"
      using second(2) that by (auto simp: in_file_def NumLines_def)
    from True x have c: "py_index l x = Inr (l ! nat x)" by simp
    show ?thesis
      unfolding dereferenced_cast_def Some option.case first(1) bind_r_simps prod.case in_file_index(1) [OF y(1)] y(2) [symmetric] c second(1)
      using True second(2) after
      by (cases "0 \<le> x2"; cases "y2 < NumLines cl - 1") (auto intro: total_if)
  qed (use Some first in \<open>auto simp: dereferenced_cast_def\<close>)
qed (auto simp: dereferenced_cast_def)

lemma dereferenced_cast_past_end:
  assumes "in_file cl linenum" "\<not> cast_followed cl linenum"
  shows "dereferenced_cast cl linenum (elided cl ! nat linenum) = Inl IndexError"
proof -
  from assms(2) obtain m where m: "Match CAST_BRACKET (elided cl ! nat linenum) = Some m"
    by (auto simp: cast_followed_def split: option.splits)
  from head_group_length [OF language_patterns(2) m] CloseExpression_answer [OF assms(1), of "int (length (grp m 1))"]
  obtain l y x where first: "CloseExpression cl linenum (int (length (grp m 1))) = Inr (l, y, x)"
    "0 \<le> x \<and> in_file cl y \<and> l = elided cl ! nat y \<or> x < 0" by auto
  with m assms(2) have x: "\<not> x < int (length l)" by (simp add: cast_followed_def)
  with first(2) have y: "0 \<le> x" "in_file cl y" "l = elided cl ! nat y" by auto
  have "py_index l x = Inl IndexError" using x by (simp add: py_index_def from_start_def)
  with y show ?thesis by (simp add: dereferenced_cast_def m first(1) del: One_nat_def)
qed

text \<open>The bracket before which the start pattern ends is a parenthesis.\<close>

lemma Search_last_char:
  assumes "last_char c (compiled p)" "Search p s = Some m"
  shows "0 < m_end m" and "s ! (m_end m - 1) = c"
proof -
  from assms(2) obtain u v st where st: "s = u @ v" "st \<in> set (ml (compiled p) (MSt (rev u) v []))"
    "v = m_text m @ after st" "m_start m = length u" by (rule Search_Some)
  from ml_last_char [OF st(2) assms(1)] obtain b where b: "before st = c # b" by blast
  from ml_moves [OF st(2)] have "rev (before st) @ after st = (u @ m_text m) @ after st" using st(1,3) by (auto simp: moves_def)
  then have e: "u @ m_text m = rev b @ [c]" using b by simp
  from arg_cong [OF e, of length] st(4) have len: "m_end m = Suc (length b)" by (simp add: m_end_def)
  then show "0 < m_end m" by simp
  have "s = rev b @ [c] @ after st" using st(1,3) e by simp
  with len show "s ! (m_end m - 1) = c" by (simp add: nth_append)
qed

lemma GetTextInside_total:
  assumes "last_char c (compiled p)" "closing_of c \<noteq> None"
  shows "\<exists>r. GetTextInside s p = Inr r \<and> (r \<noteq> None \<longrightarrow> found p s)"
proof (cases "Search p s")
  case (Some m)
  from Search_last_char [OF assms(1) Some] assms(2) Some show ?thesis by (auto simp: GetTextInside_def)
qed (simp add: GetTextInside_def)

lemma reset_section_total:
  "inc_ok incs \<Longrightarrow> \<exists>i. (case Match (rx ''^`s*#`s*(if|ifdef|ifndef|elif|else|endif)`b'') line of None \<Rightarrow> Inr incs
      | Some m \<Rightarrow> ResetSection (grp m 1) incs) = Inr i \<and> inc_ok i"
  using ResetSection_ok by (cases "Match (rx ''^`s*#`s*(if|ifdef|ifndef|elif|else|endif)`b'') line") auto

context reporter
begin

lemma report_references_safe [safe_intros]: "safe_unit I (report_references filename linenum line error)"
  unfolding report_references_def by (intro safe_intros) simp_all

lemma CheckForNonConstReference_safe [safe_intros]:
  assumes "in_file cl linenum"
  shows "safe_unit I (CheckForNonConstReference filename cl linenum ns error)"
proof -
  let ?line = "elided cl ! nat linenum"
  obtain a b t l where total: "IsDerivedFunction cl linenum = Inr a" "IsOutOfLineMethodDefinition cl linenum = Inr b"
    "whole_declaration cl linenum ?line = Inr t" "IsInitializerList cl linenum = Inr l"
    using IsDerivedFunction_total [OF assms] IsOutOfLineMethodDefinition_total [OF assms]
      whole_declaration_total [OF assms refl] IsInitializerList_total [OF assms] by metis
  have "\<exists>i. (if linenum > 0 then in_initializers cl (rev [max 0 (linenum - 10) + 1..linenum - 1]) else Inr False) = Inr i"
    by (intro total_if total_Inr in_initializers_total) (use assms in \<open>auto simp: in_file_def\<close>)
  then obtain i where i: "(if linenum > 0 then in_initializers cl (rev [max 0 (linenum - 10) + 1..linenum - 1]) else Inr False) = Inr i"
    by blast
  obtain w where w: "whitelisted cl linenum t = Inr w" using whitelisted_total [OF assms] by blast
  show ?thesis
    unfolding CheckForNonConstReference_def in_file_index(1) [OF assms] total i w let_r_simps by (intro safe_intros)
qed

lemma CheckCStyleCast_safe [safe_intros]:
  assumes "in_file cl linenum"
  shows "safe I (\<lambda>_. True) (CheckCStyleCast filename cl linenum ct p error)"
proof -
  have ctx: "\<exists>t. prepend_lines cl (if linenum > 0 then rev [max 0 (linenum - 5) + 1..linenum - 1] else []) acc = Inr t" for acc
    by (rule prepend_lines_total) (use assms in \<open>auto simp: in_file_def split: if_splits\<close>)
  show ?thesis unfolding CheckCStyleCast_def by (intro safe_intros assms safe_total_any [OF ctx]) simp_all
qed

lemma check_address_of_cast_safe:
  assumes "in_file cl linenum" "cast_followed cl linenum"
  shows "safe_unit I (check_address_of_cast filename cl linenum (elided cl ! nat linenum) error)"
proof -
  obtain b where b: "dereferenced_cast cl linenum (elided cl ! nat linenum) = Inr b" using dereferenced_cast_total [OF assms] by blast
  show ?thesis unfolding check_address_of_cast_def b let_r_simps by (intro safe_intros) simp_all
qed

lemma CheckCasts_safe [safe_intros]:
  assumes "in_file cl linenum" "cast_followed cl linenum"
  shows "safe_unit I (CheckCasts filename cl linenum error)"
proof -
  obtain b where b: "ExpectingFunctionArgs cl linenum = Inr b" using ExpectingFunctionArgs_total [OF assms(1)] by blast
  show ?thesis unfolding CheckCasts_def in_file_index(1) [OF assms(1)] b let_r_simps
    by (intro safe_intros check_address_of_cast_safe safe_andthen [where P = "\<lambda>_. True"] assms) simp_all
qed

lemma check_address_of_cast_runs:
  assumes "in_file cl linenum"
  shows "runs {e. e = IndexError \<and> \<not> cast_followed cl linenum} I (\<lambda>_. True)
    (check_address_of_cast filename cl linenum (elided cl ! nat linenum) error)"
proof (cases "cast_followed cl linenum")
  case False
  then show ?thesis unfolding check_address_of_cast_def dereferenced_cast_past_end [OF assms False] let_r_simps
    by (intro runs_intros safe_runs [OF safe_pass]) simp_all
qed (use check_address_of_cast_safe [OF assms] safe_runs in blast)

lemma CheckCasts_runs:
  assumes "in_file cl linenum"
  shows "runs {e. e = IndexError \<and> \<not> cast_followed cl linenum} I (\<lambda>_. True) (CheckCasts filename cl linenum error)"
proof -
  obtain b where b: "ExpectingFunctionArgs cl linenum = Inr b" using ExpectingFunctionArgs_total [OF assms] by blast
  have cast: "runs E I (\<lambda>_. True) (if c then CheckCStyleCast filename cl linenum t p error else ret False)"
    "runs E I (\<lambda>_. True) (if c then ret False else CheckCStyleCast filename cl linenum t p error)"
    "runs E I (\<lambda>_. True) (CheckCStyleCast filename cl linenum t p error)" for E c t p
    by (intro safe_runs safe_intros assms TrueI)+
  have report: "runs E I (\<lambda>_. True) (case x of None \<Rightarrow> pass | Some m \<Rightarrow> do_when (g m) (error filename linenum ''readability/casting'' 4 (t m)))"
    for E g t and x :: "mobj option"
    by (intro safe_runs safe_intros) simp_all
  show ?thesis unfolding CheckCasts_def in_file_index(1) [OF assms] b let_r_simps Let_def
    by (intro runs_if runs_seq runs_andthen [where P = "\<lambda>_. True"] cast report check_address_of_cast_runs assms)
      (simp_all add: runs_def pass_def ret_def)
qed

lemma CheckGlobalStatic_safe [safe_intros]:
  assumes "in_file cl linenum"
  shows "safe_unit I (CheckGlobalStatic filename cl linenum error)"
proof -
  have line: "\<exists>t. (if linenum + 1 < NumLines cl \<and> \<not> found ''[;({]'' line0
      then bind_r (py_index (elided cl) (linenum + 1)) (\<lambda>next_line. Inr (line0 @ strip next_line)) else Inr line0) = Inr t" for line0
    by (intro total_if total_Inr) (use assms in \<open>simp add: in_file_def NumLines_def cl_ok_def\<close>)
  show ?thesis unfolding CheckGlobalStatic_def by (intro safe_intros assms safe_total_any [OF line]) simp_all
qed

lemma CheckPrintf_safe [safe_intros]: "in_file cl linenum \<Longrightarrow> safe_unit I (CheckPrintf filename cl linenum error)"
  unfolding CheckPrintf_def by (intro safe_intros) simp_all

lemma check_format_string_safe [safe_intros]: "safe_unit I (check_format_string filename linenum line error)"
proof -
  obtain r where r: "GetTextInside line PRINTF_START = Inr r" "r \<noteq> None \<longrightarrow> found PRINTF_START line"
    using GetTextInside_total [OF language_patterns(3)] by (auto simp: closing_of_def)
  have name: "safe_unit I (let_r (case Search_ic PRINTF_NAME line of None \<Rightarrow> Inl AttributeError | Some f \<Rightarrow> Inr (grp f 1)) g)"
    if some: "r = Some args" and g: "\<And>n. safe_unit I (g n)" for args g
  proof -
    from r(2) some obtain m where "Search PRINTF_START line = Some m" by auto
    from printf_name_found [OF this] obtain f where "Search_ic PRINTF_NAME line = Some f" by blast
    with g show ?thesis by simp
  qed
  show ?thesis unfolding check_format_string_def r(1) let_r_simps
    by (intro safe_intros name) simp_all
qed

lemma check_array_size_safe [safe_intros]: "safe_unit I (check_array_size filename linenum line error)"
  unfolding check_array_size_def by (intro safe_intros) simp_all

lemma check_language_line_safe [safe_intros]: "safe_unit I (check_language_line filename linenum line ext error)"
  unfolding check_language_line_def by (intro safe_intros) simp_all

lemma CheckLanguage_runs:
  assumes "in_file cl linenum" "walks_end env" "inc_ok incs"
  shows "runs {e. e = IndexError \<and> \<not> cast_followed cl linenum} I inc_ok (CheckLanguage env filename cl linenum ext incs error)"
proof -
  have rest: "runs E I inc_ok (ret i)" if "inc_ok i" for E i using that by (intro safe_runs safe_ret)
  have line: "runs E I inc_ok (CheckIncludeLine env filename cl linenum incs error)" for E
    by (intro safe_runs CheckIncludeLine_safe assms)
  have other: "runs E I (\<lambda>_. True) (CheckGlobalStatic filename cl linenum error)"
    "runs E I (\<lambda>_. True) (CheckPrintf filename cl linenum error)"
    "runs E I (\<lambda>_. True) (check_language_line filename linenum l ext error)" for E l
    by (intro safe_runs safe_intros assms)+
  obtain i where i: "(case Match (rx ''^`s*#`s*(if|ifdef|ifndef|elif|else|endif)`b'') (elided cl ! nat linenum) of None \<Rightarrow> Inr incs
      | Some m \<Rightarrow> ResetSection (grp m 1) incs) = Inr i" "inc_ok i"
    using reset_section_total [OF assms(3)] by blast
  show ?thesis unfolding CheckLanguage_def in_file_index(1) [OF assms(1)] i(1) let_r_simps
    by (intro runs_if runs_seq runs_block CheckCasts_runs other line rest assms i(2))
qed

end

section \<open>Properties\<close>

text \<open>C28: the check for the address of a cast reads past the end of a line exactly when the template bracket
  of a \<open>&static_cast<...>\<close> (or its siblings) closes its line: then, that is when the condition \<open>cast_followed\<close>
  fails, the lookup raises \<open>IndexError\<close>; on every other line of a file it returns.\<close>

theorem cast_lookup_raises:
  assumes "in_file cl linenum"
  shows "if cast_followed cl linenum then \<exists>b. dereferenced_cast cl linenum (elided cl ! nat linenum) = Inr b
    else dereferenced_cast cl linenum (elided cl ! nat linenum) = Inl IndexError"
  using dereferenced_cast_past_end [OF assms] dereferenced_cast_total [OF assms] by auto

definition address_of_cast :: "string list" where
  "address_of_cast = [''  p = &static_cast<Foo*>'', ''      (q);'']"

theorem cast_lookup_raises_witness:
  "\<exists>cl. CleansedLines address_of_cast = Inr cl \<and> in_file cl 0
     \<and> dereferenced_cast cl 0 (elided cl ! nat 0) = Inl IndexError \<and> \<not> cast_followed cl 0"
proof -
  let ?cl = "\<lparr>elided = address_of_cast, lines = address_of_cast, raw_lines = address_of_cast, num_lines = 2,
    lines_without_raw_strings = address_of_cast\<rparr>"
  have cl: "CleansedLines address_of_cast = Inr ?cl" "\<not> cast_followed ?cl 0" by code_simp+
  have "in_file ?cl 0" by (simp add: in_file_def cl_ok_def address_of_cast_def)
  with cl cast_lookup_raises [OF this] show ?thesis by auto
qed

end
