(* ===== verification/Declaration_Checks.thy ===== *)
theory Declaration_Checks
  imports Language_Checks
begin

text \<open>
  The remaining checks of one line: \<open>make_pair\<close>, redundant \<open>virtual\<close>, \<open>override\<close> and \<open>final\<close>,
  indentation inside namespaces, and the flags for C++11 and C++14 features.
\<close>

section \<open>make_pair, virtual, override and final\<close>

definition RE_PATTERN_EXPLICIT_MAKEPAIR :: string where
  "RE_PATTERN_EXPLICIT_MAKEPAIR = rx ''`bmake_pair`s*<''"

definition CheckMakePairUsesDeduction :: "string \<Rightarrow> cleansed_lines \<Rightarrow> int \<Rightarrow> error_fn \<Rightarrow> (lint, unit) py" where
  "CheckMakePairUsesDeduction filename cl linenum error =
     let_r (py_index (elided cl) linenum) (\<lambda>line.
       do_when (found RE_PATTERN_EXPLICIT_MAKEPAIR line)
         (error filename linenum ''build/explicit_make_pair'' 4
           ''For C++11-compatibility, omit template arguments from make_pair OR use pair directly OR if appropriate, construct a pair directly''))"

definition VIRTUAL :: string where
  "VIRTUAL = rx ''^(.*)(`bvirtual`b)(.*)$''"

text \<open>The end of the parameter list: line and column after the closing parenthesis, \<open>-1\<close> for both when
  no parenthesis is opened on the given lines.\<close>

fun parameter_list_end :: "cleansed_lines \<Rightarrow> int list \<Rightarrow> int \<Rightarrow> (int \<times> int) result" where
  "parameter_list_end cl [] start_col = Inr (-1, -1)"
| "parameter_list_end cl (start_line # rest) start_col =
     bind_r (py_index (elided cl) start_line) (\<lambda>whole.
       case Match (rx ''^([^(]*)`('') (slice_from whole start_col) of
         Some parameter_list \<Rightarrow>
           bind_r (CloseExpression cl start_line (start_col + int (length (grp parameter_list 1)))) (\<lambda>(_, end_line, end_col).
             Inr (end_line, end_col))
       | None \<Rightarrow> parameter_list_end cl rest 0)"

fun report_redundant_virtual :: "string \<Rightarrow> int \<Rightarrow> error_fn \<Rightarrow> cleansed_lines \<Rightarrow> int list \<Rightarrow> int \<Rightarrow> (lint, unit) py" where
  "report_redundant_virtual filename linenum error cl [] end_col = pass"
| "report_redundant_virtual filename linenum error cl (i # is) end_col =
     let_r (py_index (elided cl) i) (\<lambda>whole.
       let line = slice_from whole end_col in
       seq (case Search (rx ''`b(override|final)`b'') line of
              None \<Rightarrow> pass
            | Some m \<Rightarrow> error filename linenum ''readability/inheritance'' 4
                (msg_of [[dquote], ''virtual'', [dquote], '' is redundant since function is already declared as '',
                   [dquote], grp m 1, [dquote]]))
           (if found (rx ''[^`w]`s*$'') line then pass
            else report_redundant_virtual filename linenum error cl is 0))"

definition CheckRedundantVirtual :: "string \<Rightarrow> cleansed_lines \<Rightarrow> int \<Rightarrow> error_fn \<Rightarrow> (lint, unit) py" where
  "CheckRedundantVirtual filename cl linenum error =
     let_r (py_index (elided cl) linenum) (\<lambda>line.
       case Match VIRTUAL line of
         None \<Rightarrow> pass
       | Some virtual \<Rightarrow>
           if found (rx ''`b(public|protected|private)`s+$'') (grp virtual 1)
              \<or> matches (rx ''^`s+(public|protected|private)`b'') (grp virtual 3)
           then pass
           else if matches ''^.*[^:]:[^:].*$'' line then pass
           else
             let_r (parameter_list_end cl [linenum..min (linenum + 3) (NumLines cl) - 1] (int (length (grp virtual 2))))
               (\<lambda>(end_line, end_col).
                 if end_col < 0 then pass
                 else report_redundant_virtual filename linenum error cl
                        [end_line..min (end_line + 3) (NumLines cl) - 1] end_col))"

definition CheckRedundantOverrideOrFinal :: "string \<Rightarrow> cleansed_lines \<Rightarrow> int \<Rightarrow> error_fn \<Rightarrow> (lint, unit) py" where
  "CheckRedundantOverrideOrFinal filename cl linenum error =
     let_r (py_index (elided cl) linenum) (\<lambda>line.
       let declarator_end = rfind line '')'' in
       let_r (if declarator_end \<ge> 0 then Inr (Some (slice_from line declarator_end))
              else if linenum > 1
              then bind_r (py_index (elided cl) (linenum - 1)) (\<lambda>prev.
                     Inr (if rfind prev '')'' \<ge> 0 then Some line else None))
              else Inr None) (\<lambda>fragment.
         case fragment of
           None \<Rightarrow> pass
         | Some fragment \<Rightarrow>
             do_when (found (rx ''`boverride`b'') fragment \<and> found (rx ''`bfinal`b'') fragment)
               (error filename linenum ''readability/inheritance'' 4
                 (msg_of [[dquote], ''override'', [dquote], '' is redundant since function is already declared as '',
                    [dquote], ''final'', [dquote]]))))"

section \<open>Indentation in namespaces\<close>

definition IsBlockInNameSpace :: "nesting_state \<Rightarrow> bool \<Rightarrow> bool" where
  "IsBlockInNameSpace ns is_forward_declaration =
     (if is_forward_declaration then (case stack ns of [] \<Rightarrow> False | b # _ \<Rightarrow> is_namespace b)
      else (case stack ns of b # c # _ \<Rightarrow> check_namespace_indentation b \<and> is_namespace c | _ \<Rightarrow> False))"

definition ShouldCheckNamespaceIndentation :: "nesting_state \<Rightarrow> bool \<Rightarrow> string list \<Rightarrow> int \<Rightarrow> bool result" where
  "ShouldCheckNamespaceIndentation ns is_namespace_indent_item raw_lines_no_comments linenum =
     bind_r (IsForwardClassDeclaration raw_lines_no_comments linenum) (\<lambda>is_forward_declaration.
       if \<not> (is_namespace_indent_item \<or> is_forward_declaration) then Inr False
       else bind_r (IsMacroDefinition raw_lines_no_comments linenum) (\<lambda>macro.
         if macro then Inr False else Inr (IsBlockInNameSpace ns is_forward_declaration)))"

definition CheckItemIndentationInNamespace :: "string \<Rightarrow> string list \<Rightarrow> int \<Rightarrow> error_fn \<Rightarrow> (lint, unit) py" where
  "CheckItemIndentationInNamespace filename raw_lines_no_comments linenum error =
     let_r (py_index raw_lines_no_comments linenum) (\<lambda>line.
       do_when (matches (rx ''^`s+'') line)
         (error filename linenum ''runtime/indentation_namespace'' 4 ''Do not indent within a namespace''))"

text \<open>Blocks are compared as objects, by their identity.\<close>

definition namespace_indent_item :: "nesting_state \<Rightarrow> bool" where
  "namespace_indent_item ns =
     (case stack ns of
        b # c # _ \<Rightarrow>
          check_namespace_indentation b
          \<and> (case previous_stack_top ns of None \<Rightarrow> False | Some p \<Rightarrow> is_namespace p \<and> oid p = oid c)
      | _ \<Rightarrow> False)"

definition CheckForNamespaceIndentation :: "string \<Rightarrow> nesting_state \<Rightarrow> cleansed_lines \<Rightarrow> int \<Rightarrow> error_fn \<Rightarrow> (lint, unit) py" where
  "CheckForNamespaceIndentation filename ns cl linenum error =
     let_r (ShouldCheckNamespaceIndentation ns (namespace_indent_item ns) (elided cl) linenum) (\<lambda>should.
       do_when should (CheckItemIndentationInNamespace filename (elided cl) linenum error))"

section \<open>C++11 and C++14\<close>

definition INCLUDE_NAME :: string where
  \<open>INCLUDE_NAME = rx ''`s*#`s*include`s+[<"]([^<"]+)[">]''\<close>

definition UNAPPROVED_CXX11_HEADERS :: "string list" where
  "UNAPPROVED_CXX11_HEADERS =
     [''cfenv'', ''condition_variable'', ''fenv.h'', ''future'', ''mutex'', ''thread'', ''chrono'', ''ratio'',
      ''regex'', ''system_error'']"

definition FlagCxx11Features :: "string \<Rightarrow> cleansed_lines \<Rightarrow> int \<Rightarrow> error_fn \<Rightarrow> (lint, unit) py" where
  "FlagCxx11Features filename cl linenum error =
     let_r (py_index (elided cl) linenum) (\<lambda>line.
       seq (case Match INCLUDE_NAME line of
              None \<Rightarrow> pass
            | Some m \<Rightarrow>
                seq (do_when (startswith (grp m 1) ''tr1/'')
                      (error filename linenum ''build/c++tr1'' 5
                        (msg_of [''C++ TR1 headers such as <'', grp m 1, ''> are unapproved.''])))
                    (do_when (grp m 1 \<in> set UNAPPROVED_CXX11_HEADERS)
                      (error filename linenum ''build/c++11'' 5
                        (msg_of [''<'', grp m 1, ''> is an unapproved C++11 header.'']))))
       (if matches (rx ''`s*#'') line \<and> \<not> matches (rx ''`s*#`s*define`b'') line then pass
        else for_each [''alignment_of'', ''aligned_union''] (\<lambda>top_name.
          do_when (found (rx ''`bstd::'' @ top_name @ rx ''`b'') line)
            (error filename linenum ''build/c++11'' 5
              (msg_of [''std::'', top_name, '' is an unapproved C++11 class or function.  Send c-style '',
                 ''an example of where it would make your code more readable, and '',
                 ''they may let you use it.''])))))"

definition FlagCxx14Features :: "string \<Rightarrow> cleansed_lines \<Rightarrow> int \<Rightarrow> error_fn \<Rightarrow> (lint, unit) py" where
  "FlagCxx14Features filename cl linenum error =
     let_r (py_index (elided cl) linenum) (\<lambda>line.
       case Match INCLUDE_NAME line of
         None \<Rightarrow> pass
       | Some m \<Rightarrow>
           do_when (grp m 1 \<in> {''scoped_allocator'', ''shared_mutex''})
             (error filename linenum ''build/c++14'' 5
               (msg_of [''<'', grp m 1, ''> is an unapproved C++14 header.''])))"

section \<open>The checks return\<close>

lemma declaration_patterns:
  "head_group 1 (CHR ''('') (compiled (rx ''^([^(]*)`(''))"
  by code_simp

lemma parameter_list_end_total:
  assumes "\<And>n. n \<in> set ns \<Longrightarrow> in_file cl n" "0 \<le> start_col"
  shows "\<exists>l c. parameter_list_end cl ns start_col = Inr (l, c) \<and> (0 \<le> c \<longrightarrow> in_file cl l)"
  using assms
proof (induction ns arbitrary: start_col)
  case (Cons n ns)
  let ?line = "elided cl ! nat n"
  from Cons.prems have n: "in_file cl n" by simp
  show ?case
  proof (cases "Match (rx ''^([^(]*)`('') (slice_from ?line start_col)")
    case (Some m)
    from head_group_length [OF declaration_patterns Some] Cons.prems(2)
    have "start_col + int (length (grp m 1)) < int (length ?line)" by (simp add: slice_from_def clip_def from_start_def)
    with CloseExpression_answer [OF n, of "start_col + int (length (grp m 1))"] Cons.prems(2)
    obtain l y e where "CloseExpression cl n (start_col + int (length (grp m 1))) = Inr (l, y, e)" "0 \<le> e \<longrightarrow> in_file cl y" by auto
    with n Some show ?thesis by simp
  qed (use n Cons in simp)
qed simp

context reporter
begin

lemma CheckMakePairUsesDeduction_safe [safe_intros]:
  "in_file cl linenum \<Longrightarrow> safe_unit I (CheckMakePairUsesDeduction filename cl linenum error)"
  unfolding CheckMakePairUsesDeduction_def by (intro safe_intros) simp_all

lemma report_redundant_virtual_safe:
  "(\<And>n. n \<in> set ns \<Longrightarrow> in_file cl n) \<Longrightarrow> safe_unit I (report_redundant_virtual filename linenum error cl ns end_col)"
proof (induction ns arbitrary: end_col)
  case (Cons n ns)
  then show ?case unfolding report_redundant_virtual.simps by (intro safe_intros Cons.IH) simp_all
qed (simp add: safe_intros)

lemma CheckRedundantVirtual_safe [safe_intros]:
  assumes "in_file cl linenum"
  shows "safe_unit I (CheckRedundantVirtual filename cl linenum error)"
proof -
  have lines: "n \<in> set [l..min (l + 3) (NumLines cl) - 1] \<Longrightarrow> in_file cl n" if "in_file cl l" for l n
    using that by (auto simp: in_file_def NumLines_def)
  have params: "\<exists>r. parameter_list_end cl [linenum..min (linenum + 3) (NumLines cl) - 1] (int k) = Inr r
      \<and> (0 \<le> snd r \<longrightarrow> in_file cl (fst r))" for k
  proof -
    obtain l c where "parameter_list_end cl [linenum..min (linenum + 3) (NumLines cl) - 1] (int k) = Inr (l, c)"
      "0 \<le> c \<longrightarrow> in_file cl l"
      using parameter_list_end_total [OF lines [OF assms] of_nat_0_le_iff] by blast
    then show ?thesis by simp
  qed
  show ?thesis unfolding CheckRedundantVirtual_def
    by (intro safe_intros assms safe_total [OF params] report_redundant_virtual_safe)
      (simp_all add: in_file_def NumLines_def)
qed

lemma CheckRedundantOverrideOrFinal_safe [safe_intros]:
  assumes "in_file cl linenum"
  shows "safe_unit I (CheckRedundantOverrideOrFinal filename cl linenum error)"
proof -
  have prev: "in_file cl (linenum - 1)" if "linenum > 1" using that assms by (simp add: in_file_def)
  have fragment: "\<exists>f. (if d \<ge> 0 then Inr (Some (slice_from line d))
      else if linenum > 1
      then bind_r (py_index (elided cl) (linenum - 1)) (\<lambda>prev. Inr (if rfind prev '')'' \<ge> 0 then Some line else None))
      else Inr None) = Inr f" for d line
    by (intro total_if total_Inr) (simp add: prev)
  show ?thesis unfolding CheckRedundantOverrideOrFinal_def
    by (intro safe_intros assms safe_total_any [OF fragment]) simp_all
qed

lemma CheckForNamespaceIndentation_safe [safe_intros]:
  assumes "in_file cl linenum"
  shows "safe_unit I (CheckForNamespaceIndentation filename ns cl linenum error)"
proof -
  have "in_file cl (linenum - 1)" if "linenum > 0" using that assms by (simp add: in_file_def)
  then have should: "\<exists>b. ShouldCheckNamespaceIndentation ns item (elided cl) linenum = Inr b" for item
    using assms by (auto simp: ShouldCheckNamespaceIndentation_def IsForwardClassDeclaration_def IsMacroDefinition_def)
  show ?thesis unfolding CheckForNamespaceIndentation_def CheckItemIndentationInNamespace_def
    by (intro safe_intros assms safe_total_any [OF should]) simp_all
qed

lemma FlagCxx11Features_safe [safe_intros]:
  "in_file cl linenum \<Longrightarrow> safe_unit I (FlagCxx11Features filename cl linenum error)"
  unfolding FlagCxx11Features_def by (intro safe_intros) simp_all

lemma FlagCxx14Features_safe [safe_intros]:
  "in_file cl linenum \<Longrightarrow> safe_unit I (FlagCxx14Features filename cl linenum error)"
  unfolding FlagCxx14Features_def by (intro safe_intros) simp_all

end

end
