(* ===== verification/File_Data.thy ===== *)
theory File_Data
  imports Declaration_Checks
begin

text \<open>
  \<open>ProcessLine\<close> and \<open>ProcessFileData\<close>: all the checks of one line in the order of the program, and the
  checks of one file around the loop over its lines.  The three objects a file is processed with form
  the record \<open>file_state\<close>.  The text of a file is a list of lines whose characters have code points below
  256; \<open>env\<close>, \<open>io\<close> and \<open>ord\<close> stand for the file system and the order of dictionary keys.
\<close>

record file_state =
  include_part :: include_state
  function_part :: function_state
  nesting_part :: nesting_state

definition init_file_state :: file_state where
  "init_file_state =
     \<lparr>include_part = init_include_state, function_part = init_function_state, nesting_part = init_nesting_state\<rparr>"

type_synonym check_fn = "string \<Rightarrow> cleansed_lines \<Rightarrow> int \<Rightarrow> error_fn \<Rightarrow> (lint, unit) py"

definition ProcessLine :: "os_env \<Rightarrow> string \<Rightarrow> string \<Rightarrow> cleansed_lines \<Rightarrow> int \<Rightarrow> file_state \<Rightarrow> error_fn \<Rightarrow> check_fn list
    \<Rightarrow> (lint, file_state) py" where
  "ProcessLine env filename file_extension cl linenum st error extra_check_functions =
     let_r (py_index (raw_lines cl) linenum) (\<lambda>raw_line.
     seq (ParseNolintSuppressions filename raw_line linenum error)
     (andthen (Update filename cl linenum error (nesting_part st)) (\<lambda>ns.
     seq (CheckForNamespaceIndentation filename ns cl linenum error)
     (if InAsmBlock ns then ret (st\<lparr>nesting_part := ns\<rparr>)
      else
        andthen (CheckForFunctionLengths filename cl linenum (function_part st) error) (\<lambda>fs.
        seq (block
          [CheckForMultilineCommentsAndStrings filename cl linenum error,
           CheckStyle env filename cl linenum file_extension ns error])
        (andthen (CheckLanguage env filename cl linenum file_extension (include_part st) error) (\<lambda>incs.
        seq (block
          [CheckForNonConstReference filename cl linenum ns error,
           CheckForNonStandardConstructs filename cl linenum ns error,
           CheckVlogArguments filename cl linenum error,
           CheckPosixThreading filename cl linenum error,
           CheckInvalidIncrement filename cl linenum error,
           CheckMakePairUsesDeduction filename cl linenum error,
           CheckRedundantVirtual filename cl linenum error,
           CheckRedundantOverrideOrFinal filename cl linenum error,
           for_each extra_check_functions (\<lambda>check_fn. check_fn filename cl linenum error)])
        (ret \<lparr>include_part = incs, function_part = fs, nesting_part = ns\<rparr>))))))))"

fun process_lines :: "os_env \<Rightarrow> string \<Rightarrow> string \<Rightarrow> cleansed_lines \<Rightarrow> error_fn \<Rightarrow> check_fn list \<Rightarrow> int list \<Rightarrow> file_state
    \<Rightarrow> (lint, file_state) py" where
  "process_lines env filename file_extension cl error extra [] st = ret st"
| "process_lines env filename file_extension cl error extra (linenum # linenums) st =
     andthen (ProcessLine env filename file_extension cl linenum st error extra) (\<lambda>st.
       seq (FlagCxx11Features filename cl linenum error)
           (process_lines env filename file_extension cl error extra linenums st))"

definition with_markers :: "string list \<Rightarrow> string list" where
  "with_markers ls =
     [''// marker so line numbers and indices both start at 1''] @ ls @ [''// marker so line numbers end in a known way'']"

definition ProcessFileData :: "os_env \<Rightarrow> (string \<Rightarrow> string list option) \<Rightarrow> (string list \<Rightarrow> string list)
    \<Rightarrow> string \<Rightarrow> string \<Rightarrow> string list \<Rightarrow> error_fn \<Rightarrow> check_fn list \<Rightarrow> (lint, unit) py" where
  "ProcessFileData env io ord filename file_extension ls0 error extra =
     (let ls1 = with_markers ls0 in
      seq (modify ResetNolintSuppressions)
     (seq (CheckForCopyright filename ls1 error)
     (seq (ProcessGlobalSuppresions ls1)
     (andthen (RemoveMultiLineComments filename ls1 error) (\<lambda>ls.
      let_r (CleansedLines ls) (\<lambda>cl.
      seq (do_when (file_extension = ''h'') (CheckForHeaderGuard env filename cl error))
     (andthen (process_lines env filename file_extension cl error extra [0..NumLines cl - 1] init_file_state) (\<lambda>st.
      block
        [CheckCompletedBlocks filename error (nesting_part st),
         CheckForIncludeWhatYouUse env io ord filename cl (include_part st) error,
         do_when (IsSourceExtension file_extension) (CheckHeaderFileIncluded env filename (include_part st) error),
         CheckForBadCharacters filename (map (map of_char) ls) error,
         CheckForNewlineAtEOF filename ls error]))))))))"

section \<open>What can go wrong on a line\<close>

text \<open>The two lookups of the checks that a line can send past the end of a list.\<close>

definition line_ok :: "cleansed_lines \<Rightarrow> int \<Rightarrow> bool" where
  "line_ok cl linenum \<longleftrightarrow> cast_followed cl linenum \<and> constructors_ok cl linenum"

lemma line_ok_plain:
  "CHR ''<'' \<notin> set (elided cl ! nat n) \<Longrightarrow> CHR ''('' \<notin> set (elided cl ! nat n) \<Longrightarrow> line_ok cl n"
  by (simp add: line_ok_def cast_followed_plain constructors_ok_plain)

definition line_errors :: "cleansed_lines \<Rightarrow> py_error set" where
  "line_errors cl = {e. e = IndexError \<and> (\<exists>n. in_file cl n \<and> \<not> line_ok cl n)}"

definition state_ok :: "cleansed_lines \<Rightarrow> file_state \<Rightarrow> bool" where
  "state_ok cl st \<longleftrightarrow> inc_ok (include_part st) \<and> ns_ok (num_lines cl) (nesting_part st)"

lemma line_errors_mono:
  assumes "in_file cl linenum"
  shows "{e. e = IndexError \<and> \<not> cast_followed cl linenum} \<subseteq> line_errors cl"
    "{e. e = IndexError \<and> \<not> constructors_ok cl linenum} \<subseteq> line_errors cl"
  using assms by (auto simp: line_errors_def line_ok_def)

locale file_reporter = usable_reporter +
  assumes reset: "I s \<Longrightarrow> I (ResetNolintSuppressions s)"
    and suppress: "I s \<Longrightarrow> I (suppress_globally cats s)"
begin

lemma CheckCompletedBlocks_safe [safe_intros]: "safe_unit I (CheckCompletedBlocks filename error ns)"
  unfolding CheckCompletedBlocks_def
  by (intro safe_for_each) (auto split: block_kind.split intro!: safe_intros)

lemma ProcessGlobalSuppresions_safe [safe_intros]: "safe_unit I (ProcessGlobalSuppresions ls)"
  unfolding ProcessGlobalSuppresions_def by (intro safe_intros safe_modify suppress)

lemma RemoveMultiLineComments_safe:
  "safe I (\<lambda>out. out = fst (strip_comments 0 ls)) (RemoveMultiLineComments filename ls error)"
proof -
  obtain out k where "strip_comments 0 ls = (out, k)" by fastforce
  then show ?thesis using remove_comments_from_eq [of 0 ls filename error]
    by (cases k) (auto simp: RemoveMultiLineComments_def comments_outcome_def intro!: safe_intros)
qed

lemma rest_of_line_runs:
  assumes "in_file cl linenum" "ns_ok (num_lines cl) ns"
    and "\<And>f. f \<in> set extra \<Longrightarrow> safe_unit I (f filename cl linenum error)"
  shows "runs (line_errors cl) I (\<lambda>_. True) (block
          [CheckForNonConstReference filename cl linenum ns error,
           CheckForNonStandardConstructs filename cl linenum ns error,
           CheckVlogArguments filename cl linenum error,
           CheckPosixThreading filename cl linenum error,
           CheckInvalidIncrement filename cl linenum error,
           CheckMakePairUsesDeduction filename cl linenum error,
           CheckRedundantVirtual filename cl linenum error,
           CheckRedundantOverrideOrFinal filename cl linenum error,
           for_each extra (\<lambda>check_fn. check_fn filename cl linenum error)])"
  unfolding block.simps(2) [of "CheckForNonConstReference filename cl linenum ns error"]
    block.simps(2) [of "CheckForNonStandardConstructs filename cl linenum ns error"]
  by (rule runs_seq, rule safe_runs, rule CheckForNonConstReference_safe [OF assms(1)], rule runs_seq,
      rule runs_mono [OF CheckForNonStandardConstructs_runs [OF assms(1)] line_errors_mono(2) [OF assms(1)]],
      rule safe_runs) (intro safe_intros assms)

lemma ProcessLine_runs:
  assumes "in_file cl linenum" "walks_end env" "state_ok cl st"
    and "\<And>f. f \<in> set extra \<Longrightarrow> safe_unit I (f filename cl linenum error)"
  shows "runs (line_errors cl) I (state_ok cl) (ProcessLine env filename ext cl linenum st error extra)"
proof -
  note ok = assms(3) [unfolded state_ok_def]
  let ?N = "num_lines cl"
  have update: "runs (line_errors cl) I (ns_ok ?N) (Update filename cl linenum error (nesting_part st))"
    using Update_safe [OF _ assms(1) refl] ok by (intro safe_runs) blast
  have lang: "runs (line_errors cl) I inc_ok (CheckLanguage env filename cl linenum ext (include_part st) error)"
    using runs_mono [OF CheckLanguage_runs line_errors_mono(1)] assms(1,2) ok by blast
  have lengths: "runs (line_errors cl) I (\<lambda>_. True) (CheckForFunctionLengths filename cl linenum fs error)" for fs
    by (intro safe_runs CheckForFunctionLengths_safe assms(1))
  have style: "runs (line_errors cl) I (\<lambda>_. True) (block [CheckForMultilineCommentsAndStrings filename cl linenum error,
      CheckStyle env filename cl linenum ext ns error])" if "ns_ok ?N ns" for ns
    by (intro safe_runs safe_intros assms that)
  have first: "runs (line_errors cl) I (\<lambda>_. True) (ParseNolintSuppressions filename raw linenum error)"
    "runs (line_errors cl) I (\<lambda>_. True) (CheckForNamespaceIndentation filename ns cl linenum error)" for raw ns
    by (intro safe_runs safe_intros assms(1))+
  have result: "runs (line_errors cl) I (state_ok cl) (ret st')" if "state_ok cl st'" for st'
    using that by (intro safe_runs safe_ret)
  show ?thesis
    unfolding ProcessLine_def in_file_index(3) [OF assms(1)] let_r_simps
    by (intro runs_seq runs_if first result runs_andthen [OF update] runs_andthen [OF lengths] runs_andthen [OF lang] style
        rest_of_line_runs assms) (use ok in \<open>simp_all add: state_ok_def\<close>)
qed

lemma process_lines_runs:
  assumes "walks_end env" "\<And>n. n \<in> set linenums \<Longrightarrow> in_file cl n" "state_ok cl st"
    and "\<And>f n. f \<in> set extra \<Longrightarrow> in_file cl n \<Longrightarrow> safe_unit I (f filename cl n error)"
  shows "runs (line_errors cl) I (state_ok cl) (process_lines env filename ext cl error extra linenums st)"
  using assms(2,3)
proof (induction linenums arbitrary: st)
  case (Cons n ns)
  then have n: "in_file cl n" by simp
  have flag: "runs (line_errors cl) I (\<lambda>_. True) (FlagCxx11Features filename cl n error)"
    by (intro safe_runs FlagCxx11Features_safe n)
  show ?case unfolding process_lines.simps
    by (rule runs_andthen [OF ProcessLine_runs [OF n assms(1)]], rule Cons.prems(2), rule assms(4) [OF _ n], assumption,
        rule runs_seq [OF flag], rule Cons.IH) (use Cons.prems(1) in auto)
qed (simp add: safe_runs safe_ret)

lemma ProcessFileData_runs:
  assumes "walks_end env" "key_order ord" and cl: "CleansedLines (fst (strip_comments 0 (with_markers ls))) = Inr cl"
    and "\<And>f n. f \<in> set extra \<Longrightarrow> in_file cl n \<Longrightarrow> safe_unit I (f filename cl n error)"
  shows "runs (line_errors cl) I (\<lambda>_. True) (ProcessFileData env io ord filename ext ls error extra)"
proof -
  have cl_ok: "cl_ok cl" using CleansedLines_ok [of "fst (strip_comments 0 (with_markers ls))"] cl by auto
  have lines: "runs (line_errors cl) I (state_ok cl) (process_lines env filename ext cl error extra [0..NumLines cl - 1] init_file_state)"
    by (rule process_lines_runs [OF assms(1)])
      (use cl_ok assms(4) in \<open>auto simp: in_file_def NumLines_def state_ok_def init_file_state_def ns_ok_init init_include_ok\<close>)
  have before: "runs (line_errors cl) I (\<lambda>_. True) (modify ResetNolintSuppressions)"
    "runs (line_errors cl) I (\<lambda>_. True) (CheckForCopyright filename ls1 error)"
    "runs (line_errors cl) I (\<lambda>_. True) (ProcessGlobalSuppresions ls1)"
    "runs (line_errors cl) I (\<lambda>_. True) (do_when (ext = ''h'') (CheckForHeaderGuard env filename cl error))" for ls1
    by (intro safe_runs safe_intros safe_modify reset assms(1); assumption?)+
  have after: "runs (line_errors cl) I (\<lambda>_. True) (block
        [CheckCompletedBlocks filename error (nesting_part st),
         CheckForIncludeWhatYouUse env io ord filename cl (include_part st) error,
         do_when (IsSourceExtension ext) (CheckHeaderFileIncluded env filename (include_part st) error),
         CheckForBadCharacters filename (map (map of_char) out) error,
         CheckForNewlineAtEOF filename out error])" for st out
    by (intro safe_runs safe_intros assms(1,2) cl_ok)
  have rest: "runs (line_errors cl) I (\<lambda>_. True) (let_r (CleansedLines out) (\<lambda>cl.
      seq (do_when (ext = ''h'') (CheckForHeaderGuard env filename cl error))
     (andthen (process_lines env filename ext cl error extra [0..NumLines cl - 1] init_file_state) (\<lambda>st.
      block
        [CheckCompletedBlocks filename error (nesting_part st),
         CheckForIncludeWhatYouUse env io ord filename cl (include_part st) error,
         do_when (IsSourceExtension ext) (CheckHeaderFileIncluded env filename (include_part st) error),
         CheckForBadCharacters filename (map (map of_char) out) error,
         CheckForNewlineAtEOF filename out error]))))" if "out = fst (strip_comments 0 (with_markers ls))" for out
    unfolding that cl let_r_simps by (rule runs_seq [OF before(4) runs_andthen [OF lines after]])
  show ?thesis unfolding ProcessFileData_def Let_def
    by (rule runs_seq [OF before(1) runs_seq [OF before(2) runs_seq [OF before(3)
          runs_andthen [OF safe_runs [OF RemoveMultiLineComments_safe] rest]]]])
qed

end

interpretation linted: file_reporter Error "documented s0" for s0
proof
  show "documented s0 s \<Longrightarrow> documented s0 (ResetNolintSuppressions s)" for s
    by (auto simp: documented_def documented_from_def lint_ok_def usable_def ResetNolintSuppressions_def)
  show "documented s0 s \<Longrightarrow> documented s0 (suppress_globally cats s)" for s cats
    by (auto simp: documented_def documented_from_def lint_ok_def usable_def suppress_globally_def)
qed

section \<open>Properties\<close>


lemma init_lint_ok: "lint_ok init_lint" "usable init_lint"
  by code_simp+


text \<open>A line of a multi-line comment that says nothing to the checks that run before comments are removed.\<close>

definition comment_text :: "string \<Rightarrow> bool" where
  "comment_text line \<longleftrightarrow> \<not> closes_comment line \<and> Search_ic ''Copyright'' line = None
     \<and> \<not> found SEARCH_C_FILE line \<and> \<not> found SEARCH_KERNEL_FILE line"

text \<open>C7: what a multi-line comment says does not matter: two files that differ only in lines between the line that
  opens a comment and the one that closes it are linted alike, in every state and with every error
  function, unless one of those lines mentions a copyright or a C or kernel file.  In particular no character inside such a
  comment is ever reported as bad.\<close>

theorem comment_text_irrelevant:
  assumes "snd (strip_comments 1 pre) = None" and "opens_comment a" and "\<not> closes_comment a" and "closes_comment z"
    and "list_all comment_text body" and "list_all comment_text body'" and "length body = length body'"
  shows "ProcessFileData env io ord filename ext (pre @ a # body @ z # rest) error extra =
    ProcessFileData env io ord filename ext (pre @ a # body' @ z # rest) error extra"
proof -
  let ?f = "\<lambda>l. (Search_ic ''Copyright'' l \<noteq> None, found SEARCH_C_FILE l, found SEARCH_KERNEL_FILE l)"
  let ?ls = "with_markers (pre @ a # body @ z # rest)" and ?ls' = "with_markers (pre @ a # body' @ z # rest)"
  have "map ?f body = replicate (length body) (False, False, False)" "map ?f body' = replicate (length body') (False, False, False)"
    using assms(5,6) by (auto simp: list_all_iff comment_text_def intro!: replicate_eqI)
  with assms(7) have same: "map ?f ?ls = map ?f ?ls'" by (simp add: with_markers_def)
  have "map (\<lambda>l. Search_ic ''Copyright'' l \<noteq> None) ?ls = map (\<lambda>l. Search_ic ''Copyright'' l \<noteq> None) ?ls'"
    using arg_cong [OF same, of "map fst"] by (simp add: comp_def)
  from list_ex_slice_cong [OF this] map_eq_imp_length_eq [OF same]
  have copyright: "CheckForCopyright filename ?ls error = CheckForCopyright filename ?ls' error"
    by (simp only: CheckForCopyright_def)
  have global: "ProcessGlobalSuppresions ?ls = ProcessGlobalSuppresions ?ls'"
    unfolding ProcessGlobalSuppresions_def by (rule for_each_cong_map [OF same]) simp
  have blank: "strip_comments n (pre @ a # b @ z # r) = apfst (append (fst (strip_comments n pre) @ replicate (length b + 2) ''/**/''))
      (strip_comments (n + length pre + length b + 2) r)"
    if "n = 1" "list_all comment_text b" for b n r
    using strip_comments_append [of n pre] strip_comment [of a b z "n + length pre" r] assms(1-4) that
    by (auto simp: apfst_def map_prod_def split_beta comment_text_def list_all_iff)
  have strip: "strip_comments 0 (m # pre @ a # b @ z # r) =
      apfst (append (m # fst (strip_comments 1 pre) @ replicate (length b + 2) ''/**/'')) (strip_comments (3 + length pre + length b) r)"
    if "\<not> opens_comment m" "list_all comment_text b" for m b r
    using blank [of 1 b r] that by (simp add: apfst_def map_prod_def split_beta numeral_eq_Suc)
  have marker: "\<not> opens_comment ''// marker so line numbers and indices both start at 1''" by code_simp
  have "RemoveMultiLineComments filename ?ls error = RemoveMultiLineComments filename ?ls' error"
    using remove_comments_from_eq [of 0 ?ls filename error] remove_comments_from_eq [of 0 ?ls' filename error]
      strip [OF marker assms(5)] strip [OF marker assms(6)] assms(7)
    by (simp add: RemoveMultiLineComments_def with_markers_def del: strip_comments.simps)
  with copyright global show ?thesis by (simp only: ProcessFileData_def Let_def)
qed

theorem comment_text_irrelevant_witness:
  "ProcessFileData example_env (\<lambda>_. None) (\<lambda>ks. ks) ''a.cc'' ''cc''
     [''// Copyright 2018'', ''/*'', CHR 0x00 # '' zero'', ''*/'', ''int a;'', []] Error [] =
   ProcessFileData example_env (\<lambda>_. None) (\<lambda>ks. ks) ''a.cc'' ''cc''
     [''// Copyright 2018'', ''/*'', ''text'', ''*/'', ''int a;'', []] Error []"
proof -
  have "snd (strip_comments 1 [''// Copyright 2018'']) = None" "opens_comment ''/*''" "\<not> closes_comment ''/*''" "closes_comment ''*/''"
    "list_all comment_text [CHR 0x00 # '' zero'']" "list_all comment_text [''text'']" "length [CHR 0x00 # '' zero''] = length [''text'']"
    by code_simp+
  from comment_text_irrelevant [OF this, of example_env "\<lambda>_. None" "\<lambda>ks. ks" "''a.cc''" "''cc''" "[''int a;'', []]" Error "[]"]
  show ?thesis by simp
qed

end
