(* ===== verification/Config.thy ===== *)
theory Config
  imports File_Data
begin

text \<open>
  \<open>ProcessConfigOverrides\<close>: the walk up the directories of a file that reads every \<open>CPPLINT.cfg\<close>, and the
  module functions that set filters.  What the file system holds is the record \<open>world\<close>.
\<close>

section \<open>The world\<close>

text \<open>\<open>config_lines\<close> and \<open>header_lines\<close> give the lines of a file that opens, \<open>source_text\<close> its decoded text;
  \<open>None\<close> stands for \<open>IOError\<close>.  \<open>key_list\<close> is the order in which a dictionary or a set is iterated.\<close>

record world =
  os :: os_env
  isfile :: "string \<Rightarrow> bool"
  config_lines :: "string \<Rightarrow> string list option"
  source_text :: "string \<Rightarrow> string option"
  stdin_text :: string
  header_lines :: "string \<Rightarrow> string list option"
  key_list :: "string list \<Rightarrow> string list"

section \<open>Settings of the module\<close>

definition module_OutputFormat :: "(lint, string) py" where
  "module_OutputFormat = gets (\<lambda>s. output_format (state s))"

definition module_SetOutputFormat :: "string \<Rightarrow> (lint, unit) py" where
  "module_SetOutputFormat fmt = on_state (\<lambda>st. Inr (SetOutputFormat fmt st))"

definition module_VerboseLevel :: "(lint, int) py" where
  "module_VerboseLevel = gets (\<lambda>s. verbose_level (state s))"

definition module_SetVerboseLevel :: "int \<Rightarrow> (lint, int) py" where
  "module_SetVerboseLevel level =
     (\<lambda>s. let (old, st) = SetVerboseLevel level (state s) in Inr (old, s\<lparr>state := st\<rparr>))"

definition module_SetCountingStyle :: "string \<Rightarrow> (lint, unit) py" where
  "module_SetCountingStyle level = on_state (\<lambda>st. Inr (SetCountingStyle level st))"

definition module_Filters :: "(lint, string list) py" where
  "module_Filters = gets (\<lambda>s. filters (state s))"

definition module_SetFilters :: "string \<Rightarrow> (lint, unit) py" where
  "module_SetFilters fs = on_state (SetFilters fs)"

definition module_AddFilters :: "string \<Rightarrow> (lint, unit) py" where
  "module_AddFilters fs = on_state (AddFilters fs)"

definition module_BackupFilters :: "(lint, unit) py" where
  "module_BackupFilters = on_state (\<lambda>st. Inr (BackupFilters st))"

definition module_RestoreFilters :: "(lint, unit) py" where
  "module_RestoreFilters = on_state (\<lambda>st. Inr (RestoreFilters st))"

section \<open>One configuration file\<close>

text \<open>What the lines read so far give: whether the walk goes on, and the collected filters.\<close>

record config_state =
  keep_looking :: bool
  cfg_filters :: "string list"

text \<open>The name and the value of a line without its comment; a blank line has none.\<close>

definition config_entry :: "string \<Rightarrow> (string \<times> string) option" where
  "config_entry line =
     (let code = fst (partition_str line ''#'') in
      if strip_bytes code = [] then None
      else let (name, val) = partition_str code ''='' in Some (strip_bytes name, strip_bytes val))"

text \<open>The value is \<open>None\<close> when the file is excluded.\<close>

definition config_line :: "string \<Rightarrow> string \<Rightarrow> string \<Rightarrow> string \<Rightarrow> config_state \<Rightarrow> (lint, config_state option) py" where
  "config_line filename cfg_file base_name line cs =
     (case config_entry line of
        None \<Rightarrow> ret (Some cs)
      | Some (name, val) \<Rightarrow>
          if name = ''set noparent'' then ret (Some (cs\<lparr>keep_looking := False\<rparr>))
          else if name = ''filter'' then ret (Some (cs\<lparr>cfg_filters := cfg_filters cs @ [val]\<rparr>))
          else if name = ''exclude_files'' then
            (if base_name \<noteq> [] then
               (case re_compile val of
                  None \<Rightarrow> raise ReError
                | Some pattern \<Rightarrow>
                    if re_match pattern base_name \<noteq> None then
                      seq (write_stderr (msg_of [''Ignoring '', [dquote], filename, [dquote], '': file excluded by '', [dquote],
                             cfg_file, [dquote], ''. File path component '', [dquote], base_name, [dquote],
                             '' matches pattern '', [dquote], val, [dquote], [nl]]))
                          (ret None)
                    else ret (Some cs))
             else ret (Some cs))
          else if name = ''linelength'' then
            seq (case py_int val of
                   Some n \<Rightarrow> modify (\<lambda>s. s\<lparr>line_length := n\<rparr>)
                 | None \<Rightarrow> write_stderr ''Line length must be numeric.'')
                (ret (Some cs))
          else if name = ''root'' then seq (modify (\<lambda>s. s\<lparr>root := Some val\<rparr>)) (ret (Some cs))
          else seq (write_stderr (msg_of [''Invalid configuration option ('', name, '') in file '', cfg_file, [nl]]))
                   (ret (Some cs)))"

fun config_file :: "string \<Rightarrow> string \<Rightarrow> string \<Rightarrow> string list \<Rightarrow> config_state \<Rightarrow> (lint, config_state option) py" where
  "config_file filename cfg_file base_name [] cs = ret (Some cs)"
| "config_file filename cfg_file base_name (line # ls) cs =
     andthen (config_line filename cfg_file base_name line cs) (\<lambda>r.
       case r of
         None \<Rightarrow> ret None
       | Some cs \<Rightarrow> config_file filename cfg_file base_name ls cs)"

section \<open>The walk\<close>

lemma head_of_shorter:
  assumes "drop (nat (rfind p [slash] + 1)) p \<noteq> []"
  shows "length (head_of p) < length p"
proof -
  let ?h = "take (nat (rfind p [slash] + 1)) p"
  have "length (rstrip_chars ?h [slash]) \<le> length ?h" using rstrip_chars_prefix by (rule prefix_length_le)
  with assms show ?thesis by (auto simp: head_of_def Let_def)
qed

text \<open>The loop over the directories: \<open>None\<close> when the file is excluded, otherwise the filters in the order in
  which they were found, from the directory of the file upwards.\<close>

function config_walk :: "world \<Rightarrow> string \<Rightarrow> string \<Rightarrow> string list \<Rightarrow> (lint, string list option) py" where
  "config_walk w filename abs_filename fs =
     (let (abs_path, base_name) = path_split abs_filename in
      if base_name = [] then ret (Some fs)
      else
        let cfg_file = path_join abs_path ''CPPLINT.cfg'' in
        if \<not> isfile w cfg_file then config_walk w filename abs_path fs
        else
          (case config_lines w cfg_file of
             None \<Rightarrow>
               seq (write_stderr (msg_of [''Skipping config file '', [squote], cfg_file, [squote], '': Can'', [squote],
                      ''t open for reading'', [nl]]))
                   (ret (Some fs))
           | Some ls \<Rightarrow>
               andthen (config_file filename cfg_file base_name ls \<lparr>keep_looking = True, cfg_filters = fs\<rparr>) (\<lambda>r.
                 case r of
                   None \<Rightarrow> ret None
                 | Some cs \<Rightarrow>
                     if keep_looking cs then config_walk w filename abs_path (cfg_filters cs)
                     else ret (Some (cfg_filters cs)))))"
  by pat_completeness auto
termination
  by (relation "measure (\<lambda>(_, _, p, _). length p)") (auto simp: path_split_def head_of_shorter)

declare config_walk.simps [simp del]

definition ProcessConfigOverrides :: "world \<Rightarrow> string \<Rightarrow> (lint, bool) py" where
  "ProcessConfigOverrides w filename =
     andthen (config_walk w filename (abspath (os w) filename) []) (\<lambda>r.
       case r of
         None \<Rightarrow> ret False
       | Some fs \<Rightarrow> seq (for_each (rev fs) module_AddFilters) (ret True))"

section \<open>What the configuration amounts to\<close>

text \<open>The entries that are read, in the order in which they are read: the file in the directory itself first,
  then the ones above it, up to the first that says \<open>set noparent\<close> or cannot be read.\<close>

definition entries_of :: "string list \<Rightarrow> (string \<times> string) list" where
  "entries_of ls = List.map_filter config_entry ls"

definition noparent :: "string list \<Rightarrow> bool" where
  "noparent ls \<longleftrightarrow> ''set noparent'' \<in> fst ` set (entries_of ls)"

function config_entries :: "world \<Rightarrow> string \<Rightarrow> (string \<times> string) list" where
  "config_entries w abs_filename =
     (let (abs_path, base_name) = path_split abs_filename in
      if base_name = [] then []
      else
        let cfg_file = path_join abs_path ''CPPLINT.cfg'' in
        if \<not> isfile w cfg_file then config_entries w abs_path
        else
          (case config_lines w cfg_file of
             None \<Rightarrow> []
           | Some ls \<Rightarrow> entries_of ls @ (if noparent ls then [] else config_entries w abs_path)))"
  by pat_completeness auto
termination
  by (relation "measure (\<lambda>(_, p). length p)") (auto simp: path_split_def head_of_shorter)

declare config_entries.simps [simp del]

definition filter_values :: "(string \<times> string) list \<Rightarrow> string list" where
  "filter_values es = map snd (filter (\<lambda>e. fst e = ''filter'') es)"

definition length_values :: "(string \<times> string) list \<Rightarrow> int list" where
  "length_values es = List.map_filter (\<lambda>(name, val). if name = ''linelength'' then py_int val else None) es"

definition root_values :: "(string \<times> string) list \<Rightarrow> string list" where
  "root_values es = map snd (filter (\<lambda>e. fst e = ''root'') es)"

text \<open>Whether a line is a report is seen from its end.\<close>

lemma report_line_end:
  "2 \<le> length v \<Longrightarrow> report_line (u @ v) \<longleftrightarrow> report_line v" "2 \<le> length v \<Longrightarrow> report_line (c # v) \<longleftrightarrow> report_line v"
proof -
  show app: "2 \<le> length v \<Longrightarrow> report_line (u @ v) \<longleftrightarrow> report_line v" for u
    unfolding report_line_def by (metis length_Cons list.size(3) numeral_2_eq_2 suffix_appendI suffix_length_suffix suffix_order.refl)
  show "2 \<le> length v \<Longrightarrow> report_line (c # v) \<longleftrightarrow> report_line v" using app [of "[c]"] by simp
qed

lemma report_line_pair [simp]: "report_line [c, d] \<longleftrightarrow> c = CHR '']'' \<and> d = nl"
  by (simp add: report_line_def suffix_def append_eq_Cons_conv)

definition no_reports :: "lint \<Rightarrow> lint \<Rightarrow> bool" where
  "no_reports s s' \<longleftrightarrow> (\<exists>new. stderr s' = stderr s @ new \<and> list_all (\<lambda>line. \<not> report_line line) new)"

lemma no_reports_refl [simp]: "stderr s' = stderr s \<Longrightarrow> no_reports s s'"
  unfolding no_reports_def by (rule exI [of _ "[]"]) simp

lemma no_reports_trans: "no_reports s t \<Longrightarrow> no_reports t u \<Longrightarrow> no_reports s u"
  unfolding no_reports_def by (metis append.assoc list_all_append)

lemma no_reports_write: "\<not> report_line line \<Longrightarrow> no_reports s (s\<lparr>stderr := stderr s @ [line]\<rparr>)"
  unfolding no_reports_def by (rule exI [of _ "[line]"]) simp

text \<open>The state with the options of the entries, the last ones winning; no report is written.\<close>

definition configured :: "(string \<times> string) list \<Rightarrow> lint \<Rightarrow> lint \<Rightarrow> bool" where
  "configured es s s' \<longleftrightarrow>
     line_length s' = last (line_length s # length_values es)
     \<and> root s' = last (root s # map Some (root_values es))
     \<and> state s' = state s \<and> valid_extensions s' = valid_extensions s
     \<and> error_suppressions s' = error_suppressions s \<and> global_error_suppressions s' = global_error_suppressions s
     \<and> no_reports s s'"

lemmas value_defs = filter_values_def length_values_def root_values_def

lemma values_append:
  "filter_values (es @ fs) = filter_values es @ filter_values fs"
  "length_values (es @ fs) = length_values es @ length_values fs"
  "root_values (es @ fs) = root_values es @ root_values fs"
  by (simp_all add: value_defs List.map_filter_def)

lemma values_Nil [simp]: "filter_values [] = []" "length_values [] = []" "root_values [] = []"
  by (simp_all add: value_defs List.map_filter_def)

lemma last_trans: "last (last (x # xs) # ys) = last (x # xs @ ys)"
  by (cases ys) auto

lemma configured_refl [simp]: "configured [] s s"
  by (simp add: configured_def)

lemma configured_trans: "configured es s t \<Longrightarrow> configured fs t u \<Longrightarrow> configured (es @ fs) s u"
  by (auto simp: configured_def values_append last_trans last_map intro: no_reports_trans simp del: last.simps)

text \<open>The messages about a configuration file are not reports.\<close>

lemma config_messages:
  "\<not> report_line ''Line length must be numeric.''"
  "suffix ''CPPLINT.cfg'' cfg_file \<Longrightarrow> \<not> report_line (msg_of [''Invalid configuration option ('', name, '') in file '', cfg_file, [nl]])"
  "\<not> report_line (msg_of [''Skipping config file '', [squote], cfg_file, [squote], '': Can'', [squote], ''t open for reading'', [nl]])"
  "\<not> report_line (msg_of [''Ignoring '', [dquote], filename, [dquote], '': file excluded by '', [dquote],
     cfg_file, [dquote], ''. File path component '', [dquote], base_name, [dquote],
     '' matches pattern '', [dquote], val, [dquote], [nl]])"
  by (auto simp: msg_of_def suffix_def report_line_end)

lemma config_line_writes: "suffix ''CPPLINT.cfg'' cfg_file \<Longrightarrow> keeps (no_reports s0) (config_line filename cfg_file base_name line cs)"
proof -
  assume cfg: "suffix ''CPPLINT.cfg'' cfg_file"
  have message: "keeps (no_reports s0) (write_stderr l)" if "\<not> report_line l" for l
    using that unfolding write_stderr_def by (auto simp: keeps_def modify_def intro: no_reports_trans no_reports_write)
  have set: "keeps (no_reports s0) (modify (\<lambda>s. s\<lparr>line_length := n\<rparr>))" "keeps (no_reports s0) (modify (\<lambda>s. s\<lparr>root := r\<rparr>))" for n r
    by (auto simp: keeps_def modify_def no_reports_def)
  show ?thesis unfolding config_line_def
    by (intro keeps_intros message set config_messages cfg)
qed

lemma config_line_effect:
  assumes "config_line filename cfg_file base_name line cs s = Inr (Some cs', s')" and "suffix ''CPPLINT.cfg'' cfg_file"
  shows "configured (entries_of [line]) s s'" "cfg_filters cs' = cfg_filters cs @ filter_values (entries_of [line])"
    "keep_looking cs' = (keep_looking cs \<and> \<not> noparent [line])"
proof -
  have "no_reports s s'" using keepsD [OF config_line_writes [OF assms(2)] _ assms(1), of s] by simp
  moreover have "line_length s' = last (line_length s # length_values (entries_of [line]))
     \<and> root s' = last (root s # map Some (root_values (entries_of [line])))
     \<and> state s' = state s \<and> valid_extensions s' = valid_extensions s
     \<and> error_suppressions s' = error_suppressions s \<and> global_error_suppressions s' = global_error_suppressions s"
    using assms(1) by (auto simp: config_line_def entries_of_def value_defs List.map_filter_def py_simps write_stderr_def
        split: option.splits if_splits)
  ultimately show "configured (entries_of [line]) s s'" by (simp only: configured_def)
  show "cfg_filters cs' = cfg_filters cs @ filter_values (entries_of [line])"
    "keep_looking cs' = (keep_looking cs \<and> \<not> noparent [line])"
    using assms(1) by (auto simp: config_line_def entries_of_def noparent_def value_defs List.map_filter_def py_simps
        write_stderr_def split: option.splits if_splits)
qed

lemma config_file_effect:
  "config_file filename cfg_file base_name ls cs s = Inr (Some cs', s') \<Longrightarrow> suffix ''CPPLINT.cfg'' cfg_file \<Longrightarrow>
     configured (entries_of ls) s s' \<and> cfg_filters cs' = cfg_filters cs @ filter_values (entries_of ls)
     \<and> keep_looking cs' = (keep_looking cs \<and> \<not> noparent ls)"
proof (induction ls arbitrary: cs s)
  case Nil
  then show ?case by (simp add: ret_def entries_of_def noparent_def List.map_filter_def)
next
  case (Cons l ls)
  have split: "entries_of (l # ls) = entries_of [l] @ entries_of ls" "noparent (l # ls) = (noparent [l] \<or> noparent ls)"
    by (auto simp: entries_of_def noparent_def List.map_filter_def)
  from Cons.prems(1) obtain t cs'' where line: "config_line filename cfg_file base_name l cs s = Inr (Some cs'', t)"
    and rest: "config_file filename cfg_file base_name ls cs'' t = Inr (Some cs', s')"
    by (auto simp: andthen_def ret_def split: sum.splits option.splits)
  from Cons.IH [OF rest Cons.prems(2)] config_line_effect [OF line Cons.prems(2)] show ?case
    unfolding split by (auto simp: values_append intro: configured_trans)
qed

lemma config_name: "suffix ''CPPLINT.cfg'' (path_join d ''CPPLINT.cfg'')"
  by (auto simp: path_join_def suffix_def)

lemma config_walk_effect:
  "config_walk w filename p fs s = Inr (Some fs', s') \<Longrightarrow>
     configured (config_entries w p) s s' \<and> fs' = fs @ filter_values (config_entries w p)"
proof (induction w filename p fs arbitrary: s rule: config_walk.induct)
  case (1 w filename p fs)
  obtain d b where db: "path_split p = (d, b)" by fastforce
  let ?cfg = "path_join d ''CPPLINT.cfg''"
  consider (top) "b = []" | (none) "b \<noteq> []" "\<not> isfile w ?cfg" | (unread) "b \<noteq> []" "isfile w ?cfg" "config_lines w ?cfg = None"
    | (some) ls where "b \<noteq> []" "isfile w ?cfg" "config_lines w ?cfg = Some ls"
    by (cases "config_lines w ?cfg") auto
  then show ?case
  proof cases
    case top
    with 1(3) db show ?thesis by (simp add: config_walk.simps [of w] config_entries.simps [of w p] ret_def)
  next
    case none
    with 1(3) db have "config_walk w filename d fs s = Inr (Some fs', s')" by (subst (asm) config_walk.simps) simp
    from 1(1) [OF db [symmetric] refl none(1) refl none(2) this] db none show ?thesis
      by (simp add: config_entries.simps [of w p])
  next
    case unread
    with 1(3) db show ?thesis
      by (auto simp: config_walk.simps [of w filename p] config_entries.simps [of w p] py_simps write_stderr_def configured_def
          no_reports_write config_messages(3))
  next
    case (some ls)
    then obtain cs t where read: "config_file filename ?cfg b ls \<lparr>keep_looking = True, cfg_filters = fs\<rparr> s = Inr (Some cs, t)"
      and rest: "(if keep_looking cs then config_walk w filename d (cfg_filters cs) else ret (Some (cfg_filters cs))) t = Inr (Some fs', s')"
      using 1(3) db by (subst (asm) config_walk.simps) (auto simp: andthen_def ret_def split: sum.splits option.splits)
    note eff = config_file_effect [OF read config_name]
    show ?thesis
    proof (cases "noparent ls")
      case True
      with eff rest db some show ?thesis by (simp add: config_entries.simps [of w p] ret_def)
    next
      case False
      with eff have keep: "keep_looking cs" by simp
      with rest have walk: "config_walk w filename d (cfg_filters cs) t = Inr (Some fs', s')" by simp
      from 1(2) [OF db [symmetric] refl some(1) refl _ some(3) refl keep walk] some(2)
      have "configured (config_entries w d) t s'" "fs' = cfg_filters cs @ filter_values (config_entries w d)" by simp_all
      with eff False db some show ?thesis
        by (auto simp: config_entries.simps [of w p] values_append intro: configured_trans)
    qed
  qed
qed

lemma add_filters_effect:
  "for_each fs module_AddFilters s = Inr ((), s') \<Longrightarrow>
     s' = s\<lparr>state := (state s)\<lparr>filters := filters (state s) @ concat (map filter_items fs)\<rparr>\<rparr>"
proof (induction fs arbitrary: s)
  case (Cons f fs)
  then obtain t where t: "module_AddFilters f s = Inr ((), t)" and rest: "for_each fs module_AddFilters t = Inr ((), s')"
    by (auto simp: seq_def andthen_def split: sum.splits)
  from t have "t = s\<lparr>state := (state s)\<lparr>filters := filters (state s) @ filter_items f\<rparr>\<rparr>"
    by (auto simp: module_AddFilters_def on_state_def AddFilters_cases split: if_splits)
  with Cons.IH [OF rest] show ?case by simp
qed (simp add: pass_def ret_def)

section \<open>Excluded files\<close>

text \<open>A file is excluded when, on the way up, a configuration file that is read has a pattern that matches the name of the
  file or of the directory through which the walk came.\<close>

definition excludes :: "string \<Rightarrow> string \<times> string \<Rightarrow> bool" where
  "excludes component entry \<longleftrightarrow>
     fst entry = ''exclude_files'' \<and> (case re_compile (snd entry) of None \<Rightarrow> False | Some p \<Rightarrow> re_match p component \<noteq> None)"

function excluded :: "world \<Rightarrow> string \<Rightarrow> bool" where
  "excluded w abs_filename =
     (let (abs_path, component) = path_split abs_filename; cfg_file = path_join abs_path ''CPPLINT.cfg'' in
      if component = [] then False
      else if \<not> isfile w cfg_file then excluded w abs_path
      else
        (case config_lines w cfg_file of
           None \<Rightarrow> False
         | Some ls \<Rightarrow> list_ex (excludes component) (entries_of ls) \<or> \<not> noparent ls \<and> excluded w abs_path))"
  by pat_completeness auto
termination
  by (relation "measure (\<lambda>(_, p). length p)") (auto simp: path_split_def head_of_shorter)

declare excluded.simps [simp del]

lemma config_line_excludes:
  assumes "config_line filename cfg_file base line cs s = Inr (r, s')" "base \<noteq> []"
  shows "r = None \<longleftrightarrow> list_ex (excludes base) (entries_of [line])"
  using assms
  by (auto simp: config_line_def entries_of_def excludes_def List.map_filter_def py_simps write_stderr_def
      split: option.splits if_splits)

lemma config_file_excludes:
  "config_file filename cfg_file base ls cs s = Inr (r, s') \<Longrightarrow> base \<noteq> [] \<Longrightarrow> r = None \<longleftrightarrow> list_ex (excludes base) (entries_of ls)"
proof (induction ls arbitrary: cs s)
  case Nil
  then show ?case by (auto simp: ret_def entries_of_def List.map_filter_def)
next
  case (Cons l ls)
  have split: "entries_of (l # ls) = entries_of [l] @ entries_of ls" by (simp add: entries_of_def List.map_filter_def)
  from Cons.prems(1) obtain q t where line: "config_line filename cfg_file base l cs s = Inr (q, t)"
    and rest: "(case q of None \<Rightarrow> ret None | Some cs \<Rightarrow> config_file filename cfg_file base ls cs) t = Inr (r, s')"
    by (auto simp: andthen_def split: sum.splits)
  from config_line_excludes [OF line Cons.prems(2)] rest Cons.IH Cons.prems(2) show ?case
    unfolding split by (cases q) (auto simp: ret_def)
qed

lemma config_walk_excludes:
  "config_walk w filename p fs s = Inr (r, s') \<Longrightarrow> r = None \<longleftrightarrow> excluded w p"
proof (induction w filename p fs arbitrary: s rule: config_walk.induct)
  case (1 w filename p fs)
  obtain d b where db: "path_split p = (d, b)" by fastforce
  let ?cfg = "path_join d ''CPPLINT.cfg''"
  consider (top) "b = []" | (none) "b \<noteq> []" "\<not> isfile w ?cfg" | (unread) "b \<noteq> []" "isfile w ?cfg" "config_lines w ?cfg = None"
    | (some) ls where "b \<noteq> []" "isfile w ?cfg" "config_lines w ?cfg = Some ls"
    by (cases "config_lines w ?cfg") auto
  then show ?case
  proof cases
    case top
    with 1(3) db show ?thesis by (auto simp: config_walk.simps [of w] excluded.simps [of w p] ret_def)
  next
    case none
    with 1(3) db have "config_walk w filename d fs s = Inr (r, s')" by (subst (asm) config_walk.simps) simp
    from 1(1) [OF db [symmetric] refl none(1) refl none(2) this] db none show ?thesis by (simp add: excluded.simps [of w p])
  next
    case unread
    with 1(3) db show ?thesis
      by (auto simp: config_walk.simps [of w filename p] excluded.simps [of w p] py_simps write_stderr_def)
  next
    case (some ls)
    then obtain q t where read: "config_file filename ?cfg b ls \<lparr>keep_looking = True, cfg_filters = fs\<rparr> s = Inr (q, t)"
      and rest: "(case q of None \<Rightarrow> ret None | Some cs \<Rightarrow>
        if keep_looking cs then config_walk w filename d (cfg_filters cs) else ret (Some (cfg_filters cs))) t = Inr (r, s')"
      using 1(3) db by (subst (asm) config_walk.simps) (auto simp: andthen_def split: sum.splits)
    note found = config_file_excludes [OF read some(1)]
    show ?thesis
    proof (cases q)
      case None
      with found rest db some show ?thesis by (auto simp: excluded.simps [of w p] ret_def)
    next
      case (Some cs)
      note keep = config_file_effect [OF read [unfolded Some] config_name]
      show ?thesis
      proof (cases "keep_looking cs")
        case True
        with rest Some have walk: "config_walk w filename d (cfg_filters cs) t = Inr (r, s')" by simp
        from 1(2) [OF db [symmetric] refl some(1) refl _ some(3) Some True walk] some(2) found keep True Some db some show ?thesis
          by (simp add: excluded.simps [of w p])
      next
        case False
        with rest Some found keep db some show ?thesis by (auto simp: excluded.simps [of w p] ret_def)
      qed
    qed
  qed
qed

lemma ProcessConfigOverrides_excludes:
  "ProcessConfigOverrides w filename s = Inr (r, s') \<Longrightarrow> r = (\<not> excluded w (abspath (os w) filename))"
  using config_walk_excludes
  by (fastforce simp: ProcessConfigOverrides_def andthen_def seq_def ret_def split: sum.splits option.splits)

section \<open>Properties\<close>

text \<open>C8: when a file is not excluded, the configuration files on its path have exactly this effect on the state: the filters of
  all of them are appended, those of the topmost directory first, so that the nearest one decides; the line
  length and the root are those of the entry read last, which is the topmost one; the other settings, the counters and the
  suppressions stay as they are, and what is written to standard error are messages about the configuration, never reports.\<close>

theorem ProcessConfigOverrides_effect:
  assumes "ProcessConfigOverrides w filename s = Inr (True, s')"
  shows "let es = config_entries w (abspath (os w) filename) in
    filters (state s') = filters (state s) @ concat (map filter_items (rev (filter_values es)))
    \<and> line_length s' = last (line_length s # length_values es)
    \<and> root s' = last (root s # map Some (root_values es))
    \<and> state s' = (state s)\<lparr>filters := filters (state s')\<rparr> \<and> valid_extensions s' = valid_extensions s
    \<and> error_suppressions s' = error_suppressions s \<and> global_error_suppressions s' = global_error_suppressions s
    \<and> no_reports s s'"
proof -
  from assms(1) obtain fs t where walk: "config_walk w filename (abspath (os w) filename) [] s = Inr (Some fs, t)"
    and add: "for_each (rev fs) module_AddFilters t = Inr ((), s')"
    by (auto simp: ProcessConfigOverrides_def andthen_def seq_def ret_def split: sum.splits option.splits)
  from config_walk_effect [OF walk] add_filters_effect [OF add] show ?thesis
    by (auto simp: Let_def configured_def no_reports_def)
qed

text \<open>A project with a configuration at its top and another one in a directory of it.\<close>

definition nested_configs :: world where
  "nested_configs =
     \<lparr>os = \<lparr>cwd = ''/p'', exists = (\<lambda>_. False)\<rparr>,
      isfile = (\<lambda>f. f \<in> set [''/p/CPPLINT.cfg'', ''/p/q/CPPLINT.cfg'']),
      config_lines = (\<lambda>f. if f = ''/p/CPPLINT.cfg'' then Some [''filter=-build'', ''linelength=80'']
                          else if f = ''/p/q/CPPLINT.cfg'' then Some [''filter=+build/include # keep'', ''linelength=100''] else None),
      source_text = (\<lambda>_. None), stdin_text = [], header_lines = (\<lambda>_. None), key_list = (\<lambda>ks. ks)\<rparr>"

lemma nested_entries: "config_entries nested_configs ''/p/q/a.cc'' =
    [(''filter'', ''+build/include''), (''linelength'', ''100''), (''filter'', ''-build''), (''linelength'', ''80'')]"
  by code_simp

theorem ProcessConfigOverrides_effect_witness:
  "\<exists>s'. ProcessConfigOverrides nested_configs ''q/a.cc'' init_lint = Inr (True, s')
     \<and> filters (state s') = [''-build/include_alpha'', ''-build'', ''+build/include''] \<and> line_length s' = 80"
proof -
  have run: "case ProcessConfigOverrides nested_configs ''q/a.cc'' init_lint of Inr (b, s') \<Rightarrow> b | Inl _ \<Rightarrow> False" by code_simp
  have path: "abspath (os nested_configs) ''q/a.cc'' = ''/p/q/a.cc''" by code_simp
  have es: "concat (map filter_items (rev (filter_values (config_entries nested_configs ''/p/q/a.cc'')))) = [''-build'', ''+build/include'']"
    "last (line_length init_lint # length_values (config_entries nested_configs ''/p/q/a.cc'')) = 80"
    "filters (state init_lint) = [''-build/include_alpha'']"
    unfolding nested_entries by code_simp+
  from run obtain s' where s': "ProcessConfigOverrides nested_configs ''q/a.cc'' init_lint = Inr (True, s')"
    by (auto split: sum.splits prod.splits)
  from ProcessConfigOverrides_effect [OF s'] s' show ?thesis unfolding Let_def path es by auto
qed

text \<open>C21: \<open>set noparent\<close> in the configuration of a file's own directory cuts off everything above it: two worlds
  that agree on that one configuration file give the same overrides, whatever else they hold.\<close>

theorem noparent_isolates:
  assumes "path_split (abspath (os w) filename) = (dir, base)" and "base \<noteq> []"
    and "isfile w (path_join dir ''CPPLINT.cfg'')" and "config_lines w (path_join dir ''CPPLINT.cfg'') = Some ls" and "noparent ls"
    and "os w' = os w" and "isfile w' (path_join dir ''CPPLINT.cfg'')" and "config_lines w' (path_join dir ''CPPLINT.cfg'') = Some ls"
  shows "ProcessConfigOverrides w' filename s = ProcessConfigOverrides w filename s"
proof -
  let ?p = "abspath (os w) filename"
  have walk: "config_walk v filename ?p [] s = (case config_file filename (path_join dir ''CPPLINT.cfg'') base ls
      \<lparr>keep_looking = True, cfg_filters = []\<rparr> s of
        Inl e \<Rightarrow> Inl e | Inr (None, t) \<Rightarrow> Inr (None, t) | Inr (Some cs, t) \<Rightarrow> Inr (Some (cfg_filters cs), t))"
    if "isfile v (path_join dir ''CPPLINT.cfg'')" "config_lines v (path_join dir ''CPPLINT.cfg'') = Some ls" for v
    using that assms(1,2,5) config_file_effect [OF _ config_name, of filename dir base ls _ s]
    by (subst config_walk.simps) (auto simp: andthen_def ret_def split: sum.split option.split)
  show ?thesis
    unfolding ProcessConfigOverrides_def andthen_def assms(6) walk [OF assms(3,4)] walk [OF assms(7,8)] by (rule refl)
qed

definition isolated :: "(string \<Rightarrow> bool) \<Rightarrow> world" where
  "isolated higher =
     nested_configs\<lparr>isfile := (\<lambda>f. f = ''/p/q/CPPLINT.cfg'' \<or> higher f),
       config_lines := (\<lambda>f. if f = ''/p/q/CPPLINT.cfg'' then Some [''set noparent'', ''linelength=100''] else Some [''linelength=40''])\<rparr>"

theorem noparent_isolates_witness:
  "ProcessConfigOverrides (isolated (\<lambda>_. True)) ''q/a.cc'' init_lint = ProcessConfigOverrides (isolated (\<lambda>_. False)) ''q/a.cc'' init_lint"
proof -
  have path: "path_split (abspath (os (isolated (\<lambda>_. False))) ''q/a.cc'') = (''/p/q'', ''a.cc'')"
    "path_join ''/p/q'' ''CPPLINT.cfg'' = ''/p/q/CPPLINT.cfg''" "noparent [''set noparent'', ''linelength=100'']" by code_simp+
  show ?thesis
    by (rule noparent_isolates [OF path(1), where ls = "[''set noparent'', ''linelength=100'']"])
      (simp_all only: path(2,3), simp_all add: isolated_def)
qed

end
