(* ===== verification/Driver.thy ===== *)
theory Driver
  imports Config
begin

text \<open>
  The command line and the loop over the files: \<open>ProcessFile\<close>, \<open>PrintUsage\<close>, \<open>PrintCategories\<close>,
  \<open>ParseArguments\<close> with the part of \<open>getopt\<close> it uses, and \<open>main\<close>.  An exit of the program before \<open>main\<close> is
  done is the exception \<open>SystemExit\<close> with the exit status and what the exit writes to standard error;
  the value of \<open>main\<close> is the exit status of a completed run.
\<close>

section \<open>One file\<close>

text \<open>Removing the carriage returns of all lines but the last: the lines, and the numbers of those that
  ended in a line feed alone and of those that had a carriage return.\<close>

fun line_endings :: "int \<Rightarrow> string list \<Rightarrow> string list \<times> int list \<times> int list" where
  "line_endings n [] = ([], [], [])"
| "line_endings n [line] = ([line], [], [])"
| "line_endings n (line # next_line # ls) =
     (let (out, lf_lines, crlf_lines) = line_endings (n + 1) (next_line # ls) in
      if endswith line [cr] then (rstrip_chars line [cr] # out, lf_lines, n # crlf_lines)
      else (line # out, n # lf_lines, crlf_lines))"

text \<open>What is done with the text of a file: the checks, unless the extension is not a valid one, the warnings about
  mixed line endings, and the final message.\<close>

definition process_text :: "world \<Rightarrow> string \<Rightarrow> string \<Rightarrow> check_fn list \<Rightarrow> (lint, unit) py" where
  "process_text w filename txt extra_check_functions =
     (let (ls, lf_lines, crlf_lines) = line_endings 1 (split_str txt [nl]);
          file_extension = slice_from filename (rfind filename ''.'' + 1)
      in
        seq (andthen (gets valid_extensions) (\<lambda>extensions.
          if filename \<noteq> ''-'' \<and> file_extension \<notin> set extensions
          then write_stderr (msg_of [''Ignoring '', filename, ''; not a valid file name ('',
                 join '', '' (key_list w extensions), '')'', [nl]])
          else
            seq (ProcessFileData (os w) (header_lines w) (key_list w) filename file_extension ls Error extra_check_functions)
                (do_when (lf_lines \<noteq> [] \<and> crlf_lines \<noteq> [])
                  (for_each crlf_lines (\<lambda>linenum.
                    Error filename linenum ''whitespace/newline'' 1
                      (rx ''Unexpected `r (^M) found; better to use only `n''))))))
        (write_stderr (msg_of [''Done processing '', filename, [nl]])))"

definition ProcessFile :: "world \<Rightarrow> string \<Rightarrow> int \<Rightarrow> check_fn list \<Rightarrow> (lint, unit) py" where
  "ProcessFile w filename vlevel extra_check_functions =
     andthen (module_SetVerboseLevel vlevel) (\<lambda>_.
     seq module_BackupFilters
     (andthen (ProcessConfigOverrides w filename) (\<lambda>process.
      if \<not> process then module_RestoreFilters
      else
        (case (if filename = ''-'' then Some (stdin_text w) else source_text w filename) of
           None \<Rightarrow>
             seq (write_stderr (msg_of [''Skipping input '', [squote], filename, [squote], '': Can'', [squote],
                    ''t open for reading'', [nl]]))
                 module_RestoreFilters
         | Some txt \<Rightarrow> seq (process_text w filename txt extra_check_functions) module_RestoreFilters))))"

section \<open>Usage\<close>

definition USAGE :: string where
  \<open>USAGE = rx (concat (map (\<lambda>line. line @ [nl])
    ([[]] @ [''Syntax: cpplint.py [--verbose=#] [--output=vs7] [--filter=-x,+y,...]'',
     ''                   [--counting=total|toplevel|detailed] [--root=subdir]'',
     ''                   [--linelength=digits]'',
     ''        <file> [file] ...'',
     [],
     ''  The style guidelines this tries to follow are those in'',
     ''    https://google-styleguide.googlecode.com/svn/trunk/cppguide.xml'',
     [],
     ''  Every problem is given a confidence score from 1-5, with 5 meaning we are'',
     ''  certain of the problem, and 1 meaning it could be a legitimate construct.'',
     ''  This will miss some errors, and is not a substitute for a code review.'',
     [],
     ''  To suppress false-positive errors of a certain category, add a'',
     ''  'NOLINT(category)' comment to the line.  NOLINT or NOLINT(*)'',
     ''  suppresses errors of all categories on that line.'',
     [],
     ''  The files passed in will be linted; at least one file must be provided.'',
     ''  Default linted extensions are .cc, .cpp, .cu, .cuh and .h.  Change the'',
     ''  extensions with the --extensions flag.'',
     [],
     ''  Flags:'',
     [],
     ''    output=vs7'',
     ''      By default, the output is formatted to ease emacs parsing.  Visual Studio'',
     ''      compatible output (vs7) may also be used.  Other formats are unsupported.'',
     [],
     ''    verbose=#'',
     ''      Specify a number 0-5 to restrict errors to certain verbosity levels.'',
     [],
     ''    filter=-x,+y,...'',
     ''      Specify a comma-separated list of category-filters to apply: only'',
     ''      error messages whose category names pass the filters will be printed.'',
     ''      (Category names are printed with the message and look like'',
     ''      "[whitespace/indent]".)  Filters are evaluated left to right.'',
     ''      "-FOO" and "FOO" means "do not print categories that start with FOO".'',
     ''      "+FOO" means "do print categories that start with FOO".'',
     [],
     ''      Examples: --filter=-whitespace,+whitespace/braces'',
     ''                --filter=whitespace,runtime/printf,+runtime/printf_format'',
     ''                --filter=-,+build/include_what_you_use'',
     [],
     ''      To see a list of all the categories used in cpplint, pass no arg:'',
     ''         --filter='',
     [],
     ''    counting=total|toplevel|detailed'',
     ''      The total number of errors found is always printed. If'',
     ''      'toplevel' is provided, then the count of errors in each of'',
     ''      the top-level categories like 'build' and 'whitespace' will'',
     ''      also be printed. If 'detailed' is provided, then a count'',
     ''      is provided for each category like 'build/class'.'',
     [],
     ''    root=subdir'',
     ''      The root directory used for deriving header guard CPP variable.'',
     ''      By default, the header guard CPP variable is calculated as the relative'',
     ''      path to the directory that contains .git, .hg, or .svn.  When this flag'',
     ''      is specified, the relative path is calculated from the specified'',
     ''      directory. If the specified directory does not exist, this flag is'',
     ''      ignored.'',
     [],
     ''      Examples:'',
     ''        Assuming that src/.git exists, the header guard CPP variables for'',
     ''        src/chrome/browser/ui/browser.h are:'',
     [],
     ''        No flag => CHROME_BROWSER_UI_BROWSER_H_'',
     ''        --root=chrome => BROWSER_UI_BROWSER_H_'',
     ''        --root=chrome/browser => UI_BROWSER_H_'',
     [],
     ''    linelength=digits'',
     ''      This is the allowed line length for the project. The default value is'',
     ''      80 characters.'',
     [],
     ''      Examples:'',
     ''        --linelength=120'',
     [],
     ''    extensions=extension,extension,...'',
     ''      The allowed file extensions that cpplint will check'',
     [],
     ''      Examples:'',
     ''        --extensions=hpp,cpp'',
     [],
     ''    cpplint.py supports per-directory configurations specified in CPPLINT.cfg'',
     ''    files. CPPLINT.cfg file can contain a number of key=value pairs.'',
     ''    Currently the following options are supported:'',
     [],
     ''      set noparent'',
     ''      filter=+filter1,-filter2,...'',
     ''      exclude_files=regex'',
     ''      linelength=80'',
     ''      root=subdir'',
     [],
     ''    "set noparent" option prevents cpplint from traversing directory tree'',
     ''    upwards looking for more .cfg files in parent directories. This option'',
     ''    is usually placed in the top-level project directory.'',
     [],
     ''    The "filter" option is similar in function to --filter flag. It specifies'',
     ''    message filters in addition to the |_DEFAULT_FILTERS| and those specified'',
     ''    through --filter command-line flag.'',
     [],
     ''    "exclude_files" allows to specify a regular expression to be matched against'',
     ''    a file name. If the expression matches, the file is skipped and not run'',
     ''    through liner.'',
     [],
     ''    "linelength" allows to specify the allowed line length for the project.'',
     [],
     ''    The "root" option is similar in function to the --root flag (see example'',
     ''    above).'',
     [],
     ''    CPPLINT.cfg has an effect on files in the same directory and all'',
     ''    sub-directories, unless overridden by a nested configuration file.'',
     [],
     ''      Example file:'',
     ''        filter=-build/include_order,+build/include_alpha'',
     ''        exclude_files=.*`.cc'',
     [],
     ''    The above example disables build/include_order warning and enables'',
     ''    build/include_alpha as well as excludes all .cc from being'',
     ''    processed by linter, in the current directory (where the .cfg'',
     ''    file is located) and all sub-directories.''])))\<close>

definition PrintUsage :: "string option \<Rightarrow> (lint, 'a) py" where
  "PrintUsage message =
     (case message of
        None \<Rightarrow> raise (SystemExit 1 USAGE)
      | Some m \<Rightarrow>
          if m = [] then raise (SystemExit 1 USAGE)
          else raise (SystemExit 1 (msg_of [USAGE, [nl], ''FATAL ERROR: '', m, [nl]])))"

definition PrintCategories :: "(lint, 'a) py" where
  "PrintCategories = raise (SystemExit 0 (concat (map (\<lambda>cat. msg_of [''  '', cat, [nl]]) ERROR_CATEGORIES)))"

section \<open>The command line\<close>

text \<open>\<open>getopt.getopt\<close> without short options: \<open>None\<close> stands for \<open>GetoptError\<close>.\<close>

definition long_has_args :: "string \<Rightarrow> string list \<Rightarrow> (bool \<times> string) option" where
  "long_has_args opt longopts =
     (let possibilities = filter (\<lambda>name. startswith name opt) longopts in
      if possibilities = [] then None
      else if opt \<in> set possibilities then Some (False, opt)
      else if opt @ ''='' \<in> set possibilities then Some (True, opt)
      else if length possibilities > 1 then None
      else
        let unique_match = hd possibilities in
        if endswith unique_match ''='' then Some (True, butlast unique_match) else Some (False, unique_match))"

definition split_option :: "string \<Rightarrow> string \<times> string option" where
  "split_option opt =
     (if contains opt ''='' then let (name, val) = partition_str opt ''='' in (name, Some val) else (opt, None))"

fun getopt :: "string list \<Rightarrow> string list \<Rightarrow> (string \<times> string) list \<Rightarrow> ((string \<times> string) list \<times> string list) option" where
  "getopt longopts [] opts = Some (opts, [])"
| "getopt longopts (a # args) opts =
     (if \<not> startswith a ''-'' \<or> a = ''-'' then Some (opts, a # args)
      else if a = ''--'' then Some (opts, args)
      else if \<not> startswith a ''--'' then None
      else
        let (opt, optarg) = split_option (drop 2 a) in
        case long_has_args opt longopts of
          None \<Rightarrow> None
        | Some (True, name) \<Rightarrow>
            (case optarg of
               Some val \<Rightarrow> getopt longopts args (opts @ [(''--'' @ name, val)])
             | None \<Rightarrow>
                 (case args of
                    [] \<Rightarrow> None
                  | val # args' \<Rightarrow> getopt longopts args' (opts @ [(''--'' @ name, val)])))
        | Some (False, name) \<Rightarrow>
            (case optarg of
               Some val \<Rightarrow> None
             | None \<Rightarrow> getopt longopts args (opts @ [(''--'' @ name, [])])))"

definition LONG_OPTIONS :: "string list" where
  "LONG_OPTIONS = [''help'', ''output='', ''verbose='', ''counting='', ''filter='', ''root='', ''linelength='', ''extensions='']"

record options =
  verbosity :: int
  output_choice :: string
  filter_choice :: string
  counting_style :: string

definition parse_option :: "string \<times> string \<Rightarrow> options \<Rightarrow> (lint, options) py" where
  "parse_option optval opts =
     (let (opt, val) = optval in
      if opt = ''--help'' then PrintUsage None
      else if opt = ''--output'' then
        (if val \<notin> {''emacs'', ''vs7'', ''eclipse''}
         then PrintUsage (Some ''The only allowed output formats are emacs, vs7 and eclipse.'')
         else ret (opts\<lparr>output_choice := val\<rparr>))
      else if opt = ''--verbose'' then
        (case py_int val of
           None \<Rightarrow> raise (ValueError (msg_of [''invalid literal for int() with base 10: '', [squote], val, [squote]]))
         | Some n \<Rightarrow> ret (opts\<lparr>verbosity := n\<rparr>))
      else if opt = ''--filter'' then
        (if val = [] then PrintCategories else ret (opts\<lparr>filter_choice := val\<rparr>))
      else if opt = ''--counting'' then
        (if val \<notin> {''total'', ''toplevel'', ''detailed''}
         then PrintUsage (Some ''Valid counting options are total, toplevel, and detailed'')
         else ret (opts\<lparr>counting_style := val\<rparr>))
      else if opt = ''--root'' then seq (modify (\<lambda>s. s\<lparr>root := Some val\<rparr>)) (ret opts)
      else if opt = ''--linelength'' then
        (case py_int val of
           None \<Rightarrow> PrintUsage (Some ''Line length must be digits.'')
         | Some n \<Rightarrow> seq (modify (\<lambda>s. s\<lparr>line_length := n\<rparr>)) (ret opts))
      else if opt = ''--extensions'' then
        seq (modify (\<lambda>s. s\<lparr>valid_extensions := remdups (split_str val '','')\<rparr>)) (ret opts)
      else ret opts)"

fun parse_options :: "(string \<times> string) list \<Rightarrow> options \<Rightarrow> (lint, options) py" where
  "parse_options [] opts = ret opts"
| "parse_options (optval # optvals) opts =
     andthen (parse_option optval opts) (\<lambda>opts. parse_options optvals opts)"

definition ParseArguments :: "string list \<Rightarrow> (lint, string list) py" where
  "ParseArguments args =
     (case getopt LONG_OPTIONS args [] of
        None \<Rightarrow> PrintUsage (Some ''Invalid arguments.'')
      | Some (optvals, filenames) \<Rightarrow>
          andthen module_VerboseLevel (\<lambda>v.
          andthen module_OutputFormat (\<lambda>fmt.
          andthen (parse_options optvals \<lparr>verbosity = v, output_choice = fmt, filter_choice = [], counting_style = []\<rparr>) (\<lambda>opts.
            if filenames = [] then PrintUsage (Some ''No files were specified.'')
            else
              seq (module_SetOutputFormat (output_choice opts))
             (andthen (module_SetVerboseLevel (verbosity opts)) (\<lambda>_.
              seq (module_SetFilters (filter_choice opts))
             (seq (module_SetCountingStyle (counting_style opts))
             (ret filenames))))))))"

section \<open>main\<close>

definition main :: "world \<Rightarrow> string list \<Rightarrow> (lint, int) py" where
  "main w args =
     andthen (ParseArguments args) (\<lambda>filenames.
     seq (on_state (\<lambda>st. Inr (ResetErrorCounts st)))
    (seq (for_each filenames (\<lambda>filename.
            andthen (gets (\<lambda>s. verbose_level (state s))) (\<lambda>level. ProcessFile w filename level [])))
    (seq (andthen (gets (\<lambda>s. PrintErrorCounts (state s))) (\<lambda>report. for_each report write_stderr))
    (gets (\<lambda>s. if error_count (state s) > 0 then 1 else 0)))))"

section \<open>What a run writes\<close>

text \<open>The lines written to standard error since \<open>s0\<close>: every report is of a documented category, and the error count has
  grown by the number of reports.  What is a report is seen from the line alone.\<close>

definition tally :: "lint \<Rightarrow> lint \<Rightarrow> bool" where
  "tally s0 s \<longleftrightarrow>
     (\<exists>new. stderr s = stderr s0 @ new \<and> list_all (\<lambda>line. report_line line \<longrightarrow> documented_line line) new
        \<and> error_count (state s) = error_count (state s0) + int (length (filter report_line new)))"

lemma tally_refl: "tally s s"
  unfolding tally_def by (rule exI [of _ "[]"]) simp

lemma tally_trans: "tally s t \<Longrightarrow> tally t u \<Longrightarrow> tally s u"
proof -
  assume "tally s t" "tally t u"
  then obtain es fs where "stderr t = stderr s @ es" "list_all (\<lambda>line. report_line line \<longrightarrow> documented_line line) es"
    "error_count (state t) = error_count (state s) + int (length (filter report_line es))"
    "stderr u = stderr t @ fs" "list_all (\<lambda>line. report_line line \<longrightarrow> documented_line line) fs"
    "error_count (state u) = error_count (state t) + int (length (filter report_line fs))"
    unfolding tally_def by blast
  then show "tally s u" unfolding tally_def by (intro exI [of _ "es @ fs"]) simp
qed

lemma tally_message: "\<not> report_line line \<Longrightarrow> tally s (s\<lparr>stderr := stderr s @ [line]\<rparr>)"
  unfolding tally_def by (rule exI [of _ "[line]"]) simp

lemma tally_documented: "documented s t \<Longrightarrow> tally s t"
proof -
  assume "documented s t"
  then obtain new where new: "stderr t = stderr s @ new" "list_all documented_line new"
    "error_count (state t) = error_count (state s) + int (length new)"
    unfolding documented_def documented_from_def by blast
  then have "filter report_line new = new" by (auto simp: list_all_iff documented_report filter_id_conv)
  with new show "tally s t" unfolding tally_def by (intro exI [of _ new]) (simp add: list_all_iff)
qed

text \<open>The other messages of a run are not reports, as long as no file name ends in a bracket.\<close>

abbreviation plain_name :: "string \<Rightarrow> bool" where
  "plain_name f \<equiv> \<not> suffix '']'' f"

lemma show_int_end: "show_int n \<noteq> [] \<and> last (show_int n) \<noteq> CHR '']''"
proof -
  have "is_digit (last (show_nat k))" for k using show_nat_digits [of k] by (metis last_in_set list_all_iff)
  moreover have "\<not> is_digit (CHR '']'')" by code_simp
  ultimately have "last (show_nat k) \<noteq> CHR '']''" "show_nat k \<noteq> []" for k using show_nat_digits by metis+
  then show ?thesis by (simp add: show_int_def)
qed

lemma report_line_last: "t \<noteq> [] \<Longrightarrow> report_line (u @ t @ [nl]) \<longleftrightarrow> last t = CHR '']''"
proof (cases t rule: rev_cases)
  case (snoc g c)
  with report_line_end(1) [of "[c, nl]" "u @ g"] show ?thesis by simp
qed simp

lemma count_lines: "line \<in> set (PrintErrorCounts st) \<Longrightarrow> \<not> report_line line"
proof -
  have "\<not> report_line ((''Category '' @ [squote] @ c @ [squote] @ '' errors found: '') @ show_int n @ [nl])"
    "\<not> report_line (''Total errors found: '' @ show_int n @ [nl])" for c n
    using show_int_end by (simp_all add: report_line_last del: append_assoc append_Cons append_Nil)
  then show "line \<in> set (PrintErrorCounts st) \<Longrightarrow> \<not> report_line line" by (auto simp: PrintErrorCounts_def)
qed

lemma file_messages:
  "plain_name f \<Longrightarrow> \<not> report_line (msg_of [''Done processing '', f, [nl]])"
  "\<not> report_line (msg_of [''Skipping input '', [squote], f, [squote], '': Can'', [squote], ''t open for reading'', [nl]])"
  "\<not> report_line (msg_of [''Ignoring '', f, ''; not a valid file name ('', e, '')'', [nl]])"
proof -
  show "\<not> report_line (msg_of [''Done processing '', f, [nl]])" if "plain_name f"
  proof (cases f rule: rev_cases)
    case (snoc g c)
    with that report_line_last [of f "''Done processing ''"] show ?thesis by (simp add: msg_of_def suffix_def)
  qed (simp add: msg_of_def report_line_end)
qed (simp_all add: msg_of_def report_line_end)

lemma tally_same: "stderr t = stderr s \<Longrightarrow> error_count (state t) = error_count (state s) \<Longrightarrow> tally s t"
  unfolding tally_def by (rule exI [of _ "[]"]) simp

text \<open>What holds throughout the processing of a file, from the moment the filters are saved: the verbosity is
  \<open>v\<close> and the saved filters are \<open>b\<close>.\<close>

definition working :: "lint \<Rightarrow> int \<Rightarrow> string list \<Rightarrow> lint \<Rightarrow> bool" where
  "working s0 v b s \<longleftrightarrow>
     lint_ok s \<and> usable s \<and> tally s0 s \<and> verbose_level (state s) = v \<and> filters_backup (state s) = b"

text \<open>The configuration files that a run may meet: their filters are signed, their roots and exclusions are
  regular expressions.\<close>

definition entry_ok :: "string \<times> string \<Rightarrow> bool" where
  "entry_ok e \<longleftrightarrow>
     (fst e = ''filter'' \<longrightarrow> list_all signed_filter (filter_items (snd e)))
     \<and> (fst e = ''root'' \<longrightarrow> root_ok (Some (snd e)))
     \<and> (fst e = ''exclude_files'' \<longrightarrow> re_compile (snd e) \<noteq> None)"

definition configs_ok :: "world \<Rightarrow> bool" where
  "configs_ok w \<longleftrightarrow> (\<forall>f ls. config_lines w f = Some ls \<longrightarrow> list_all entry_ok (entries_of ls))"

abbreviation signed_items :: "string \<Rightarrow> bool" where
  "signed_items f \<equiv> list_all signed_filter (filter_items f)"

lemma working_write [safe_intros]: "\<not> report_line line \<Longrightarrow> safe_unit (working s0 v b) (write_stderr line)"
  unfolding write_stderr_def
proof (rule safe_modify)
  fix s assume "\<not> report_line line" "working s0 v b s"
  then show "working s0 v b (s\<lparr>stderr := stderr s @ [line]\<rparr>)"
    using tally_trans [OF _ tally_message, of s0 s line] by (auto simp: working_def lint_ok_def usable_def)
qed

lemma working_length [safe_intros]: "safe_unit (working s0 v b) (modify (\<lambda>s. s\<lparr>line_length := n\<rparr>))"
proof (rule safe_modify)
  fix s assume "working s0 v b s"
  then show "working s0 v b (s\<lparr>line_length := n\<rparr>)"
    using tally_trans [OF _ tally_same, of s0 s "s\<lparr>line_length := n\<rparr>"] by (auto simp: working_def lint_ok_def usable_def)
qed

lemma working_root: "root_ok (Some r) \<Longrightarrow> safe_unit (working s0 v b) (modify (\<lambda>s. s\<lparr>root := Some r\<rparr>))"
proof (rule safe_modify)
  fix s assume "root_ok (Some r)" "working s0 v b s"
  then show "working s0 v b (s\<lparr>root := Some r\<rparr>)"
    using tally_trans [OF _ tally_same, of s0 s "s\<lparr>root := Some r\<rparr>"] by (auto simp: working_def lint_ok_def usable_def)
qed

lemma working_AddFilters: "signed_items f \<Longrightarrow> safe_unit (working s0 v b) (module_AddFilters f)"
  unfolding safe_def
proof (intro allI impI)
  fix s assume f: "signed_items f" and s: "working s0 v b s"
  let ?t = "s\<lparr>state := (state s)\<lparr>filters := filters (state s) @ filter_items f\<rparr>\<rparr>"
  from s f have "module_AddFilters f s = Inr ((), ?t)"
    by (simp add: working_def lint_ok_def module_AddFilters_def on_state_def AddFilters_cases)
  moreover have "working s0 v b ?t"
    using s f tally_trans [OF _ tally_same, of s0 s ?t] by (auto simp: working_def lint_ok_def usable_def counts_ok_def)
  ultimately show "\<exists>a s'. module_AddFilters f s = Inr (a, s') \<and> True \<and> working s0 v b s'" by blast
qed

lemma config_line_safe:
  assumes "list_all entry_ok (entries_of [line])" "list_all signed_items (cfg_filters cs)" "suffix ''CPPLINT.cfg'' cfg"
  shows "safe (working s0 v b) (\<lambda>r. \<forall>cs'. r = Some cs' \<longrightarrow> list_all signed_items (cfg_filters cs'))
    (config_line filename cfg base line cs)"
proof (cases "config_entry line")
  case (Some e)
  then have e: "entry_ok e" using assms(1) by (simp add: entries_of_def List.map_filter_def)
  obtain name val where nv: "e = (name, val)" by fastforce
  have compile: "safe (working s0 v b) Q (case re_compile val of None \<Rightarrow> raise ReError | Some p \<Rightarrow> f p)"
    if "name = ''exclude_files''" "\<And>p. safe (working s0 v b) Q (f p)" for f and Q :: "config_state option \<Rightarrow> bool"
    using e nv that by (cases "re_compile val") (auto simp: entry_ok_def)
  have root: "safe_unit (working s0 v b) (modify (\<lambda>s. s\<lparr>root := Some val\<rparr>))" if "name = ''root''"
    using e nv that by (intro working_root) (simp add: entry_ok_def)
  show ?thesis unfolding config_line_def Some nv option.case prod.case
    by (intro safe_intros compile root config_messages assms(3)) (use e nv assms(2) in \<open>auto simp: entry_ok_def\<close>)
qed (use assms(2) in \<open>simp add: config_line_def safe_ret\<close>)

lemma config_file_safe:
  "list_all entry_ok (entries_of ls) \<Longrightarrow> list_all signed_items (cfg_filters cs) \<Longrightarrow> suffix ''CPPLINT.cfg'' cfg \<Longrightarrow>
    safe (working s0 v b) (\<lambda>r. \<forall>cs'. r = Some cs' \<longrightarrow> list_all signed_items (cfg_filters cs')) (config_file filename cfg base ls cs)"
proof (induction ls arbitrary: cs)
  case (Cons l ls)
  have "list_all entry_ok (entries_of [l])" "list_all entry_ok (entries_of ls)"
    using Cons.prems(1) by (auto simp: entries_of_def List.map_filter_def split: if_splits option.splits)
  with Cons show ?case unfolding config_file.simps
    by (intro safe_andthen [OF config_line_safe] safe_option safe_ret) auto
qed (simp add: safe_ret)

lemma config_walk_safe:
  assumes "configs_ok w"
  shows "list_all signed_items fs \<Longrightarrow>
    safe (working s0 v b) (\<lambda>r. \<forall>fs'. r = Some fs' \<longrightarrow> list_all signed_items fs') (config_walk w filename p fs)"
  using assms
proof (induction w filename p fs rule: config_walk.induct)
  case (1 w filename p fs)
  obtain d c where dc: "path_split p = (d, c)" by fastforce
  let ?cfg = "path_join d ''CPPLINT.cfg''"
  have lines: "list_all entry_ok (entries_of ls)" if "config_lines w ?cfg = Some ls" for ls
    using 1(4) that by (simp add: configs_ok_def)
  show ?case
    by (subst config_walk.simps, simp only: dc prod.case Let_def, intro safe_if safe_ret safe_option safe_seq working_write
        config_messages safe_andthen [OF config_file_safe] 1(1) 1(2) lines config_name) (use 1(3,4) dc in auto)
qed

lemma ProcessConfigOverrides_safe:
  assumes "configs_ok w"
  shows "safe (working s0 v b) (\<lambda>_. True) (ProcessConfigOverrides w filename)"
  unfolding ProcessConfigOverrides_def
  by (rule safe_andthen [OF config_walk_safe [OF assms]])
    (auto intro!: safe_intros working_AddFilters simp: list_all_iff split: option.split)

lemma working_documented: "working s0 v b s \<Longrightarrow> documented s t \<Longrightarrow> working s0 v b t"
  using tally_trans [OF _ tally_documented] by (auto simp: working_def documented_def documented_from_def)

lemma working_runs:
  assumes "\<And>s0. runs E (documented s0) (\<lambda>_. True) m"
  shows "runs E (working s0 v b) (\<lambda>_. True) m"
  unfolding runs_def
proof (intro allI impI)
  fix s assume s: "working s0 v b s"
  then have "documented s s" by (intro documented_refl) (simp_all add: working_def)
  from runsD [OF assms this] show "(\<exists>e \<in> E. m s = Inl e) \<or> (\<exists>a s'. m s = Inr (a, s') \<and> True \<and> working s0 v b s')"
    using working_documented [OF s] by blast
qed

text \<open>The texts that are linted without an exception, and the exceptions of a world: none when every text is
  such a text.\<close>

definition text_ok :: "string \<Rightarrow> bool" where
  "text_ok txt \<longleftrightarrow>
     (\<forall>cl n. CleansedLines (fst (strip_comments 0 (with_markers (fst (line_endings 1 (split_str txt [nl])))))) = Inr cl \<longrightarrow>
        in_file cl n \<longrightarrow> line_ok cl n)"

definition texts_ok :: "world \<Rightarrow> bool" where
  "texts_ok w \<longleftrightarrow> text_ok (stdin_text w) \<and> (\<forall>f txt. source_text w f = Some txt \<longrightarrow> text_ok txt)"

definition text_errors :: "world \<Rightarrow> py_error set" where
  "text_errors w = {e. e = IndexError \<and> \<not> texts_ok w}"

lemma ProcessFileData_working:
  assumes "walks_end env" "key_order ord" "fst (line_endings 1 (split_str txt [nl])) = ls"
  shows "runs {e. e = IndexError \<and> \<not> text_ok txt} (working s0 v b) (\<lambda>_. True) (ProcessFileData env io ord filename ext ls Error [])"
proof (rule working_runs)
  fix s0
  obtain cl where cl: "CleansedLines (fst (strip_comments 0 (with_markers ls))) = Inr cl" using CleansedLines_ok by blast
  show "runs {e. e = IndexError \<and> \<not> text_ok txt} (documented s0) (\<lambda>_. True) (ProcessFileData env io ord filename ext ls Error [])"
    by (rule runs_mono [OF linted.ProcessFileData_runs [OF assms(1,2) cl]])
      (use cl assms(3) in \<open>auto simp: line_errors_def text_ok_def\<close>)
qed

lemma working_writes: "\<not> report_line t \<Longrightarrow> runs E (working s0 v b) (\<lambda>_. True) (write_stderr t)"
  by (intro safe_runs working_write)

lemma process_text_working:
  assumes "walks_end (os w)" "key_order (key_list w)" "plain_name filename"
  shows "runs {e. e = IndexError \<and> \<not> text_ok txt} (working s0 v b) (\<lambda>_. True) (process_text w filename txt [])"
proof -
  have reports: "runs E (working s0 v b) (\<lambda>_. True)
      (do_when g (for_each ns (\<lambda>linenum. Error filename linenum ''whitespace/newline'' 1 msg)))" for E g ns msg
    by (intro working_runs safe_runs safe_intros checked.report) simp_all
  show ?thesis unfolding process_text_def
    by (intro runs_let runs_prod runs_seq runs_andthen [OF safe_runs [OF safe_gets]] runs_if working_writes file_messages assms(3)
        ProcessFileData_working [OF assms(1,2)] reports) (simp, metis fst_conv)
qed

definition restored :: "lint \<Rightarrow> int \<Rightarrow> string list \<Rightarrow> lint \<Rightarrow> bool" where
  "restored s0 v b s \<longleftrightarrow> working s0 v b s \<and> filters (state s) = b"

lemma RestoreFilters_outcome:
  assumes "working s0 v b s"
  shows "\<exists>s'. module_RestoreFilters s = Inr ((), s') \<and> restored s0 v b s'"
proof -
  let ?t = "s\<lparr>state := (state s)\<lparr>filters := filters_backup (state s)\<rparr>\<rparr>"
  have "module_RestoreFilters s = Inr ((), ?t)" by (simp add: module_RestoreFilters_def on_state_def RestoreFilters_def)
  moreover have "restored s0 v b ?t"
    using assms tally_trans [OF _ tally_same, of s0 s ?t]
    by (auto simp: restored_def working_def lint_ok_def usable_def counts_ok_def)
  ultimately show ?thesis by blast
qed

text \<open>A computation that starts in a working state and ends with the filters restored.\<close>

definition finishes :: "py_error set \<Rightarrow> lint \<Rightarrow> int \<Rightarrow> string list \<Rightarrow> (lint, unit) py \<Rightarrow> bool" where
  "finishes E s0 v b m \<longleftrightarrow> (\<forall>s. working s0 v b s \<longrightarrow> (\<exists>e \<in> E. m s = Inl e) \<or> (\<exists>s'. m s = Inr ((), s') \<and> restored s0 v b s'))"

lemma finishes_restore: "finishes E s0 v b module_RestoreFilters"
  using RestoreFilters_outcome by (simp add: finishes_def)

lemma finishes_andthen:
  assumes "runs E (working s0 v b) (\<lambda>_. True) m" "\<And>a. finishes E s0 v b (f a)"
  shows "finishes E s0 v b (andthen m f)"
  unfolding finishes_def
proof (intro allI impI)
  fix s assume "working s0 v b s"
  from runsD [OF assms(1) this] show "(\<exists>e \<in> E. andthen m f s = Inl e) \<or> (\<exists>s'. andthen m f s = Inr ((), s') \<and> restored s0 v b s')"
    using assms(2) unfolding finishes_def andthen_def by fastforce
qed

lemma finishes_seq: "runs E (working s0 v b) (\<lambda>_. True) m \<Longrightarrow> finishes E s0 v b n \<Longrightarrow> finishes E s0 v b (seq m n)"
  unfolding seq_def by (rule finishes_andthen)

lemma ProcessFile_outcome:
  assumes "walks_end (os w)" "key_order (key_list w)" "configs_ok w" and s: "lint_ok s" "root_ok (root s)" "0 \<le> v" and name: "plain_name filename"
  shows "ProcessFile w filename v [] s = Inl IndexError \<and> \<not> texts_ok w
    \<or> (\<exists>s'. ProcessFile w filename v [] s = Inr ((), s') \<and> restored s v (filters (state s)) s')"
proof -
  let ?t = "s\<lparr>state := (state s)\<lparr>verbose_level := v, filters_backup := filters (state s)\<rparr>\<rparr>"
  have start: "working s v (filters (state s)) ?t"
    using s by (simp add: working_def lint_ok_def usable_def counts_ok_def tally_same)
  define rest where "rest = (\<lambda>process. if \<not> process then module_RestoreFilters
      else
        (case (if filename = ''-'' then Some (stdin_text w) else source_text w filename) of
           None \<Rightarrow>
             seq (write_stderr (msg_of [''Skipping input '', [squote], filename, [squote], '': Can'', [squote],
                    ''t open for reading'', [nl]]))
                 module_RestoreFilters
         | Some txt \<Rightarrow> seq (process_text w filename txt []) module_RestoreFilters))"
  have run: "ProcessFile w filename v [] s = andthen (ProcessConfigOverrides w filename) rest ?t"
    by (simp add: ProcessFile_def rest_def module_SetVerboseLevel_def SetVerboseLevel_def module_BackupFilters_def on_state_def
        BackupFilters_def andthen_def [of "\<lambda>s. _ s"] seq_def)
  have checks: "runs (text_errors w) (working s0 v b) (\<lambda>_. True) (process_text w filename content [])"
    if "(if filename = ''-'' then Some (stdin_text w) else source_text w filename) = Some content" for s0 v b content
    by (rule runs_mono [OF process_text_working [OF assms(1,2) name]])
      (use that in \<open>auto simp: text_errors_def texts_ok_def split: if_splits\<close>)
  have "finishes (text_errors w) s v (filters (state s)) (rest process)" for process
    unfolding rest_def
    by (cases "if filename = ''-'' then Some (stdin_text w) else source_text w filename")
      (simp_all add: finishes_restore finishes_seq working_writes file_messages checks)
  then have "finishes (text_errors w) s v (filters (state s)) (andthen (ProcessConfigOverrides w filename) rest)"
    by (intro finishes_andthen safe_runs ProcessConfigOverrides_safe assms(3))
  with start show ?thesis unfolding run finishes_def text_errors_def by blast
qed

section \<open>The command line: what is accepted\<close>

text \<open>The values given for an option, and what the options given so far amount to: of each option the last value wins.\<close>

definition option_values :: "string \<Rightarrow> (string \<times> string) list \<Rightarrow> string list" where
  "option_values name optvals = map snd (filter (\<lambda>ov. fst ov = name) optvals)"

lemma option_values_append: "option_values name (xs @ ys) = option_values name xs @ option_values name ys"
  by (simp add: option_values_def)

lemma option_values_simps [simp]:
  "option_values name [] = []" "option_values name [(opt, val)] = (if opt = name then [val] else [])"
  by (simp_all add: option_values_def)

definition chosen :: "(string \<times> string) list \<Rightarrow> options \<Rightarrow> options \<Rightarrow> bool" where
  "chosen optvals opts opts' \<longleftrightarrow>
     output_choice opts' = last (output_choice opts # option_values ''--output'' optvals)
     \<and> Some (verbosity opts') = last (Some (verbosity opts) # map py_int (option_values ''--verbose'' optvals))
     \<and> filter_choice opts' = last (filter_choice opts # option_values ''--filter'' optvals)
     \<and> counting_style opts' = last (counting_style opts # option_values ''--counting'' optvals)
     \<and> set (option_values ''--output'' optvals) \<subseteq> {''emacs'', ''vs7'', ''eclipse''}
     \<and> set (option_values ''--counting'' optvals) \<subseteq> {''total'', ''toplevel'', ''detailed''}"

definition option_effect :: "(string \<times> string) list \<Rightarrow> lint \<Rightarrow> lint \<Rightarrow> bool" where
  "option_effect optvals s s' \<longleftrightarrow>
     Some (line_length s') = last (Some (line_length s) # map py_int (option_values ''--linelength'' optvals))
     \<and> root s' = last (root s # map Some (option_values ''--root'' optvals))
     \<and> valid_extensions s' = last (valid_extensions s # map (\<lambda>v. remdups (split_str v '','')) (option_values ''--extensions'' optvals))
     \<and> state s' = state s \<and> stderr s' = stderr s"

lemma chosen_append: "chosen xs a b \<Longrightarrow> chosen ys b c \<Longrightarrow> chosen (xs @ ys) a c"
  unfolding chosen_def option_values_append map_append
  by (simp only: last_trans [symmetric] set_append Un_subset_iff simp_thms)

lemma option_effect_append: "option_effect xs a b \<Longrightarrow> option_effect ys b c \<Longrightarrow> option_effect (xs @ ys) a c"
  unfolding option_effect_def option_values_append map_append by (simp only: last_trans [symmetric] simp_thms)

lemma parse_option_effect:
  assumes "parse_option optval opts s = Inr (opts', s')"
  shows "chosen [optval] opts opts'" "option_effect [optval] s s'"
  using assms
  by (auto simp: parse_option_def PrintUsage_def PrintCategories_def chosen_def option_effect_def py_simps
      split: if_splits option.splits prod.splits)

lemma parse_options_effect:
  "parse_options optvals opts s = Inr (opts', s') \<Longrightarrow> chosen optvals opts opts' \<and> option_effect optvals s s'"
proof (induction optvals arbitrary: opts s)
  case (Cons ov ovs)
  then obtain o1 t where first: "parse_option ov opts s = Inr (o1, t)" and rest: "parse_options ovs o1 t = Inr (opts', s')"
    by (auto simp: andthen_def split: sum.splits)
  from Cons.IH [OF rest] parse_option_effect [OF first] show ?case
    using chosen_append [of "[ov]"] option_effect_append [of "[ov]"] by auto
qed (simp add: ret_def chosen_def option_effect_def)

lemma andthen_gets: "andthen (gets f) g s = g (f s) s"
  by (simp add: andthen_def gets_def)

text \<open>What an accepted command line does to the state: the settings are the last values given, or the old ones.\<close>

definition settings :: "(string \<times> string) list \<Rightarrow> lint \<Rightarrow> lint \<Rightarrow> bool" where
  "settings optvals s s' \<longleftrightarrow>
     (\<exists>opts. chosen optvals \<lparr>verbosity = verbose_level (state s), output_choice = output_format (state s),
         filter_choice = [], counting_style = []\<rparr> opts
      \<and> option_effect optvals s (s'\<lparr>state := state s\<rparr>) \<and> list_all signed_filter (filter_items (filter_choice opts))
      \<and> state s' = (state s)\<lparr>output_format := output_choice opts, verbose_level := verbosity opts,
          filters := DEFAULT_FILTERS @ filter_items (filter_choice opts), counting := counting_style opts\<rparr>)"

lemma ParseArguments_effect:
  assumes "ParseArguments args s = Inr (filenames, s')"
  shows "\<exists>optvals. getopt LONG_OPTIONS args [] = Some (optvals, filenames) \<and> filenames \<noteq> [] \<and> settings optvals s s'"
proof -
  let ?opts = "\<lparr>verbosity = verbose_level (state s), output_choice = output_format (state s), filter_choice = [], counting_style = []\<rparr>"
  from assms obtain optvals files opts t where get: "getopt LONG_OPTIONS args [] = Some (optvals, files)"
    and opts: "parse_options optvals ?opts s = Inr (opts, t)"
    and set: "(if files = [] then PrintUsage (Some ''No files were specified.'')
      else seq (module_SetOutputFormat (output_choice opts))
             (andthen (module_SetVerboseLevel (verbosity opts)) (\<lambda>_.
              seq (module_SetFilters (filter_choice opts))
             (seq (module_SetCountingStyle (counting_style opts))
             (ret files))))) t = Inr (filenames, s')"
    by (auto simp: ParseArguments_def PrintUsage_def [of "Some ''Invalid arguments.''"] module_VerboseLevel_def module_OutputFormat_def
        andthen_gets raise_def andthen_def [of "parse_options _ _"] split: option.splits sum.splits)
  note eff = parse_options_effect [OF opts]
  from set have s': "filenames = files" "files \<noteq> []" "signed_items (filter_choice opts)"
    "s' = t\<lparr>state := (state t)\<lparr>output_format := output_choice opts, verbose_level := verbosity opts,
         filters := DEFAULT_FILTERS @ filter_items (filter_choice opts), counting := counting_style opts\<rparr>\<rparr>"
    by (auto simp: PrintUsage_def module_SetOutputFormat_def SetOutputFormat_def module_SetVerboseLevel_def SetVerboseLevel_def
        module_SetFilters_def SetFilters_def AddFilters_cases module_SetCountingStyle_def SetCountingStyle_def on_state_def py_simps
        split: if_splits)
  have "settings optvals s s'" unfolding settings_def
    by (rule exI [of _ opts]) (use eff s' in \<open>simp add: option_effect_def\<close>)
  with get s' show ?thesis by blast
qed

section \<open>A whole run\<close>

definition running :: "lint \<Rightarrow> lint \<Rightarrow> bool" where
  "running s0 s \<longleftrightarrow> lint_ok s \<and> usable s \<and> tally s0 s"

lemma running_write: "\<not> report_line line \<Longrightarrow> safe_unit (running s0) (write_stderr line)"
  unfolding write_stderr_def
proof (rule safe_modify)
  fix s assume "\<not> report_line line" "running s0 s"
  then show "running s0 (s\<lparr>stderr := stderr s @ [line]\<rparr>)"
    using tally_trans [OF _ tally_message, of s0 s line] by (auto simp: running_def lint_ok_def usable_def)
qed

lemma running_ProcessFile:
  assumes "walks_end (os w)" "key_order (key_list w)" "configs_ok w" "plain_name filename"
  shows "runs (text_errors w) (running s0) (\<lambda>_. True)
    (andthen (gets (\<lambda>s. verbose_level (state s))) (\<lambda>level. ProcessFile w filename level []))"
  unfolding runs_def
proof (intro allI impI)
  fix s assume s: "running s0 s"
  then have "lint_ok s" "root_ok (root s)" "0 \<le> verbose_level (state s)" by (simp_all add: running_def usable_def)
  from ProcessFile_outcome [OF assms(1-3) this assms(4)]
  show "(\<exists>e \<in> text_errors w. andthen (gets (\<lambda>s. verbose_level (state s))) (\<lambda>level. ProcessFile w filename level []) s = Inl e)
      \<or> (\<exists>a s'. andthen (gets (\<lambda>s. verbose_level (state s))) (\<lambda>level. ProcessFile w filename level []) s = Inr (a, s') \<and> True \<and> running s0 s')"
    using s tally_trans [of s0 s] by (auto simp: andthen_gets running_def restored_def working_def text_errors_def)
qed

lemma main_runs:
  assumes "walks_end (os w)" "key_order (key_list w)" "configs_ok w" "list_all plain_name filenames"
  shows "runs (text_errors w) (running s0) (\<lambda>_. True)
    (seq (for_each filenames (\<lambda>filename.
            andthen (gets (\<lambda>s. verbose_level (state s))) (\<lambda>level. ProcessFile w filename level [])))
         (andthen (gets (\<lambda>s. PrintErrorCounts (state s))) (\<lambda>report. for_each report write_stderr)))"
proof -
  have counts: "runs (text_errors w) (running s0) (\<lambda>_. True)
      (andthen (gets (\<lambda>s. PrintErrorCounts (state s))) (\<lambda>report. for_each report write_stderr))"
    by (intro safe_runs safe_andthen [where P = "\<lambda>report. \<forall>line \<in> set report. \<not> report_line line"] safe_gets safe_for_each running_write)
      (auto simp: count_lines)
  show ?thesis
    by (intro runs_seq runs_for_each running_ProcessFile [OF assms(1-3)] counts) (use assms(4) in \<open>simp add: list_all_iff\<close>)
qed

section \<open>Properties\<close>

text \<open>C1: a run over files that the command line accepts, from the initial state of the module, completes, unless
  some source text has a line that sends a check past the end of a list.  When it completes, every report on standard
  error is of a documented category, the total equals the number of reports, and the exit status is 1 if there is a
  report and 0 if there is none.  A report is a write that ends in a closing bracket and a line feed.  It is assumed that
  the verbosity is not negative, that the root option is a regular expression, that the configuration files have signed
  filters and well-formed patterns, that no walk up the directories meets \<open>.svn\<close> for ever, that iteration over a
  dictionary visits its keys, and that no file name ends in a closing bracket.\<close>

theorem main_exit_status:
  assumes "ParseArguments args init_lint = Inr (filenames, s1)" and "0 \<le> verbose_level (state s1)" and "root_ok (root s1)"
    and "walks_end (os w)" and "key_order (key_list w)" and "configs_ok w" and "list_all (\<lambda>f. \<not> suffix '']'' f) filenames"
  shows "main w args init_lint = Inl IndexError \<and> \<not> texts_ok w
    \<or> (\<exists>code s'. main w args init_lint = Inr (code, s')
         \<and> list_all (\<lambda>line. report_line line \<longrightarrow> documented_line line) (stderr s')
         \<and> error_count (state s') = int (length (filter report_line (stderr s')))
         \<and> code = (if list_ex report_line (stderr s') then 1 else 0))"
proof -
  let ?t = "s1\<lparr>state := ResetErrorCounts (state s1)\<rparr>"
  from ParseArguments_effect [OF assms(1)] obtain v fmt f c where s1:
    "state s1 = init_cpplint_state\<lparr>output_format := fmt, verbose_level := v, filters := DEFAULT_FILTERS @ filter_items f, counting := c\<rparr>"
    "signed_items f" "stderr s1 = []" by (fastforce simp: settings_def option_effect_def init_lint_def simp del: last.simps)
  have t: "running ?t ?t" "stderr ?t = []" "error_count (state ?t) = 0"
    using s1 assms(2,3) default_filters_signed
    by (auto simp: running_def tally_refl lint_ok_def counts_ok_def usable_def ResetErrorCounts_def init_cpplint_state_def)
  let ?body = "seq (for_each filenames (\<lambda>filename.
            andthen (gets (\<lambda>s. verbose_level (state s))) (\<lambda>level. ProcessFile w filename level [])))
         (andthen (gets (\<lambda>s. PrintErrorCounts (state s))) (\<lambda>report. for_each report write_stderr))"
  have run: "main w args init_lint = andthen ?body (\<lambda>_. gets (\<lambda>s. if error_count (state s) > 0 then 1 else 0)) ?t"
    using assms(1) by (simp add: main_def on_state_def andthen_def [of "ParseArguments args"] seq_def andthen_assoc
        andthen_def [of "\<lambda>s. Inr ((), _ s)"])
  from runsD [OF main_runs [OF assms(4-7), of ?t] t(1)]
  consider "?body ?t = Inl IndexError" "\<not> texts_ok w" | a s' where "?body ?t = Inr (a, s')" "running ?t s'"
    unfolding text_errors_def by blast
  then show ?thesis
  proof cases
    case 1
    then have "main w args init_lint = Inl IndexError" unfolding run by (simp only: andthen_def sum.case)
    with 1(2) show ?thesis by simp
  next
    case (2 a s')
    then have e: "list_all (\<lambda>line. report_line line \<longrightarrow> documented_line line) (stderr s')"
      "error_count (state s') = int (length (filter report_line (stderr s')))" using t unfolding running_def tally_def by auto
    have "(0 < length (filter report_line (stderr s'))) = list_ex report_line (stderr s')" by (auto simp: filter_empty_conv list_ex_iff)
    moreover have "main w args init_lint = Inr (if error_count (state s') > 0 then 1 else 0, s')"
      unfolding run using 2(1) by (simp only: andthen_def gets_def sum.case prod.case)
    ultimately show ?thesis using e by auto
  qed
qed

lemma nested_world_ok: "walks_end (os nested_configs)" "key_order (key_list nested_configs)" "configs_ok nested_configs"
proof -
  show "walks_end (os nested_configs)" "key_order (key_list nested_configs)"
    by (simp_all add: nested_configs_def walks_end_def key_order_def)
  have "list_all entry_ok (entries_of [''filter=-build'', ''linelength=80''])"
    "list_all entry_ok (entries_of [''filter=+build/include # keep'', ''linelength=100''])" by code_simp+
  then show "configs_ok nested_configs" by (auto simp: configs_ok_def nested_configs_def)
qed

lemma nested_texts_ok: "texts_ok nested_configs"
proof -
  have cleansed: "map_sum (\<lambda>_. ()) (\<lambda>cl. (num_lines cl, elided cl = [[], [], []]))
      (CleansedLines (fst (strip_comments 0 (with_markers (fst (line_endings 1 (split_str [] [nl]))))))) = Inr (3, True)" by code_simp
  have "line_ok cl n" if "CleansedLines (fst (strip_comments 0 (with_markers (fst (line_endings 1 (split_str [] [nl])))))) = Inr cl" "in_file cl n" for cl n
  proof -
    from cleansed that have "elided cl = [[], [], []]" "num_lines cl = 3" by auto
    with that(2) have "elided cl ! nat n = []" by (auto simp: in_file_def numeral_3_eq_3 less_Suc_eq nth_Cons' split: if_splits)
    then show ?thesis by (intro line_ok_plain) simp_all
  qed
  then show ?thesis by (auto simp: texts_ok_def text_ok_def nested_configs_def)
qed

theorem main_exit_status_witness:
  "\<exists>s1. ParseArguments [''--verbose=2'', ''q/a.cc''] init_lint = Inr ([''q/a.cc''], s1)
    \<and> (\<exists>code s'. main nested_configs [''--verbose=2'', ''q/a.cc''] init_lint = Inr (code, s')
         \<and> list_all (\<lambda>line. report_line line \<longrightarrow> documented_line line) (stderr s')
         \<and> error_count (state s') = int (length (filter report_line (stderr s')))
         \<and> code = (if list_ex report_line (stderr s') then 1 else 0))"
proof -
  have "case ParseArguments [''--verbose=2'', ''q/a.cc''] init_lint of Inl _ \<Rightarrow> False
    | Inr (fs, s1) \<Rightarrow> fs = [''q/a.cc''] \<and> 0 \<le> verbose_level (state s1) \<and> root_ok (root s1)" by code_simp
  then obtain s1 where s1: "ParseArguments [''--verbose=2'', ''q/a.cc''] init_lint = Inr ([''q/a.cc''], s1)"
    "0 \<le> verbose_level (state s1)" "root_ok (root s1)" by (auto split: sum.splits)
  have "list_all (\<lambda>f. \<not> suffix '']'' f) [''q/a.cc'']" by code_simp
  from main_exit_status [OF s1 nested_world_ok this] nested_texts_ok s1(1) show ?thesis by blast
qed



text \<open>C19: an accepted command line has exactly these effects.  The file names are the arguments after the options, and
  there is at least one.  Output format, verbosity, counting style, line length, root and extensions are
  the last values given for them, and are unchanged (the counting style: empty) where none is given; the format and the
  counting style that are given are documented ones.  The filters are the default ones followed by the items of the last
  \<open>--filter\<close>, all of them signed.  The error count and standard error are unchanged.\<close>

theorem ParseArguments_settings:
  assumes "ParseArguments args s = Inr (filenames, s')"
  shows "\<exists>optvals. getopt LONG_OPTIONS args [] = Some (optvals, filenames) \<and> filenames \<noteq> []
    \<and> output_format (state s') = last (output_format (state s) # option_values ''--output'' optvals)
    \<and> set (option_values ''--output'' optvals) \<subseteq> {''emacs'', ''vs7'', ''eclipse''}
    \<and> Some (verbose_level (state s')) = last (Some (verbose_level (state s)) # map py_int (option_values ''--verbose'' optvals))
    \<and> filters (state s') = DEFAULT_FILTERS @ filter_items (last ([] # option_values ''--filter'' optvals))
    \<and> list_all signed_filter (filters (state s'))
    \<and> counting (state s') = last ([] # option_values ''--counting'' optvals)
    \<and> set (option_values ''--counting'' optvals) \<subseteq> {''total'', ''toplevel'', ''detailed''}
    \<and> Some (line_length s') = last (Some (line_length s) # map py_int (option_values ''--linelength'' optvals))
    \<and> root s' = last (root s # map Some (option_values ''--root'' optvals))
    \<and> valid_extensions s' = last (valid_extensions s # map (\<lambda>v. remdups (split_str v '','')) (option_values ''--extensions'' optvals))
    \<and> error_count (state s') = error_count (state s) \<and> stderr s' = stderr s"
proof -
  from ParseArguments_effect [OF assms] obtain optvals where o: "getopt LONG_OPTIONS args [] = Some (optvals, filenames)"
    "filenames \<noteq> []" "settings optvals s s'" by blast
  from o(3) show ?thesis unfolding settings_def chosen_def option_effect_def
    by (intro exI [of _ optvals]) (use o(1,2) default_filters_signed in \<open>elim exE conjE, simp del: last.simps\<close>)
qed

theorem ParseArguments_settings_witness:
  "\<exists>s'. ParseArguments [''--out=vs7'', ''--counting'', ''detailed'', ''--filter=-x'', ''--filter=-build'', ''--'', ''-x.cc''] init_lint
      = Inr ([''-x.cc''], s')
    \<and> output_format (state s') = ''vs7'' \<and> filters (state s') = DEFAULT_FILTERS @ [''-build''] \<and> counting (state s') = ''detailed''"
proof -
  let ?args = "[''--out=vs7'', ''--counting'', ''detailed'', ''--filter=-x'', ''--filter=-build'', ''--'', ''-x.cc'']"
  have "case ParseArguments ?args init_lint of Inl _ \<Rightarrow> False | Inr (fs, s1) \<Rightarrow> fs = [''-x.cc'']" by code_simp
  then obtain s1 where s1: "ParseArguments ?args init_lint = Inr ([''-x.cc''], s1)" by (auto split: sum.splits)
  have get: "getopt LONG_OPTIONS ?args [] = Some ([(''--output'', ''vs7''), (''--counting'', ''detailed''), (''--filter'', ''-x''),
      (''--filter'', ''-build'')], [''-x.cc''])" by code_simp
  have "filter_items ''-build'' = [''-build'']" by code_simp
  with ParseArguments_settings [OF s1] s1 show ?thesis unfolding get by (auto simp: option_values_def)
qed

text \<open>The ways in which a command line is refused: an exit with the usage text, the list of categories for an empty
  \<open>--filter\<close>, or a \<open>ValueError\<close> for a value that is no number or a filter without a sign.\<close>

definition bad_value :: "string \<times> string \<Rightarrow> bool" where
  "bad_value optval \<longleftrightarrow> (case optval of (opt, val) \<Rightarrow>
     opt = ''--verbose'' \<and> py_int val = None \<or> opt = ''--filter'' \<and> \<not> signed_items val)"

definition category_list :: string where
  "category_list = concat (map (\<lambda>cat. msg_of [''  '', cat, [nl]]) ERROR_CATEGORIES)"

definition option_error :: "(string \<times> string) list \<Rightarrow> py_error \<Rightarrow> bool" where
  "option_error optvals e \<longleftrightarrow>
     (case e of
        SystemExit status out \<Rightarrow>
          status = 1 \<and> prefix USAGE out \<or> status = 0 \<and> out = category_list \<and> (''--filter'', []) \<in> set optvals
      | ValueError _ \<Rightarrow> list_ex bad_value optvals
      | _ \<Rightarrow> False)"

lemma option_error_mono: "option_error ovs e \<Longrightarrow> set ovs \<subseteq> set ovs' \<Longrightarrow> option_error ovs' e"
  by (auto simp: option_error_def list_ex_iff split: py_error.splits)

lemma PrintUsage_error: "PrintUsage message s = Inl e \<Longrightarrow> option_error ovs e"
  by (auto simp: PrintUsage_def option_error_def raise_def msg_of_def split: option.splits if_splits)

lemma parse_option_error:
  assumes "parse_option ov opts s = Inl e"
  shows "option_error [ov] e"
proof -
  obtain opt val where ov: "ov = (opt, val)" by fastforce
  consider "\<exists>message. PrintUsage message s = (Inl e :: py_error + options \<times> lint)" | "opt = ''--verbose''" "py_int val = None" "\<exists>m. e = ValueError m"
    | "opt = ''--filter''" "val = []" "(PrintCategories s :: py_error + options \<times> lint) = Inl e"
    using assms unfolding ov parse_option_def
    by (auto simp: py_simps simp del: insert_iff split: if_splits option.splits)
  then show ?thesis
  proof cases
    case 1
    then show ?thesis by (blast intro: PrintUsage_error)
  qed (auto simp: ov option_error_def bad_value_def PrintCategories_def raise_def category_list_def)
qed

lemma parse_options_filter: "parse_options ovs opts s = Inr (opts', s') \<Longrightarrow>
    filter_choice opts' = filter_choice opts \<or> (''--filter'', filter_choice opts') \<in> set ovs"
proof -
  assume "parse_options ovs opts s = Inr (opts', s')"
  from parse_options_effect [OF this] have "filter_choice opts' \<in> set (filter_choice opts # option_values ''--filter'' ovs)"
    unfolding chosen_def by (metis last_in_set list.discI)
  then show ?thesis by (auto simp: option_values_def)
qed

lemma parse_options_error: "parse_options ovs opts s = Inl e \<Longrightarrow> option_error ovs e"
proof (induction ovs arbitrary: opts s)
  case (Cons ov ovs)
  from Cons.prems consider "parse_option ov opts s = Inl e" | o1 t where "parse_options ovs o1 t = Inl e"
    by (auto simp: andthen_def split: sum.splits)
  then show ?case
  proof cases
    case 1
    from parse_option_error [OF this] show ?thesis by (rule option_error_mono) simp
  next
    case 2
    from Cons.IH [OF this] show ?thesis by (rule option_error_mono) auto
  qed
qed (simp add: ret_def)

definition given_options :: "string list \<Rightarrow> (string \<times> string) list" where
  "given_options args = (case getopt LONG_OPTIONS args [] of None \<Rightarrow> [] | Some (optvals, _) \<Rightarrow> optvals)"

text \<open>C18: a command line is only ever refused in one of three ways: an exit with status 1 that prints the usage text, an exit with
  status 0 that lists the categories after an empty \<open>--filter\<close>, or a \<open>ValueError\<close>, and that one only if some
  \<open>--verbose\<close> is not a number or some \<open>--filter\<close> has an item without a sign.\<close>

theorem ParseArguments_errors:
  assumes "ParseArguments args s = Inl e"
  shows "option_error (given_options args) e"
proof (cases "getopt LONG_OPTIONS args []")
  case None
  with assms show ?thesis by (auto simp: ParseArguments_def intro: PrintUsage_error)
next
  case (Some r)
  obtain ovs files where r: "r = (ovs, files)" by fastforce
  define opts0 where
    "opts0 = \<lparr>verbosity = verbose_level (state s), output_choice = output_format (state s), filter_choice = [], counting_style = []\<rparr>"
  note args = ParseArguments_def Some r module_VerboseLevel_def module_OutputFormat_def andthen_gets opts0_def [symmetric]
    andthen_def [of "parse_options _ _"]
  have "option_error ovs e"
  proof (cases "parse_options ovs opts0 s")
    case (Inl e')
    with assms have "e' = e" by (simp add: args)
    with Inl show ?thesis by (auto intro: parse_options_error)
  next
    case (Inr x)
    obtain opts t where x: "x = (opts, t)" by fastforce
    show ?thesis
    proof (cases "files = []")
      case True
      with assms Inr x have "(PrintUsage (Some ''No files were specified.'') t :: py_error + string list \<times> lint) = Inl e"
        by (simp add: args)
      then show ?thesis by (rule PrintUsage_error)
    next
      case False
      with assms Inr x have bad: "\<not> signed_items (filter_choice opts)" "\<exists>m. e = ValueError m"
        by (auto simp: args module_SetOutputFormat_def SetOutputFormat_def module_SetVerboseLevel_def SetVerboseLevel_def
            module_SetFilters_def SetFilters_def AddFilters_cases default_filters_signed bad_filter_error_def
            module_SetCountingStyle_def SetCountingStyle_def on_state_def py_simps split: if_splits)
      have "filter_items [] = []" by code_simp
      with bad(1) parse_options_filter [OF Inr [unfolded x]] have "(''--filter'', filter_choice opts) \<in> set ovs"
        by (auto simp: opts0_def)
      with bad show ?thesis by (force simp: option_error_def list_ex_iff bad_value_def)
    qed
  qed
  with Some r show ?thesis by (simp add: given_options_def)
qed

theorem ParseArguments_errors_witness:
  "(\<exists>m. ParseArguments [''--verbose=x'', ''a.cc''] init_lint = Inl (ValueError m)) \<and> list_ex bad_value (given_options [''--verbose=x'', ''a.cc''])"
proof -
  let ?args = "[''--verbose=x'', ''a.cc'']"
  have "case ParseArguments ?args init_lint of Inl (ValueError _) \<Rightarrow> True | _ \<Rightarrow> False" by code_simp
  then obtain m where m: "ParseArguments ?args init_lint = Inl (ValueError m)" by (auto split: sum.splits py_error.splits)
  with ParseArguments_errors [OF m] show ?thesis by (simp add: option_error_def)
qed

lemma split_str_line:
  assumes "nl \<notin> set l"
  shows "split_str (l @ nl # rest) [nl] = l # split_str rest [nl]"
proof -
  have "split_acc (l @ nl # rest) [nl] acc = (rev acc @ l) # split_acc rest [nl] []" for acc
    using assms by (induction l arbitrary: acc) auto
  then show ?thesis by (simp add: split_str_def)
qed

lemma split_text:
  assumes "list_all (\<lambda>l. nl \<notin> set l) ls"
  shows "split_str (concat (map (\<lambda>l. l @ [nl]) ls)) [nl] = ls @ [[]]"
  using assms by (induction ls) (simp_all add: split_str_line, simp add: split_str_def)

lemma line_endings_Cons:
  "ls \<noteq> [] \<Longrightarrow> line_endings n (l # ls) =
     (let (out, lf_lines, crlf_lines) = line_endings (n + 1) ls in
      if endswith l [cr] then (rstrip_chars l [cr] # out, lf_lines, n # crlf_lines) else (l # out, n # lf_lines, crlf_lines))"
  by (cases ls) simp_all

lemma strip_cr: "\<not> endswith l [cr] \<Longrightarrow> rstrip_chars (l @ [cr]) [cr] = l"
  by (cases l rule: rev_cases) (auto simp: rstrip_chars_def suffix_def)

lemma line_endings_uniform:
  assumes "list_all (\<lambda>l. \<not> endswith l [cr]) ls"
  shows "\<exists>ns. line_endings n (ls @ [[]]) = (ls @ [[]], ns, [])"
    "\<exists>ns. line_endings n (map (\<lambda>l. l @ [cr]) ls @ [[]]) = (ls @ [[]], [], ns)"
  using assms
proof (induction ls arbitrary: n)
  case (Cons l ls)
  {
    case 1
    with Cons.IH(1) [of "n + 1"] show ?case by (auto simp: line_endings_Cons)
  next
    case 2
    with Cons.IH(2) [of "n + 1"] show ?case by (auto simp: line_endings_Cons strip_cr)
  }
qed simp_all

text \<open>C20: line endings do not matter as long as they are uniform: a file whose lines all end in a carriage return and a
  line feed is processed exactly as the one in which they end in a line feed alone.\<close>

theorem crlf_is_transparent:
  assumes "list_all (\<lambda>l. nl \<notin> set l \<and> \<not> endswith l [cr]) ls"
  shows "process_text w filename (concat (map (\<lambda>l. l @ [cr, nl]) ls)) extra
    = process_text w filename (concat (map (\<lambda>l. l @ [nl]) ls)) extra"
proof -
  have lf: "list_all (\<lambda>l. nl \<notin> set l) ls" "list_all (\<lambda>l. nl \<notin> set l) (map (\<lambda>l. l @ [cr]) ls)"
    and cr: "list_all (\<lambda>l. \<not> endswith l [cr]) ls"
    using assms by (auto simp: list_all_iff)
  have "map (\<lambda>l. l @ [cr, nl]) ls = map (\<lambda>l. l @ [nl]) (map (\<lambda>l. l @ [cr]) ls)" by simp
  then have pieces: "split_str (concat (map (\<lambda>l. l @ [cr, nl]) ls)) [nl] = map (\<lambda>l. l @ [cr]) ls @ [[]]"
    using split_text [OF lf(2)] by (simp only:)
  from line_endings_uniform [OF cr, of 1] obtain ms ns where
    "line_endings 1 (ls @ [[]]) = (ls @ [[]], ms, [])" "line_endings 1 (map (\<lambda>l. l @ [cr]) ls @ [[]]) = (ls @ [[]], [], ns)" by blast
  then show ?thesis unfolding process_text_def pieces split_text [OF lf(1)]
    by (simp add: Let_def do_when_def cong: if_cong)
qed

theorem crlf_is_transparent_witness:
  "process_text nested_configs ''a.cc'' (''int a;'' @ [cr, nl] @ ''int b;'' @ [cr, nl]) []
    = process_text nested_configs ''a.cc'' (''int a;'' @ [nl] @ ''int b;'' @ [nl]) []"
  using crlf_is_transparent [of "[''int a;'', ''int b;'']" nested_configs "''a.cc''" "[]"] by (simp add: suffix_def)

text \<open>C38: whether a file is skipped depends on the configuration files alone: from a consistent state, with signed
  filters and well-formed patterns in the configuration files, \<open>ProcessConfigOverrides\<close> returns, and it returns
  \<open>False\<close> exactly when one of the configuration files that are read on the way up (the last is the first
  one that says \<open>set noparent\<close>, and none is read from one on that cannot be opened) has an \<open>exclude_files\<close> pattern
  that matches the name of the file or directory through which the walk came to it.\<close>

theorem excluded_files_skipped:
  assumes "configs_ok w" and "lint_ok s" and "usable s"
  shows "\<exists>s'. ProcessConfigOverrides w filename s = Inr (\<not> excluded w (abspath (os w) filename), s')"
proof -
  have "working s (verbose_level (state s)) (filters_backup (state s)) s" using assms(2,3) by (simp add: working_def tally_refl)
  with ProcessConfigOverrides_safe [OF assms(1), of s "verbose_level (state s)" "filters_backup (state s)" filename]
  obtain r s' where r: "ProcessConfigOverrides w filename s = Inr (r, s')" unfolding safe_def by blast
  with ProcessConfigOverrides_excludes [OF r] show ?thesis by blast
qed

definition excluding :: world where
  "excluding = nested_configs\<lparr>config_lines := (\<lambda>f. if f = ''/p/CPPLINT.cfg'' then Some [''exclude_files=q|x.*'']
     else if f = ''/p/q/CPPLINT.cfg'' then Some [''exclude_files=b.*''] else None)\<rparr>"

theorem excluded_files_skipped_witness:
  "\<exists>s'. ProcessConfigOverrides excluding ''/p/q/a.cc'' init_lint = Inr (False, s')"
proof -
  have "list_all entry_ok (entries_of [''exclude_files=q|x.*''])" "list_all entry_ok (entries_of [''exclude_files=b.*''])"
    by code_simp+
  then have "configs_ok excluding" by (auto simp: configs_ok_def excluding_def)
  moreover have "excluded excluding (abspath (os excluding) ''/p/q/a.cc'')" by code_simp
  ultimately show ?thesis using excluded_files_skipped [of excluding init_lint "''/p/q/a.cc''"] init_lint_ok by simp
qed

section \<open>The end of a file\<close>

lemma split_acc_lines:
  "length (split_acc s [nl] acc) = Suc (length (filter (\<lambda>c. c = nl) s))"
  "last (split_acc s [nl] acc) = [] \<longleftrightarrow> (if s = [] then acc = [] else last s = nl)"
  by (induction s arbitrary: acc) (auto simp: split_acc_nonempty)

lemma line_endings_end:
  "length (fst (line_endings n ls)) = length ls" "last (fst (line_endings n ls)) = last ls"
proof (induction n ls rule: line_endings.induct)
  case (3 n line next_line ls)
  obtain out a b where rest: "line_endings (n + 1) (next_line # ls) = (out, a, b)" by (metis prod_cases3)
  { case 1 with 3(1) rest show ?case by (simp add: Let_def) }
  { case 2
    from 3(1) rest have "out \<noteq> []" by auto
    with 3(2) rest show ?case by (simp add: Let_def) }
qed simp_all

lemma strip_comments_single: "\<not> closes_comment m \<Longrightarrow> fst (strip_comments n [m]) = [m]"
  by (simp add: Let_def)

lemma closes_nonempty: "closes_comment l \<Longrightarrow> l \<noteq> []"
  by (auto simp: closes_comment_def strip_def lstrip_def rstrip_def)

lemma takeWhile_marker:
  assumes "\<not> closes_comment m"
  shows "length (takeWhile (\<lambda>x. \<not> closes_comment x) (ls @ [m])) =
    (if length (takeWhile (\<lambda>x. \<not> closes_comment x) ls) = length ls then Suc (length ls)
     else length (takeWhile (\<lambda>x. \<not> closes_comment x) ls))"
proof (cases "\<exists>x \<in> set ls. closes_comment x")
  case True
  then have "takeWhile (\<lambda>x. \<not> closes_comment x) ls \<noteq> ls" by (simp add: takeWhile_eq_all_conv)
  then have "length (takeWhile (\<lambda>x. \<not> closes_comment x) ls) \<noteq> length ls" by (metis takeWhile_eq_take take_all_iff order_refl)
  moreover from True have "takeWhile (\<lambda>x. \<not> closes_comment x) (ls @ [m]) = takeWhile (\<lambda>x. \<not> closes_comment x) ls" by auto
  ultimately show ?thesis by simp
next
  case False
  then have all: "\<forall>x \<in> set ls. \<not> closes_comment x" by blast
  then have ls: "takeWhile (\<lambda>x. \<not> closes_comment x) ls = ls" by (simp only: takeWhile_eq_all_conv)
  have lsm: "takeWhile (\<lambda>x. \<not> closes_comment x) (ls @ [m]) = ls @ [m]"
    using all assms by (simp only: takeWhile_eq_all_conv) simp
  show ?thesis unfolding ls lsm by simp
qed

text \<open>Removing comments keeps the line before the end marker empty or not: a comment ends in a line that is not empty,
  and the marker ends none.\<close>

lemma strip_comments_end:
  assumes m: "\<not> closes_comment m"
  shows "ls \<noteq> [] \<Longrightarrow> \<exists>out x. fst (strip_comments n (ls @ [m])) = out @ [x, m] \<and> (x = [] \<longleftrightarrow> last ls = [])"
proof (induction ls arbitrary: n rule: length_induct)
  case (1 ls)
  then obtain l ls' where ls: "ls = l # ls'" by (cases ls) auto
  show ?case
  proof (cases "opens_comment l")
    case False
    show ?thesis
    proof (cases "ls' = []")
      case True
      with False ls m show ?thesis by (intro exI [of _ "[]"] exI [of _ l]) (simp add: strip_comments_single Let_def)
    next
      case rest: False
      with 1 ls obtain out x where "fst (strip_comments (Suc n) (ls' @ [m])) = out @ [x, m]" "x = [] \<longleftrightarrow> last ls' = []" by fastforce
      with False ls rest show ?thesis by (intro exI [of _ "l # out"] exI [of _ x]) simp
    qed
  next
    case True
    define k where "k = length (takeWhile (\<lambda>x. \<not> closes_comment x) ls)"
    note tw = takeWhile_marker [OF m, of ls, folded k_def]
    show ?thesis
    proof (cases "k = length ls")
      case all: True
      have "fst (strip_comments n (ls @ [m])) = butlast ls @ [last ls, m]"
        using True ls tw all by (simp add: Let_def del: takeWhile.simps)
      then show ?thesis by blast
    next
      case some: False
      then have less: "k < length ls" unfolding k_def by (simp add: le_neq_implies_less length_takeWhile_le)
      then have strip: "fst (strip_comments n (ls @ [m])) = replicate (Suc k) ''/**/'' @ fst (strip_comments (n + Suc k) (drop k ls' @ [m]))"
        using True ls tw by (simp add: Let_def less_Suc_eq_le del: takeWhile.simps replicate.simps)
      have "closes_comment (ls ! k)" using less unfolding k_def by (rule nth_length_takeWhile [THEN notnotD])
      show ?thesis
      proof (cases "drop k ls' = []")
        case True
        with less ls have "k = length ls - 1" by simp
        then have "last ls = ls ! k" using ls by (metis last_conv_nth list.discI)
        with \<open>closes_comment (ls ! k)\<close> have "last ls \<noteq> []" by (simp add: closes_nonempty)
        with strip True m show ?thesis
          by (intro exI [of _ "replicate k ''/**/''"] exI [of _ "''/**/''"])
            (simp add: strip_comments_single replicate_append_same del: strip_comments.simps)
      next
        case rest: False
        moreover have "length (drop k ls') < length ls" using ls by simp
        ultimately obtain out x where "fst (strip_comments (n + Suc k) (drop k ls' @ [m])) = out @ [x, m]"
          "x = [] \<longleftrightarrow> last (drop k ls') = []" using 1 by blast
        with strip rest ls show ?thesis
          by (intro exI [of _ "replicate (Suc k) ''/**/'' @ out"] exI [of _ x]) (auto simp: last_drop)
      qed
    qed
  qed
qed

text \<open>What the removal of multi-line comments hands to the checks that follow.\<close>

lemma after_comments:
  "andthen (RemoveMultiLineComments filename ls error) f =
    andthen (RemoveMultiLineComments filename ls error) (\<lambda>_. f (fst (strip_comments 0 ls)))"
proof -
  obtain out k where "strip_comments 0 ls = (out, k)" by fastforce
  then show ?thesis using remove_comments_from_eq [of 0 ls filename error]
    by (cases k) (auto simp: RemoveMultiLineComments_def comments_outcome_def andthen_def seq_def ret_def fun_eq_iff split: sum.splits)
qed

lemma markers_not_comments:
  "\<not> opens_comment ''// marker so line numbers and indices both start at 1''"
  "\<not> closes_comment ''// marker so line numbers end in a known way''"
  by code_simp+

lemma marked_lines_end:
  assumes "ls \<noteq> []"
  obtains out x m where "fst (strip_comments 0 (with_markers ls)) = out @ [x, m]" "x = [] \<longleftrightarrow> last ls = []"
    "length out = length ls"
proof -
  obtain out x where out: "fst (strip_comments (Suc 0) (ls @ [''// marker so line numbers end in a known way''])) =
      out @ [x, ''// marker so line numbers end in a known way'']" "x = [] \<longleftrightarrow> last ls = []"
    using strip_comments_end [OF markers_not_comments(2) assms] by blast
  have "length out + 2 = Suc (length ls)"
    using strip_comments_length [of "Suc 0" "ls @ [''// marker so line numbers end in a known way'']"] out(1) by simp
  with out markers_not_comments(1) that show ?thesis
    by (simp add: with_markers_def)
qed

text \<open>C39: the report on the end of a file is exact. When the line ends have been cut off, the markers added and
  multi-line comments removed, \<open>CheckForNewlineAtEOF\<close> never raises by itself: it stays silent on a text that is empty or
  ends in a newline, and on every other text it makes one report, on the last line, whose number is one more than the
  number of newlines.\<close>

theorem newline_at_eof:
  "andthen (RemoveMultiLineComments filename (with_markers (fst (line_endings 1 (split_str txt [nl])))) error)
     (\<lambda>ls. CheckForNewlineAtEOF filename ls error) =
   andthen (RemoveMultiLineComments filename (with_markers (fst (line_endings 1 (split_str txt [nl])))) error)
     (\<lambda>_. if txt = [] \<or> last txt = nl then pass
        else error filename (int (length (filter (\<lambda>c. c = nl) txt)) + 1) ''whitespace/ending_newline'' 5
          ''Could not find a newline character at the end of the file.'')"
proof -
  let ?ls = "fst (line_endings 1 (split_str txt [nl]))"
  have len: "length ?ls = Suc (length (filter (\<lambda>c. c = nl) txt))"
    and last: "last ?ls = [] \<longleftrightarrow> txt = [] \<or> last txt = nl"
    by (auto simp: line_endings_end split_str_def split_acc_lines)
  from len have "?ls \<noteq> []" by auto
  then obtain out x m where out: "fst (strip_comments 0 (with_markers ?ls)) = out @ [x, m]" "x = [] \<longleftrightarrow> last ?ls = []"
    "length out = length ?ls" by (rule marked_lines_end)
  then have "CheckForNewlineAtEOF filename (fst (strip_comments 0 (with_markers ?ls))) error =
    (if txt = [] \<or> last txt = nl then pass
     else error filename (int (length (filter (\<lambda>c. c = nl) txt)) + 1) ''whitespace/ending_newline'' 5
       ''Could not find a newline character at the end of the file.'')"
    using len last
    by (simp add: CheckForNewlineAtEOF_def py_index_def from_start_def nth_append let_r_def lift_def andthen_def do_when_def
        add.commute nat_add_distrib)
  then show ?thesis by (subst after_comments) simp
qed

end
